(* ===== verification/Prelude.thy ===== *)
theory Prelude
  imports Main "HOL-Library.Word"
begin

text \<open>
  Shared ground of the development: the result type of every modelled operation, its
  sequencing combinator, the indexing of a \<open>std::vector\<close>, the width of the C++
  integers, decimal notation and \<open>atoi\<close>, and line reading on an \<open>std::istream\<close>.
\<close>

section \<open>Results of modelled operations\<close>

text \<open>
  An operation of the program either returns (\<open>Ok\<close>) or does not return to its caller.
  \<open>Undefined\<close> is C++ undefined behaviour (an end iterator dereferenced, an index out of
  range, a signed overflow); \<open>Thrown\<close> is an exception that leaves every handler of the
  modelled code; \<open>Exited n\<close> is a call of \<open>exit(n)\<close>; \<open>Diverged\<close> is a loop or recursion
  that has not returned (within the fuel, where the definition takes fuel).
\<close>

datatype fault = Undefined | Thrown | Exited int | Diverged

datatype 'a res = Ok 'a | Stop fault

fun bnd :: "'a res \<Rightarrow> ('a \<Rightarrow> 'b res) \<Rightarrow> 'b res" where
  "bnd (Ok a) f = f a"
| "bnd (Stop e) f = Stop e"

lemma bnd_eq_Ok [simp]: "bnd m f = Ok b \<longleftrightarrow> (\<exists>a. m = Ok a \<and> f a = Ok b)"
  by (cases m) auto

lemma Ok_eq_bnd [simp]: "Ok b = bnd m f \<longleftrightarrow> (\<exists>a. m = Ok a \<and> f a = Ok b)"
  by (cases m) auto

lemma bndE: "bnd m f = Ok b \<Longrightarrow> (\<And>a. m = Ok a \<Longrightarrow> f a = Ok b \<Longrightarrow> P) \<Longrightarrow> P"
  by auto

lemma bnd_eq_Stop: "bnd m f = Stop e \<longleftrightarrow> m = Stop e \<or> (\<exists>a. m = Ok a \<and> f a = Stop e)"
  by (cases m) auto

lemma bnd_assoc: "bnd (bnd m f) g = bnd m (\<lambda>a. bnd (f a) g)"
  by (cases m) auto

lemma bnd_cong [fundef_cong]:
  "m = m' \<Longrightarrow> (\<And>a. m' = Ok a \<Longrightarrow> f a = f' a) \<Longrightarrow> bnd m f = bnd m' f'"
  by (cases m') auto

lemma if_Ok_conv [simp]:
  "(if P then Stop e else m) = Ok a \<longleftrightarrow> \<not> P \<and> m = Ok a"
  "(if P then m else Stop e) = Ok a \<longleftrightarrow> P \<and> m = Ok a"
  by auto

definition is_ok :: "'a res \<Rightarrow> bool" where
  "is_ok m \<longleftrightarrow> (case m of Ok _ \<Rightarrow> True | Stop _ \<Rightarrow> False)"

lemma is_ok_ex: "is_ok m \<longleftrightarrow> (\<exists>a. m = Ok a)"
  by (cases m) (simp_all add: is_ok_def)

text \<open>\<open>v[i]\<close> on a \<open>std::vector\<close>, and an iterator that must not be \<open>end()\<close>.\<close>

definition vec_at :: "'a list \<Rightarrow> nat \<Rightarrow> 'a res" where
  "vec_at xs i = (if i < length xs then Ok (xs ! i) else Stop Undefined)"

definition deref :: "'a option \<Rightarrow> 'a res" where
  "deref it = (case it of Some a \<Rightarrow> Ok a | None \<Rightarrow> Stop Undefined)"

lemma deref_simps [simp]:
  "deref (Some a) = Ok a" "deref None = Stop Undefined"
  "deref it = Ok a \<longleftrightarrow> it = Some a" "Ok a = deref it \<longleftrightarrow> it = Some a"
  by (auto simp: deref_def split: option.splits)

lemma vec_at_Ok [simp]: "vec_at xs i = Ok a \<longleftrightarrow> i < length xs \<and> xs ! i = a"
  by (auto simp: vec_at_def)

lemma vec_at_Cons [simp]:
  "vec_at (x # xs) 0 = Ok x" "vec_at (x # xs) (Suc i) = vec_at xs i" "vec_at [] i = Stop Undefined"
  by (auto simp: vec_at_def)

section \<open>Integers of the program\<close>

definition in_int32 :: "int \<Rightarrow> bool" where
  "in_int32 i \<longleftrightarrow> - 2147483648 \<le> i \<and> i \<le> 2147483647"

text \<open>\<open>int n = s.size()\<close>: the conversion from \<open>size_t\<close> keeps the low 32 bits.\<close>

definition int_of_size :: "nat \<Rightarrow> int" where
  "int_of_size n = sint (word_of_nat n :: 32 word)"

lemma int_of_size_small [simp]: "n < 2147483648 \<Longrightarrow> int_of_size n = int n"
  by (simp add: int_of_size_def signed_of_nat signed_take_bit_int_eq_self)

text \<open>\<open>short p = i\<close> keeps the low 16 bits, read as two's complement.\<close>

definition short_of_int :: "int \<Rightarrow> int" where
  "short_of_int i = sint (word_of_int i :: 16 word)"

section \<open>Decimal notation and \<open>atoi\<close>\<close>

definition digit_char :: "nat \<Rightarrow> char" where
  "digit_char n = char_of (48 + n)"

definition is_digit :: "char \<Rightarrow> bool" where
  "is_digit c \<longleftrightarrow> 48 \<le> (of_char c :: nat) \<and> (of_char c :: nat) \<le> 57"

definition digit_val :: "char \<Rightarrow> int" where
  "digit_val c = int (of_char c :: nat) - 48"

definition is_space :: "char \<Rightarrow> bool" where
  "is_space c \<longleftrightarrow> c = CHR 0x20 \<or> (9 \<le> (of_char c :: nat) \<and> (of_char c :: nat) \<le> 13)"

fun nat_digits :: "nat \<Rightarrow> string" where
  "nat_digits n =
     (if n < 10 then [digit_char n] else nat_digits (n div 10) @ [digit_char (n mod 10)])"

declare nat_digits.simps [simp del]

definition decimal :: "int \<Rightarrow> string" where
  "decimal i = (if i < 0 then CHR ''-'' # nat_digits (nat (- i)) else nat_digits (nat i))"

text \<open>The digits at the head of a string, read into an accumulator.\<close>

fun dig_val :: "int \<Rightarrow> string \<Rightarrow> int" where
  "dig_val a [] = a"
| "dig_val a (c # cs) = (if is_digit c then dig_val (10 * a + digit_val c) cs else a)"

definition atoi_val :: "string \<Rightarrow> int" where
  "atoi_val s =
     (case dropWhile is_space s of
        [] \<Rightarrow> 0
      | c # cs \<Rightarrow>
          if c = CHR ''-'' then - dig_val 0 cs
          else if c = CHR ''+'' then dig_val 0 cs
          else dig_val 0 (c # cs))"

text \<open>\<open>atoi\<close> of the C library: a value outside \<open>int\<close> is undefined behaviour.\<close>

definition atoi :: "string \<Rightarrow> int res" where
  "atoi s = (if in_int32 (atoi_val s) then Ok (atoi_val s) else Stop Undefined)"

lemma digit_char_props [simp]:
  assumes "n < 10"
  shows "is_digit (digit_char n)" "digit_val (digit_char n) = int n"
    "\<not> is_space (digit_char n)" "digit_char n \<noteq> CHR ''-''" "digit_char n \<noteq> CHR ''+''"
proof -
  have v: "of_char (digit_char n) = (48 + n :: nat)"
    using assms by (simp add: digit_char_def)
  show "is_digit (digit_char n)" "digit_val (digit_char n) = int n"
    using assms by (simp_all add: is_digit_def digit_val_def v)
  have ne: "digit_char n \<noteq> c" if "of_char c < (48 :: nat)" for c
    using v that by auto
  show "digit_char n \<noteq> CHR ''-''" "digit_char n \<noteq> CHR ''+''"
    by (rule ne, simp)+
  have "digit_char n \<noteq> CHR 0x20"
    by (rule ne) simp
  then show "\<not> is_space (digit_char n)"
    by (simp add: is_space_def v)
qed

lemma nat_digits_nonempty [simp]: "nat_digits n \<noteq> []"
  by (subst nat_digits.simps) simp

lemma nat_digits_all: "c \<in> set (nat_digits n) \<Longrightarrow> \<exists>k<10. c = digit_char k"
proof (induction n rule: nat_digits.induct)
  case (1 n)
  have "c = digit_char n \<and> n < 10 \<or> c \<in> set (nat_digits (n div 10)) \<and> \<not> n < 10
      \<or> c = digit_char (n mod 10)"
    using "1.prems" by (subst (asm) nat_digits.simps) (auto split: if_splits)
  moreover have "n mod 10 < 10" by simp
  ultimately show ?case using "1.IH" by blast
qed

lemma nat_digits_digits: "c \<in> set (nat_digits n) \<Longrightarrow> is_digit c"
  using nat_digits_all by fastforce

lemma dig_val_append:
  "(\<forall>c \<in> set xs. is_digit c) \<Longrightarrow> dig_val a (xs @ ys) = dig_val (dig_val a xs) ys"
  by (induction xs arbitrary: a) auto

lemma dig_val_stop: "(ys \<noteq> [] \<Longrightarrow> \<not> is_digit (hd ys)) \<Longrightarrow> dig_val a ys = a"
  by (cases ys) auto

lemma dig_val_nat_digits: "dig_val 0 (nat_digits n) = int n"
proof (induction n rule: nat_digits.induct)
  case (1 n)
  show ?case
  proof (cases "n < 10")
    case True
    then show ?thesis by (subst nat_digits.simps) simp
  next
    case False
    then have "dig_val 0 (nat_digits n) = 10 * dig_val 0 (nat_digits (n div 10)) + int (n mod 10)"
      by (subst nat_digits.simps) (simp add: dig_val_append nat_digits_digits)
    also have "\<dots> = int n"
      using 1 False by (simp add: zdiv_int zmod_int)
    finally show ?thesis .
  qed
qed

lemma hd_nat_digits:
  "\<not> is_space (hd (nat_digits n))" "hd (nat_digits n) \<noteq> CHR ''-''" "hd (nat_digits n) \<noteq> CHR ''+''"
proof -
  have "hd (nat_digits n) \<in> set (nat_digits n)" by simp
  from nat_digits_all [OF this] obtain k where "k < 10" "hd (nat_digits n) = digit_char k"
    by blast
  then show "\<not> is_space (hd (nat_digits n))" "hd (nat_digits n) \<noteq> CHR ''-''"
    "hd (nat_digits n) \<noteq> CHR ''+''" by simp_all
qed

text \<open>\<open>atoi\<close> reads back what decimal notation writes, whatever non-digit follows.\<close>

lemma atoi_val_decimal_append:
  assumes "ys \<noteq> [] \<Longrightarrow> \<not> is_digit (hd ys)"
  shows "atoi_val (decimal i @ ys) = i"
proof (cases "i < 0")
  case True
  have "dig_val 0 (nat_digits (nat (- i)) @ ys) = - i"
    using True assms
    by (simp add: dig_val_append nat_digits_digits dig_val_nat_digits dig_val_stop)
  with True show ?thesis
    by (simp add: decimal_def atoi_val_def is_space_def)
next
  case False
  obtain c cs where c: "nat_digits (nat i) = c # cs"
    by (cases "nat_digits (nat i)") simp_all
  have "dig_val 0 (nat_digits (nat i) @ ys) = i"
    using False assms
    by (simp add: dig_val_append nat_digits_digits dig_val_nat_digits dig_val_stop)
  with False c hd_nat_digits [of "nat i"] show ?thesis
    by (simp add: decimal_def atoi_val_def)
qed

lemma atoi_val_decimal [simp]: "atoi_val (decimal i) = i"
  using atoi_val_decimal_append [of "[]" i] by simp

lemma atoi_decimal [simp]: "in_int32 i \<Longrightarrow> atoi (decimal i) = Ok i"
  by (simp add: atoi_def)

lemma atoi_Ok: "atoi s = Ok i \<longleftrightarrow> i = atoi_val s \<and> in_int32 i"
  by (auto simp: atoi_def)

lemma decimal_nonempty [simp]: "decimal i \<noteq> []"
  by (simp add: decimal_def)

lemma decimal_chars: "c \<in> set (decimal i) \<Longrightarrow> c = CHR ''-'' \<or> is_digit c"
  by (auto simp: decimal_def nat_digits_digits split: if_splits)

lemma decimal_no_delim:
  assumes "c \<in> set (decimal i)" shows "c \<notin> {CHR 0x09, CHR 0x20, CHR 0x0A, CHR 0x0D, CHR ''|''}"
  using decimal_chars [OF assms] by (auto simp: is_digit_def)

section \<open>Reading lines\<close>

text \<open>
  An \<open>std::istream\<close> over a buffer: the characters left and the end-of-file flag.
  \<open>std::getline\<close> on a stream whose flag is set leaves its string alone and fails; with a
  newline ahead it takes the line and drops the newline; without one it takes all that is
  left and sets the flag, and it fails when that is nothing.
\<close>

type_synonym istream = "string \<times> bool"

abbreviation nl :: char where "nl \<equiv> CHR 0x0A"
abbreviation cr :: char where "cr \<equiv> CHR 0x0D"

definition crlf :: string where "crlf = [cr, nl]"

fun getline :: "istream \<Rightarrow> string \<Rightarrow> bool \<times> string \<times> istream" where
  "getline (buf, eof) cur =
     (if eof then (False, cur, (buf, True))
      else if nl \<in> set buf
        then (True, takeWhile (\<lambda>c. c \<noteq> nl) buf, (tl (dropWhile (\<lambda>c. c \<noteq> nl) buf), False))
      else (buf \<noteq> [], buf, ([], True)))"

lemma takeWhile_line: "nl \<notin> set xs \<Longrightarrow> takeWhile (\<lambda>c. c \<noteq> nl) (xs @ nl # ys) = xs"
  by (induction xs) auto

lemma dropWhile_line: "nl \<notin> set xs \<Longrightarrow> dropWhile (\<lambda>c. c \<noteq> nl) (xs @ nl # ys) = nl # ys"
  by (induction xs) auto

lemma getline_line [simp]:
  "nl \<notin> set xs \<Longrightarrow> getline (xs @ nl # ys, False) cur = (True, xs, (ys, False))"
  by (simp add: takeWhile_line dropWhile_line)

lemma getline_last:
  "nl \<notin> set xs \<Longrightarrow> getline (xs, False) cur = (xs \<noteq> [], xs, ([], True))"
  by simp

declare getline.simps [simp del]

text \<open>A read that does not reach the end of the buffer leaves fewer characters.\<close>

lemma getline_shorter:
  "getline st cur = (True, line, st') \<Longrightarrow> \<not> snd st' \<Longrightarrow> length (fst st') < length (fst st)"
proof (cases st)
  case (Pair buf eof)
  assume a: "getline st cur = (True, line, st')" "\<not> snd st'"
  then have "nl \<in> set buf" and s: "st' = (tl (dropWhile (\<lambda>c. c \<noteq> nl) buf), False)"
    using Pair by (auto simp: getline.simps split: if_splits)
  then have "dropWhile (\<lambda>c. c \<noteq> nl) buf \<noteq> []"
    by (auto simp: dropWhile_eq_Nil_conv)
  moreover have "length (dropWhile (\<lambda>c. c \<noteq> nl) buf) \<le> length buf"
    by (rule length_dropWhile_le)
  ultimately show ?thesis
    using Pair s by (cases "dropWhile (\<lambda>c. c \<noteq> nl) buf") auto
qed

end
