(* ===== verification/Ordered_Map.thy ===== *)
theory Ordered_Map
  imports Prelude
begin

text \<open>
  \<open>std::map\<close>: the entries in ascending key order, which is the order its iterators visit.
  The operations are the ones the program calls; the interface they promise is the locale
  \<open>ordered_map\<close>, in which the facts the components use are proved once.
\<close>

section \<open>The container\<close>

type_synonym ('k, 'v) omap = "('k \<times> 'v) list"

text \<open>\<open>m.find(k)\<close>: \<open>None\<close> is \<open>m.end()\<close>.\<close>

fun om_find :: "('k::linorder, 'v) omap \<Rightarrow> 'k \<Rightarrow> 'v option" where
  "om_find [] k = None"
| "om_find ((a, b) # m) k = (if k = a then Some b else om_find m k)"

text \<open>\<open>m.insert(make_pair(k, v))\<close>: an entry that is there stays as it is.\<close>

fun om_insert :: "'k::linorder \<Rightarrow> 'v \<Rightarrow> ('k, 'v) omap \<Rightarrow> ('k, 'v) omap" where
  "om_insert k v [] = [(k, v)]"
| "om_insert k v ((a, b) # m) =
     (if k < a then (k, v) # (a, b) # m
      else if k = a then (a, b) # m
      else (a, b) # om_insert k v m)"

text \<open>An assignment through an iterator or \<open>operator[]\<close>: the entry is replaced.\<close>

fun om_put :: "'k::linorder \<Rightarrow> 'v \<Rightarrow> ('k, 'v) omap \<Rightarrow> ('k, 'v) omap" where
  "om_put k v [] = [(k, v)]"
| "om_put k v ((a, b) # m) =
     (if k < a then (k, v) # (a, b) # m
      else if k = a then (k, v) # m
      else (a, b) # om_put k v m)"

text \<open>\<open>m.erase(it)\<close> of the entry at \<open>k\<close>.\<close>

fun om_erase :: "'k::linorder \<Rightarrow> ('k, 'v) omap \<Rightarrow> ('k, 'v) omap" where
  "om_erase k [] = []"
| "om_erase k ((a, b) # m) = (if k = a then m else (a, b) # om_erase k m)"

definition om_keys :: "('k::linorder, 'v) omap \<Rightarrow> 'k list" where
  "om_keys m = map fst m"

definition om_ok :: "('k::linorder, 'v) omap \<Rightarrow> bool" where
  "om_ok m \<longleftrightarrow> sorted_wrt (<) (om_keys m)"

lemma om_keys_simps [simp]: "om_keys [] = []" "om_keys ((a, b) # m) = a # om_keys m"
  by (simp_all add: om_keys_def)

lemma om_ok_simps [simp]:
  "om_ok []" "om_ok ((a, b) # m) \<longleftrightarrow> (\<forall>k \<in> set (om_keys m). a < k) \<and> om_ok m"
  by (simp_all add: om_ok_def)

lemma om_find_None_keys: "om_find m k = None \<longleftrightarrow> k \<notin> set (om_keys m)"
  by (induction m k rule: om_find.induct) simp_all

lemma om_find_below: "(\<forall>a \<in> set (om_keys m). k < a) \<Longrightarrow> om_find m k = None"
  by (auto simp: om_find_None_keys)

lemma om_keys_insert: "set (om_keys (om_insert k v m)) = insert k (set (om_keys m))"
  by (induction k v m rule: om_insert.induct) auto

lemma om_keys_put: "set (om_keys (om_put k v m)) = insert k (set (om_keys m))"
  by (induction k v m rule: om_put.induct) auto

lemma om_keys_erase: "set (om_keys (om_erase k m)) \<subseteq> set (om_keys m)"
  by (induction k m rule: om_erase.induct) auto

lemma om_insert_find:
  "om_ok m \<Longrightarrow> om_find (om_insert k v m) k' =
     (if k' = k then Some (case om_find m k of None \<Rightarrow> v | Some w \<Rightarrow> w) else om_find m k')"
proof (induction k v m rule: om_insert.induct)
  case (2 k v a b m)
  have "k < a \<Longrightarrow> om_find m k = None"
    using "2.prems" by (intro om_find_below) auto
  with 2 show ?case by auto
qed simp

lemma om_put_find: "om_find (om_put k v m) k' = (if k' = k then Some v else om_find m k')"
  by (induction k v m rule: om_put.induct) auto

lemma om_erase_find:
  "om_ok m \<Longrightarrow> om_find (om_erase k m) k' = (if k' = k then None else om_find m k')"
  by (induction k m rule: om_erase.induct) (auto simp: om_find_below)

lemma om_insert_ok: "om_ok m \<Longrightarrow> om_ok (om_insert k v m)"
  by (induction k v m rule: om_insert.induct) (auto simp: om_keys_insert)

lemma om_put_ok: "om_ok m \<Longrightarrow> om_ok (om_put k v m)"
  by (induction k v m rule: om_put.induct) (auto simp: om_keys_put)

lemma om_erase_ok: "om_ok m \<Longrightarrow> om_ok (om_erase k m)"
  using om_keys_erase by (induction k m rule: om_erase.induct) fastforce+

lemma om_keys_sorted: "om_ok m \<Longrightarrow> sorted_wrt (<) (om_keys m)"
  by (simp add: om_ok_def)

section \<open>The interface\<close>

locale ordered_map =
  fixes find :: "'m \<Rightarrow> 'k::linorder \<Rightarrow> 'v option"
    and ins :: "'k \<Rightarrow> 'v \<Rightarrow> 'm \<Rightarrow> 'm"
    and put :: "'k \<Rightarrow> 'v \<Rightarrow> 'm \<Rightarrow> 'm"
    and erase :: "'k \<Rightarrow> 'm \<Rightarrow> 'm"
    and keys :: "'m \<Rightarrow> 'k list"
    and ok :: "'m \<Rightarrow> bool"
  assumes find_ins: "ok m \<Longrightarrow> find (ins k v m) k' =
      (if k' = k then Some (case find m k of None \<Rightarrow> v | Some w \<Rightarrow> w) else find m k')"
    and find_put: "find (put k v m) k' = (if k' = k then Some v else find m k')"
    and find_erase: "ok m \<Longrightarrow> find (erase k m) k' = (if k' = k then None else find m k')"
    and ok_ins: "ok m \<Longrightarrow> ok (ins k v m)"
    and ok_put: "ok m \<Longrightarrow> ok (put k v m)"
    and ok_erase: "ok m \<Longrightarrow> ok (erase k m)"
    and keys_iff: "k \<in> set (keys m) \<longleftrightarrow> find m k \<noteq> None"
    and keys_sorted: "ok m \<Longrightarrow> sorted_wrt (<) (keys m)"
begin

lemma ins_present: "ok m \<Longrightarrow> find m k = Some w \<Longrightarrow> find (ins k v m) = find m"
  by (rule ext) (simp add: find_ins)

lemma ins_absent: "ok m \<Longrightarrow> find m k = None \<Longrightarrow> find (ins k v m) = (find m)(k \<mapsto> v)"
  by (rule ext) (simp add: find_ins)

lemma find_put_fun: "find (put k v m) = (find m)(k \<mapsto> v)"
  by (rule ext) (simp add: find_put)

lemma find_erase_fun: "ok m \<Longrightarrow> find (erase k m) = (find m)(k := None)"
  by (rule ext) (simp add: find_erase)

lemma ins_monotone: "ok m \<Longrightarrow> find m k' = Some w \<Longrightarrow> find (ins k v m) k' = Some w"
  by (auto simp: find_ins)

lemma keys_set: "set (keys m) = dom (find m)"
  by (auto simp: keys_iff)

lemma keys_distinct: "ok m \<Longrightarrow> distinct (keys m)"
  using keys_sorted strict_sorted_iff by blast

lemma keys_ins: "ok m \<Longrightarrow> set (keys (ins k v m)) = insert k (set (keys m))"
  by (auto simp: keys_set find_ins split: if_splits)

lemma keys_put: "set (keys (put k v m)) = insert k (set (keys m))"
  by (auto simp: keys_set find_put split: if_splits)

lemma keys_erase: "ok m \<Longrightarrow> set (keys (erase k m)) = set (keys m) - {k}"
  by (auto simp: keys_set find_erase split: if_splits)

end

interpretation om: ordered_map om_find om_insert om_put om_erase om_keys om_ok
  by unfold_locales
    (simp_all add: om_insert_find om_put_find om_erase_find om_insert_ok om_put_ok om_erase_ok
      om_find_None_keys om_keys_sorted)

lemmas om_simps = om.find_put om.find_ins om.find_erase
lemmas om_oks = om.ok_ins om.ok_put om.ok_erase

end
