(* ===== verification/Library_Env.thy ===== *)
theory Library_Env
  imports Ordered_Map
begin

text \<open>
  What the program takes from outside \<open>src/\<close>: Boost and the operating system are the
  fields of one record, passed to every operation that uses them. The laws the properties
  rely on are stated here by name, each a documented behaviour of that library, and
  \<open>ref_env\<close> is a concrete instance that satisfies all of them.
\<close>

section \<open>The data the program stores\<close>

text \<open>
  \<open>LogPair\<close> and \<open>log_trans\<close>: \<open><transaction#, <seq#, (header, data)>>\<close>.
\<close>

type_synonym log_pair = "string \<times> string"
type_synonym txn = "(int, log_pair) omap"
type_synonym log = "(int, txn) omap"

text \<open>The file store: what stands at a path.\<close>

datatype fentry = File string | Dir | Special

type_synonym disk = "string \<Rightarrow> fentry option"

definition file_text :: "disk \<Rightarrow> string \<Rightarrow> string" where
  "file_text d p = (case d p of Some (File s) \<Rightarrow> s | _ \<Rightarrow> [])"

section \<open>The library environment\<close>

text \<open>
  \<^item> \<open>split_any ds s\<close>: \<open>boost::split(v, s, is_any_of(ds))\<close>;
  \<^item> \<open>lex_int\<close>, \<open>lex_str\<close>: \<open>boost::lexical_cast\<close> to \<open>int\<close> (\<open>None\<close> for
    \<open>bad_lexical_cast\<close>) and from an integer to \<open>std::string\<close>;
  \<^item> \<open>posix_name\<close>: \<open>boost::filesystem::portable_posix_name\<close>;
  \<^item> \<open>uniform n k\<close>: the \<open>k\<close>-th value of \<open>boost::uniform_int(1, n)\<close> on the generator;
  \<^item> \<open>oarchive\<close>, \<open>iarchive\<close>: \<open>boost::archive::text_oarchive\<close> and \<open>text_iarchive\<close> on
    \<open>log_trans\<close>; reading gives whether no \<open>archive_exception\<close> was thrown, and the map as
    it then stands;
  \<^item> \<open>fd_sink app p s d\<close>: open a \<open>boost::iostreams\<close> \<open>file_descriptor_sink\<close> at \<open>p\<close>
    (appending or not), write \<open>s\<close>, flush and sync; \<open>None\<close> when the open throws. The result is
    the disk as it then stands, which may hold only a part of \<open>s\<close>, as the program does not
    look; \<open>files_ok\<close> excludes that;
  \<^item> \<open>os_open\<close>: whether a \<open>std::ofstream\<close> on a path opens; \<open>os_rename\<close>: whether
    \<open>rename\<close> succeeds; \<open>os_read\<close>: whether a \<open>std::ifstream\<close> on a path opens
    (on what is no regular file it then gives nothing);
    \<open>os_remove\<close>: whether \<open>remove\<close> succeeds;
  \<^item> \<open>acceptor ip p\<close>: whether \<open>tcp::acceptor\<close> can listen on that address and port; it
    throws where it cannot.
\<close>

record env =
  split_any :: "string \<Rightarrow> string \<Rightarrow> string list"
  lex_int :: "string \<Rightarrow> int option"
  lex_str :: "int \<Rightarrow> string"
  posix_name :: "string \<Rightarrow> bool"
  uniform :: "int \<Rightarrow> nat \<Rightarrow> int"
  oarchive :: "log \<Rightarrow> string"
  iarchive :: "string \<Rightarrow> bool \<times> log"
  fd_sink :: "bool \<Rightarrow> string \<Rightarrow> string \<Rightarrow> disk \<Rightarrow> disk option"
  os_open :: "disk \<Rightarrow> string \<Rightarrow> bool"
  os_read :: "disk \<Rightarrow> string \<Rightarrow> bool"
  os_rename :: "disk \<Rightarrow> string \<Rightarrow> string \<Rightarrow> bool"
  os_remove :: "disk \<Rightarrow> string \<Rightarrow> bool"
  acceptor :: "string \<Rightarrow> int \<Rightarrow> bool"

abbreviation tab :: char where "tab \<equiv> CHR 0x09"
abbreviation ws :: string where "ws \<equiv> [tab, CHR '' '']"

section \<open>The text interface of Boost\<close>

text \<open>
  \<open>split\<close> cuts at every delimiter and keeps empty pieces; \<open>lexical_cast\<close> writes an
  integer in decimal notation, reads it back, and yields only values of its target type.
\<close>

locale text_lib =
  fixes spl :: "string \<Rightarrow> string \<Rightarrow> string list"
    and lint :: "string \<Rightarrow> int option"
    and lstr :: "int \<Rightarrow> string"
  assumes spl_last: "(\<forall>c \<in> set s. c \<notin> set ds) \<Longrightarrow> spl ds s = [s]"
    and spl_cut: "(\<forall>c \<in> set s. c \<notin> set ds) \<Longrightarrow> x \<in> set ds \<Longrightarrow> spl ds (s @ x # t) = s # spl ds t"
    and lstr_decimal: "in_int32 i \<Longrightarrow> lstr i = decimal i"
    and lint_decimal: "in_int32 i \<Longrightarrow> lint (decimal i) = Some i"
    and lint_range: "lint s = Some i \<Longrightarrow> in_int32 i"
begin

lemma lint_lstr: "in_int32 i \<Longrightarrow> lint (lstr i) = Some i"
  by (simp add: lstr_decimal lint_decimal)

lemma atoi_lstr: "in_int32 i \<Longrightarrow> atoi (lstr i) = Ok i"
  by (simp add: lstr_decimal)

lemma lstr_no_delim:
  "in_int32 i \<Longrightarrow> c \<in> set (lstr i) \<Longrightarrow> c \<notin> {tab, CHR '' '', nl, cr, CHR ''|''}"
  using decimal_no_delim by (simp add: lstr_decimal)

lemma spl_nonempty: "spl ds s \<noteq> []"
proof (cases "\<exists>c \<in> set s. c \<in> set ds")
  case True
  then obtain a x t where "s = a @ x # t" "x \<in> set ds" "\<forall>c \<in> set a. c \<notin> set ds"
    using split_list_first_prop [of s "\<lambda>c. c \<in> set ds"] by blast
  then show ?thesis by (simp add: spl_cut)
next
  case False
  then show ?thesis by (simp add: spl_last)
qed

text \<open>The pieces hold no delimiter, and nothing that is not in the text.\<close>

lemma spl_pieces: "p \<in> set (spl ds s) \<Longrightarrow> c \<in> set p \<Longrightarrow> c \<notin> set ds"
proof (induction "length s" arbitrary: s rule: less_induct)
  case less
  show ?case
  proof (cases "\<exists>c \<in> set s. c \<in> set ds")
    case True
    then obtain a x t where s: "s = a @ x # t" "x \<in> set ds" "\<forall>c \<in> set a. c \<notin> set ds"
      using split_list_first_prop [of s "\<lambda>c. c \<in> set ds"] by blast
    with less.prems have "p = a \<or> p \<in> set (spl ds t)" by (simp add: spl_cut)
    with s less.prems less.hyps [of t] show ?thesis by auto
  next
    case False
    with less show ?thesis by (auto simp: spl_last)
  qed
qed

lemma spl_within: "p \<in> set (spl ds s) \<Longrightarrow> set p \<subseteq> set s"
proof (induction "length s" arbitrary: s rule: less_induct)
  case less
  show ?case
  proof (cases "\<exists>c \<in> set s. c \<in> set ds")
    case True
    then obtain a x t where s: "s = a @ x # t" "x \<in> set ds" "\<forall>c \<in> set a. c \<notin> set ds"
      using split_list_first_prop [of s "\<lambda>c. c \<in> set ds"] by blast
    with less.prems have "p = a \<or> p \<in> set (spl ds t)" by (simp add: spl_cut)
    with s less.hyps [of t] show ?thesis by auto
  next
    case False
    with less.prems show ?thesis by (simp add: spl_last)
  qed
qed

end

definition text_ok :: "env \<Rightarrow> bool" where
  "text_ok E \<longleftrightarrow> text_lib (split_any E) (lex_int E) (lex_str E)"

section \<open>The archive and file interfaces\<close>

text \<open>An archive read from what was written restores the map.\<close>

definition archive_ok :: "env \<Rightarrow> bool" where
  "archive_ok E \<longleftrightarrow> (\<forall>l. iarchive E (oarchive E l) = (True, l))"

text \<open>
  A sink that opened for appending leaves the old text with the new one behind it; one that
  opened without leaves the new text; no other path changes.
\<close>

locale file_lib =
  fixes sink :: "bool \<Rightarrow> string \<Rightarrow> string \<Rightarrow> disk \<Rightarrow> disk option"
  assumes sink_app: "sink True p s d = Some d' \<Longrightarrow> d' = d(p \<mapsto> File (file_text d p @ s))"
    and sink_new: "sink False p s d = Some d' \<Longrightarrow> d' = d(p \<mapsto> File s)"
begin

lemma sink_other: "sink app p s d = Some d' \<Longrightarrow> q \<noteq> p \<Longrightarrow> d' q = d q"
  using sink_app [of p s d d'] sink_new [of p s d d'] by (cases app) auto

lemma sink_text: "sink app p s d = Some d' \<Longrightarrow> file_text d' p = (if app then file_text d p else []) @ s"
  using sink_app [of p s d d'] sink_new [of p s d d'] by (cases app) (auto simp: file_text_def)

end

definition files_ok :: "env \<Rightarrow> bool" where
  "files_ok E \<longleftrightarrow> file_lib (fd_sink E)"

text \<open>The characters \<open>portable_posix_name\<close> admits, and the range of \<open>uniform_int\<close>.\<close>

definition posix_chars :: string where
  "posix_chars = ''abcdefghijklmnopqrstuvwxyzABCDEFGHIJKLMNOPQRSTUVWXYZ0123456789._-''"

definition names_ok :: "env \<Rightarrow> bool" where
  "names_ok E \<longleftrightarrow> (\<forall>s. posix_name E s \<longleftrightarrow> s \<noteq> [] \<and> set s \<subseteq> set posix_chars)"

definition random_ok :: "env \<Rightarrow> bool" where
  "random_ok E \<longleftrightarrow> (\<forall>n k. 1 \<le> n \<longrightarrow> 1 \<le> uniform E n k \<and> uniform E n k \<le> n)"

section \<open>A reference instance\<close>

fun ref_split :: "string \<Rightarrow> string \<Rightarrow> string list" where
  "ref_split ds [] = [[]]"
| "ref_split ds (c # s) =
     (if c \<in> set ds then [] # ref_split ds s
      else case ref_split ds s of [] \<Rightarrow> [[c]] | p # ps \<Rightarrow> (c # p) # ps)"

definition ref_lex_int :: "string \<Rightarrow> int option" where
  "ref_lex_int s =
     (let t = (if s \<noteq> [] \<and> (hd s = CHR ''-'' \<or> hd s = CHR ''+'') then tl s else s)
      in if t \<noteq> [] \<and> list_all is_digit t \<and> in_int32 (atoi_val s) then Some (atoi_val s) else None)"

definition ref_sink :: "bool \<Rightarrow> string \<Rightarrow> string \<Rightarrow> disk \<Rightarrow> disk option" where
  "ref_sink app p s d =
     (case d p of
        Some Dir \<Rightarrow> None
      | _ \<Rightarrow> Some (d(p \<mapsto> File (if app then file_text d p @ s else s))))"

text \<open>An archive format: every number in decimal followed by a blank, every string behind its length.\<close>

definition put_int :: "int \<Rightarrow> string" where
  "put_int i = decimal i @ '' ''"

definition get_int :: "string \<Rightarrow> int \<times> string" where
  "get_int s = (atoi_val s, tl (dropWhile (\<lambda>c. c \<noteq> CHR '' '') s))"

definition put_str :: "string \<Rightarrow> string" where
  "put_str s = put_int (int (length s)) @ s"

definition get_str :: "string \<Rightarrow> string \<times> string" where
  "get_str s = (let (n, t) = get_int s in (take (nat n) t, drop (nat n) t))"

definition put_list :: "('a \<Rightarrow> string) \<Rightarrow> 'a list \<Rightarrow> string" where
  "put_list f xs = put_int (int (length xs)) @ concat (map f xs)"

fun get_n :: "(string \<Rightarrow> 'a \<times> string) \<Rightarrow> nat \<Rightarrow> string \<Rightarrow> 'a list \<times> string" where
  "get_n g 0 s = ([], s)"
| "get_n g (Suc n) s = (let (x, t) = g s; (xs, u) = get_n g n t in (x # xs, u))"

definition get_list :: "(string \<Rightarrow> 'a \<times> string) \<Rightarrow> string \<Rightarrow> 'a list \<times> string" where
  "get_list g s = (let (n, t) = get_int s in get_n g (nat n) t)"

definition put_pair :: "('a \<Rightarrow> string) \<Rightarrow> ('b \<Rightarrow> string) \<Rightarrow> 'a \<times> 'b \<Rightarrow> string" where
  "put_pair f g p = f (fst p) @ g (snd p)"

definition get_pair ::
  "(string \<Rightarrow> 'a \<times> string) \<Rightarrow> (string \<Rightarrow> 'b \<times> string) \<Rightarrow> string \<Rightarrow> ('a \<times> 'b) \<times> string" where
  "get_pair f g s = (let (a, t) = f s; (b, u) = g t in ((a, b), u))"

definition ref_oarchive :: "log \<Rightarrow> string" where
  "ref_oarchive =
     put_list (put_pair put_int (put_list (put_pair put_int (put_pair put_str put_str))))"

definition ref_iarchive :: "string \<Rightarrow> bool \<times> log" where
  "ref_iarchive s =
     (let l = fst (get_list (get_pair get_int (get_list (get_pair get_int (get_pair get_str get_str)))) s)
      in (ref_oarchive l = s, l))"

definition ref_env :: env where
  "ref_env = \<lparr>split_any = ref_split, lex_int = ref_lex_int, lex_str = decimal,
     posix_name = (\<lambda>s. s \<noteq> [] \<and> list_all (\<lambda>c. c \<in> set posix_chars) s),
     uniform = (\<lambda>n k. int k mod n + 1),
     oarchive = ref_oarchive, iarchive = ref_iarchive, fd_sink = ref_sink,
     os_open = (\<lambda>d p. d p \<noteq> Some Dir), os_read = (\<lambda>d p. d p \<noteq> None),
     os_rename = (\<lambda>d p q. d p \<noteq> None \<and> d q \<noteq> Some Dir),
     os_remove = (\<lambda>d p. d p \<noteq> None \<and> d p \<noteq> Some Dir),
     acceptor = (\<lambda>ip p. 0 < p)\<rparr>"

lemma ref_env_sel [simp]:
  "split_any ref_env = ref_split" "lex_int ref_env = ref_lex_int" "lex_str ref_env = decimal"
  "posix_name ref_env s \<longleftrightarrow> s \<noteq> [] \<and> list_all (\<lambda>c. c \<in> set posix_chars) s"
  "uniform ref_env n k = int k mod n + 1"
  "oarchive ref_env = ref_oarchive" "iarchive ref_env = ref_iarchive"
  "fd_sink ref_env = ref_sink" "os_open ref_env d p \<longleftrightarrow> d p \<noteq> Some Dir"
  "os_read ref_env d p \<longleftrightarrow> d p \<noteq> None" "os_rename ref_env d p q \<longleftrightarrow> d p \<noteq> None \<and> d q \<noteq> Some Dir"
  "os_remove ref_env d p \<longleftrightarrow> d p \<noteq> None \<and> d p \<noteq> Some Dir" "acceptor ref_env ip i \<longleftrightarrow> 0 < i"
  by (simp_all add: ref_env_def)

lemma ref_split_last: "(\<forall>c \<in> set s. c \<notin> set ds) \<Longrightarrow> ref_split ds s = [s]"
  by (induction s) auto

lemma ref_split_cut:
  "(\<forall>c \<in> set s. c \<notin> set ds) \<Longrightarrow> x \<in> set ds \<Longrightarrow> ref_split ds (s @ x # t) = s # ref_split ds t"
  by (induction s) auto

lemma ref_lex_int_decimal:
  assumes "in_int32 i" shows "ref_lex_int (decimal i) = Some i"
proof -
  have all: "list_all is_digit (nat_digits n)" for n
    by (simp add: list_all_iff nat_digits_digits)
  show ?thesis
  proof (cases "i < 0")
    case True
    then have "decimal i = CHR ''-'' # nat_digits (nat (- i))"
      by (simp add: decimal_def)
    with assms all show ?thesis
      using atoi_val_decimal [of i] by (simp add: ref_lex_int_def)
  next
    case False
    then have "decimal i = nat_digits (nat i)"
      by (simp add: decimal_def)
    with assms all hd_nat_digits [of "nat i"] show ?thesis
      using atoi_val_decimal [of i] by (simp add: ref_lex_int_def)
  qed
qed

interpretation reft: text_lib ref_split ref_lex_int decimal
proof unfold_locales
  show "ref_lex_int s = Some i \<Longrightarrow> in_int32 i" for s i
    by (auto simp: ref_lex_int_def Let_def split: if_splits)
qed (simp_all add: ref_split_last ref_split_cut ref_lex_int_decimal)

interpretation reff: file_lib ref_sink
  by unfold_locales (auto simp: ref_sink_def split: option.splits fentry.splits)

lemma ref_text_ok [simp]: "text_ok ref_env"
  by (simp add: text_ok_def reft.text_lib_axioms)

lemma ref_files_ok [simp]: "files_ok ref_env"
  by (simp add: files_ok_def reff.file_lib_axioms)

lemma ref_names_ok [simp]: "names_ok ref_env"
  by (auto simp: names_ok_def list_all_iff subset_iff)

lemma ref_random_ok [simp]: "random_ok ref_env"
  by (auto simp: random_ok_def) (smt (verit) pos_mod_bound)

lemma get_put_int: "get_int (put_int i @ s) = (i, s)"
proof -
  have "\<forall>c \<in> set (decimal i). c \<noteq> CHR '' ''"
    using decimal_no_delim by blast
  then have "dropWhile (\<lambda>c. c \<noteq> CHR '' '') (decimal i @ CHR '' '' # s) = CHR '' '' # s"
    by (simp add: dropWhile_append2)
  then show ?thesis
    by (simp add: get_int_def put_int_def atoi_val_decimal_append is_digit_def)
qed

lemma get_put_str: "get_str (put_str x @ s) = (x, s)"
  by (simp add: get_str_def put_str_def get_put_int)

lemma get_put_n:
  assumes "\<And>x s. g (f x @ s) = (x, s)"
  shows "get_n g (length xs) (concat (map f xs) @ s) = (xs, s)"
  by (induction xs) (simp_all add: assms)

lemma get_put_list:
  assumes "\<And>x s. g (f x @ s) = (x, s)"
  shows "get_list g (put_list f xs @ s) = (xs, s)"
  by (simp add: get_list_def put_list_def get_put_int get_put_n [OF assms])

lemma get_put_pair:
  assumes "\<And>x s. g (f x @ s) = (x, s)" "\<And>x s. k (h x @ s) = (x, s)"
  shows "get_pair g k (put_pair f h p @ s) = (p, s)"
  by (simp add: get_pair_def put_pair_def assms)

lemma ref_archive_ok [simp]: "archive_ok ref_env"
proof -
  let ?g = "get_list (get_pair get_int (get_list (get_pair get_int (get_pair get_str get_str))))"
  have "?g (ref_oarchive l @ []) = (l, [])" for l
    unfolding ref_oarchive_def
    by (intro get_put_list get_put_pair get_put_int get_put_str)
  then show ?thesis
    by (simp add: archive_ok_def ref_iarchive_def)
qed

end
