(* ===== verification/Server_Tools.thy ===== *)
theory Server_Tools
  imports Library_Env
begin

text \<open>
  \<open>ServerTools\<close>: the header grammar. A header is cut at tabs and blanks; its fields are
  the method, the transaction number, the sequence number and the size of the data. The
  lemmas give the fields of every header the program itself builds.
\<close>

section \<open>Splitting a header\<close>

definition tokens :: "env \<Rightarrow> string \<Rightarrow> string list" where
  "tokens E s = split_any E ws s"

text \<open>The constructor's table of methods.\<close>

definition method_map :: "(string, int) omap" where
  "method_map =
     [(''ABORT'', 1), (''NEW_TXN'', 2), (''COMMIT'', 3), (''READ'', 4), (''WRITE'', 5),
      (''MAKE_TXN'', 6), (''PING'', 7), (''AUTH'', 8), (''KILL'', 9)]"

text \<open>Methods by number; \<open>0\<close> for a name that is not in the table.\<close>

definition parse :: "env \<Rightarrow> string \<Rightarrow> int res" where
  "parse E s =
     bnd (vec_at (tokens E s) 0) (\<lambda>m.
       Ok (case map_of method_map m of None \<Rightarrow> 0 | Some n \<Rightarrow> n))"

definition validHeader :: "env \<Rightarrow> string \<Rightarrow> bool" where
  "validHeader E s \<longleftrightarrow> length (tokens E s) = 4"

definition carries_data :: "int \<Rightarrow> bool" where
  "carries_data m \<longleftrightarrow> m \<in> {2, 4, 5, 6, 7}"

definition needsData :: "env \<Rightarrow> string \<Rightarrow> bool res" where
  "needsData E s = bnd (parse E s) (\<lambda>m. Ok (carries_data m))"

definition getBytes :: "env \<Rightarrow> string \<Rightarrow> int res" where
  "getBytes E s =
     (let strs = tokens E s in if length strs < 4 then Ok (- 100) else atoi (strs ! 3))"

definition getBytesResponse :: "env \<Rightarrow> string \<Rightarrow> int res" where
  "getBytesResponse E s =
     (let strs = tokens E s in if length strs < 5 then Ok (- 100) else atoi (strs ! 4))"

definition getSeq :: "env \<Rightarrow> string \<Rightarrow> int" where
  "getSeq E s =
     (let strs = tokens E s
      in if length strs < 3 then - 100
         else case lex_int E (strs ! 2) of Some n \<Rightarrow> n | None \<Rightarrow> - 100)"

definition getTsn :: "env \<Rightarrow> string \<Rightarrow> int" where
  "getTsn E s =
     (let strs = tokens E s
      in if length strs < 2 then - 100
         else case lex_int E (strs ! 1) of Some n \<Rightarrow> n | None \<Rightarrow> - 100)"

definition getCommand :: "env \<Rightarrow> string \<Rightarrow> string" where
  "getCommand E s = (case tokens E s of [] \<Rightarrow> ''NULL'' | m # _ \<Rightarrow> m)"

text \<open>Both \<open>parse\<close> and \<open>getBytes\<close> run before the method is looked at.\<close>

definition dataAttached :: "env \<Rightarrow> string \<Rightarrow> bool res" where
  "dataAttached E s =
     bnd (parse E s) (\<lambda>m. bnd (getBytes E s) (\<lambda>len. Ok (carries_data m \<and> 0 < len)))"

text \<open>What \<open>checkPath\<close> finds: whether it can be used, and the text it reports.\<close>

definition checkPath :: "disk \<Rightarrow> string \<Rightarrow> bool \<times> string" where
  "checkPath d p =
     (case d p of
        Some (File _) \<Rightarrow> (True, ''file'')
      | Some Dir \<Rightarrow> (True, ''dir'')
      | Some Special \<Rightarrow>
          (False, ''Error: found something, but can't do anything with it; permissions correct?'')
      | None \<Rightarrow> (False, ''Check path, nothing there.''))"

definition iToS :: "env \<Rightarrow> int \<Rightarrow> string" where
  "iToS E i = lex_str E i"

definition randomNum :: "env \<Rightarrow> int \<Rightarrow> nat \<Rightarrow> int \<times> nat" where
  "randomNum E n k = (uniform E n k, Suc k)"

text \<open>
  An answer packet. With fewer than three fields the code assigns to \<open>strs[2]\<close> (and
  \<open>strs[1]\<close>) of the shorter vector, which is out of range.
\<close>

definition genAnswerStr :: "env \<Rightarrow> string \<Rightarrow> string \<Rightarrow> string \<Rightarrow> string \<Rightarrow> string res" where
  "genAnswerStr E mthd header code err =
     (let strs = tokens E header
      in if length strs < 3 then Stop Undefined
         else
           let pre = mthd @ '' '' @ strs ! 1 @ '' '' @ strs ! 2 @ '' '' @ code @ '' ''
           in Ok (if err = '' '' then pre @ ''0'' @ crlf @ crlf @ crlf
                  else pre @ lex_str E (int_of_size (length err)) @ crlf @ crlf @ err @ crlf))"

section \<open>Fields of a header\<close>

definition plain :: "string \<Rightarrow> bool" where
  "plain s \<longleftrightarrow> (\<forall>c \<in> set s. c \<notin> {tab, CHR '' '', nl, cr})"

lemma plain_Nil [simp]: "plain []"
  by (simp add: plain_def)

lemma tokens_last [simp]: "text_ok E \<Longrightarrow> plain s \<Longrightarrow> tokens E s = [s]"
  unfolding tokens_def text_ok_def by (rule text_lib.spl_last) (auto simp: plain_def)

lemma tokens_blank [simp]:
  "text_ok E \<Longrightarrow> plain s \<Longrightarrow> tokens E (s @ CHR '' '' # t) = s # tokens E t"
  unfolding tokens_def text_ok_def by (rule text_lib.spl_cut) (auto simp: plain_def)

lemma tokens_tab [simp]:
  "text_ok E \<Longrightarrow> plain s \<Longrightarrow> tokens E (s @ tab # t) = s # tokens E t"
  unfolding tokens_def text_ok_def by (rule text_lib.spl_cut) (auto simp: plain_def)

lemma tokens_Nil [simp]: "text_ok E \<Longrightarrow> tokens E [] = [[]]"
  using tokens_last [of E "[]"] by simp

lemma tokens_nonempty: "text_ok E \<Longrightarrow> tokens E s \<noteq> []"
  by (simp add: tokens_def text_ok_def text_lib.spl_nonempty)

lemma tokens_no_ws:
  "text_ok E \<Longrightarrow> p \<in> set (tokens E s) \<Longrightarrow> tab \<notin> set p \<and> CHR '' '' \<notin> set p"
  using text_lib.spl_pieces [of "split_any E" "lex_int E" "lex_str E" p ws s]
  by (auto simp: tokens_def text_ok_def)

lemma lex_str_plain [simp]: "text_ok E \<Longrightarrow> in_int32 i \<Longrightarrow> plain (lex_str E i)"
  unfolding plain_def text_ok_def by (blast dest: text_lib.lstr_no_delim)

lemma lex_int_str [simp]: "text_ok E \<Longrightarrow> in_int32 i \<Longrightarrow> lex_int E (lex_str E i) = Some i"
  by (simp add: text_ok_def text_lib.lint_lstr)

lemma atoi_lex_str [simp]: "text_ok E \<Longrightarrow> in_int32 i \<Longrightarrow> atoi (lex_str E i) = Ok i"
  by (simp add: text_ok_def text_lib.atoi_lstr)

lemma lex_int_in32: "text_ok E \<Longrightarrow> lex_int E s = Some i \<Longrightarrow> in_int32 i"
  by (simp add: text_ok_def text_lib.lint_range)

lemma in_int32_small [simp]: "in_int32 0" "in_int32 (- 1)" "in_int32 (- 100)"
  by (simp_all add: in_int32_def)

lemma getTsn_in32: "text_ok E \<Longrightarrow> in_int32 (getTsn E h)"
  by (auto simp: getTsn_def Let_def split: option.splits intro: lex_int_in32)

lemma getSeq_in32: "text_ok E \<Longrightarrow> in_int32 (getSeq E h)"
  by (auto simp: getSeq_def Let_def split: option.splits intro: lex_int_in32)

lemma parse_total: "text_ok E \<Longrightarrow> \<exists>m. parse E s = Ok m"
  using tokens_nonempty [of E s] by (cases "tokens E s") (auto simp: parse_def)

lemma validHeader_tokens:
  "validHeader E h \<Longrightarrow> \<exists>a b c d. tokens E h = [a, b, c, d]"
  by (auto simp: validHeader_def length_Suc_conv eval_nat_numeral)

text \<open>An answer is built for every header of at least three fields, and only for those.\<close>

lemma genAnswerStr_defined:
  "(\<exists>s. genAnswerStr E mt h c e = Ok s) \<longleftrightarrow> 3 \<le> length (tokens E h)"
  by (auto simp: genAnswerStr_def Let_def)

lemma genAnswerStr_valid: "validHeader E h \<Longrightarrow> \<exists>s. genAnswerStr E mt h c e = Ok s"
  by (simp add: genAnswerStr_defined validHeader_def)

end
