(* ===== verification/Client_Side.thy ===== *)
theory Client_Side
  imports Server_Tools
begin

text \<open>
  \<open>Client\<close>: the packets one server sends to the other, and the exchange of a request for a
  reply. The network is a parameter: a record of the four socket operations over a world
  of any type.
\<close>

section \<open>The network\<close>

text \<open>
  \<^item> \<open>net_connect ip port w\<close>: resolve and connect the client's socket; \<open>None\<close> when an
    exception is thrown, otherwise whether the connection stands;
  \<^item> \<open>net_write s w\<close>: write all of \<open>s\<close>; false when that throws;
  \<^item> \<open>net_read_until d b w\<close>: read until the buffer, now \<open>b\<close>, holds \<open>d\<close>: the buffer after
    it (which may hold more), \<open>None\<close> when that throws;
  \<^item> \<open>net_close w\<close>: close the socket.
\<close>

record 'w net =
  net_connect :: "string \<Rightarrow> string \<Rightarrow> 'w \<Rightarrow> bool option \<times> 'w"
  net_write :: "string \<Rightarrow> 'w \<Rightarrow> bool \<times> 'w"
  net_read_until :: "string \<Rightarrow> string \<Rightarrow> 'w \<Rightarrow> string option \<times> 'w"
  net_close :: "'w \<Rightarrow> 'w"

record client =
  c_ip :: string
  c_port :: string
  c_connect :: bool
  c_verbose :: bool

definition Client_init :: "string \<Rightarrow> string \<Rightarrow> client" where
  "Client_init ip port = \<lparr>c_ip = ip, c_port = port, c_connect = False, c_verbose = True\<rparr>"

definition changeConnection :: "string \<Rightarrow> string \<Rightarrow> client \<Rightarrow> client" where
  "changeConnection ip_new port_new c = c\<lparr>c_ip := ip_new, c_port := port_new\<rparr>"

definition connected :: "client \<Rightarrow> bool" where
  "connected c \<longleftrightarrow> c_connect c"

section \<open>Packets\<close>

definition genRequest4 :: "env \<Rightarrow> string \<Rightarrow> string \<Rightarrow> string \<Rightarrow> string \<Rightarrow> string" where
  "genRequest4 E mthd txn seq dat =
     mthd @ '' '' @ txn @ '' '' @ seq @ '' '' @
     (if dat = '' '' then ''0'' @ crlf @ crlf @ crlf
      else lex_str E (int_of_size (length dat) + 1) @ crlf @ crlf @ dat @ [nl])"

definition genRequest2 :: "env \<Rightarrow> string \<Rightarrow> string \<Rightarrow> string" where
  "genRequest2 E mthd dat = genRequest4 E mthd ''-1'' ''0'' dat"

definition genRequest1 :: "env \<Rightarrow> string \<Rightarrow> string" where
  "genRequest1 E mthd = genRequest4 E mthd ''-1'' ''0'' '' ''"

text \<open>
  The echo of a received packet. Data of fewer than two characters is left out; a header of
  fewer than three fields makes the code assign out of range.
\<close>

definition genEcho :: "env \<Rightarrow> string \<Rightarrow> string \<Rightarrow> string res" where
  "genEcho E header dat =
     (let strs = tokens E header
      in if length strs < 3 then Stop Undefined
         else Ok (strs ! 0 @ '' '' @ strs ! 1 @ '' '' @ strs ! 2 @ '' '' @
           (if length dat < 2 then ''0'' @ crlf @ crlf @ crlf
            else lex_str E (int_of_size (length dat) + 1) @ crlf @ crlf @ dat @ [nl])))"

section \<open>Communication\<close>

definition sendPacket :: "'w net \<Rightarrow> string \<Rightarrow> 'w \<Rightarrow> bool \<times> 'w" where
  "sendPacket N toSend w = net_write N toSend w"

text \<open>
  \<open>connectSocket\<close>: once connected the client authenticates; an exception on the way, that of
  the write included, is caught and the connection counts as failed.
\<close>

definition connectSocket :: "env \<Rightarrow> 'w net \<Rightarrow> client \<Rightarrow> 'w \<Rightarrow> bool \<times> client \<times> 'w" where
  "connectSocket E N c w =
     (case net_connect N (c_ip c) (c_port c) w of
        (None, w1) \<Rightarrow> (False, c\<lparr>c_connect := False\<rparr>, w1)
      | (Some False, w1) \<Rightarrow> (False, c\<lparr>c_verbose := True, c_connect := False\<rparr>, w1)
      | (Some True, w1) \<Rightarrow>
          let c1 = c\<lparr>c_verbose := False, c_connect := True\<rparr>;
              (sent, w2) = sendPacket N (genRequest1 E ''AUTH'') w1
          in if sent then (True, c1, w2) else (False, c1\<lparr>c_connect := False\<rparr>, w2))"

text \<open>
  \<open>sendReceive\<close>: the header and the data line of the reply behind three tabs; \<open>None\<close> in
  place of the reply when a socket operation throws.
\<close>

definition sendReceive :: "env \<Rightarrow> 'w net \<Rightarrow> string \<Rightarrow> 'w \<Rightarrow> (string option \<times> 'w) res" where
  "sendReceive E N toSend w =
     (let (sent, w1) = net_write N toSend w
      in if \<not> sent then Ok (None, w1)
         else case net_read_until N (crlf @ crlf) [] w1 of
           (None, w2) \<Rightarrow> Ok (None, w2)
         | (Some buf, w2) \<Rightarrow>
             let (g1, header, st1) = getline (buf, False) [];
                 (g2, blank, st2) = getline st1 []
             in bnd (getBytesResponse E header) (\<lambda>n.
                  if 0 < n then
                    case net_read_until N crlf (fst st2) w2 of
                      (None, w3) \<Rightarrow> Ok (None, w3)
                    | (Some buf2, w3) \<Rightarrow>
                        let (g3, dat, st3) = getline (buf2, snd st2) blank
                        in Ok (Some (header @ [tab, tab, tab] @ dat), w3)
                  else
                    let (g3, dat, st3) = getline st2 blank
                    in Ok (Some (header @ [tab, tab, tab] @ dat), w2)))"

end
