(* ===== verification/Log_Handler.thy ===== *)
theory Log_Handler
  imports Server_Tools
begin

text \<open>
  \<open>LogHandler\<close>: the transaction log and the operations on it. A transaction is an entry
  of \<open>log_trans\<close> under its number: \<open>-1\<close> holds (status, pending or committed sequence
  number), \<open>0\<close> holds (kind, file name) and \<open>1, 2, ...\<close> hold the writes as
  (header, data). Key \<open>0\<close> of \<open>log_trans\<close> holds the server's own data, key \<open>-1\<close> the
  registered backup.
\<close>

section \<open>State\<close>

record lstate =
  log_trans :: log
  files :: disk
  rng :: nat

definition fileName :: string where
  "fileName = ''.server.log''"

definition fileNameRecover :: string where
  "fileNameRecover = ''server.old''"

section \<open>Log methods\<close>

text \<open>\<open>log_trans.find(tsn)->second.find(seq)->second\<close>.\<close>

definition entry :: "log \<Rightarrow> int \<Rightarrow> int \<Rightarrow> log_pair res" where
  "entry l tsn seq = bnd (deref (om_find l tsn)) (\<lambda>t. deref (om_find t seq))"

definition set_entry :: "log \<Rightarrow> int \<Rightarrow> int \<Rightarrow> (log_pair \<Rightarrow> log_pair) \<Rightarrow> log res" where
  "set_entry l tsn seq f =
     bnd (deref (om_find l tsn)) (\<lambda>t.
     bnd (deref (om_find t seq)) (\<lambda>p. Ok (om_put tsn (om_put seq (f p) t) l)))"

definition getFileName :: "log \<Rightarrow> int \<Rightarrow> string res" where
  "getFileName l tsn = bnd (entry l tsn 0) (\<lambda>p. Ok (snd p))"

definition getData :: "log \<Rightarrow> int \<Rightarrow> int \<Rightarrow> string res" where
  "getData l tsn seq = bnd (entry l tsn seq) (\<lambda>p. Ok (snd p))"

definition getHeader :: "log \<Rightarrow> int \<Rightarrow> int \<Rightarrow> string res" where
  "getHeader l tsn seq = bnd (entry l tsn seq) (\<lambda>p. Ok (fst p))"

definition getStatus :: "log \<Rightarrow> int \<Rightarrow> string res" where
  "getStatus l tsn = bnd (entry l tsn (- 1)) (\<lambda>p. Ok (fst p))"

definition getPortThis :: "log \<Rightarrow> string res" where
  "getPortThis l = bnd (entry l 0 0) (\<lambda>p. Ok (snd p))"

definition getIpThis :: "log \<Rightarrow> string res" where
  "getIpThis l = bnd (entry l 0 0) (\<lambda>p. Ok (fst p))"

text \<open>\<open>getStatus()\<close> without a transaction: the server's role.\<close>

definition getRole :: "log \<Rightarrow> string res" where
  "getRole l = bnd (entry l 0 (- 1)) (\<lambda>p. Ok (fst p))"

definition getNetDir :: "log \<Rightarrow> string res" where
  "getNetDir l = bnd (entry l 0 (- 1)) (\<lambda>p. Ok (snd p))"

definition getStatusZ :: "log \<Rightarrow> int \<Rightarrow> string res" where
  "getStatusZ l tsn = bnd (entry l tsn 0) (\<lambda>p. Ok (fst p))"

definition getStatusData :: "log \<Rightarrow> int \<Rightarrow> int res" where
  "getStatusData l tsn = bnd (entry l tsn (- 1)) (\<lambda>p. atoi (snd p))"

definition changeStatus :: "log \<Rightarrow> int \<Rightarrow> string \<Rightarrow> log res" where
  "changeStatus l tsn st = set_entry l tsn (- 1) (\<lambda>p. (st, snd p))"

definition changeStatusZ :: "log \<Rightarrow> int \<Rightarrow> string \<Rightarrow> log res" where
  "changeStatusZ l tsn st = set_entry l tsn 0 (\<lambda>p. (st, snd p))"

definition changeStatusData :: "log \<Rightarrow> int \<Rightarrow> string \<Rightarrow> log res" where
  "changeStatusData l tsn d = set_entry l tsn (- 1) (\<lambda>p. (fst p, d))"

text \<open>Erasing \<open>end()\<close> is undefined.\<close>

definition deleteBackup :: "log \<Rightarrow> log res" where
  "deleteBackup l = bnd (deref (om_find l (- 1))) (\<lambda>_. Ok (om_erase (- 1) l))"

definition backupRegistered :: "log \<Rightarrow> bool" where
  "backupRegistered l \<longleftrightarrow> om_find l (- 1) \<noteq> None"

definition getIpBackup :: "log \<Rightarrow> string res" where
  "getIpBackup l = bnd (entry l (- 1) 0) (\<lambda>p. Ok (fst p))"

definition getPortBackup :: "log \<Rightarrow> string res" where
  "getPortBackup l = bnd (entry l (- 1) 0) (\<lambda>p. Ok (snd p))"

section \<open>Saving and loading\<close>

definition save :: "env \<Rightarrow> lstate \<Rightarrow> lstate res" where
  "save E s =
     (case fd_sink E False fileName (oarchive E (log_trans s)) (files s) of
        Some d \<Rightarrow> Ok (s\<lparr>files := d\<rparr>)
      | None \<Rightarrow> Stop Thrown)"

text \<open>
  The constructor. A regular file is loaded, and renamed when the archive is corrupt; with
  nothing there, or with something that is neither file nor directory, a log is written.
\<close>

definition LogHandler_init :: "env \<Rightarrow> disk \<Rightarrow> nat \<Rightarrow> lstate res" where
  "LogHandler_init E d k =
     (let s = \<lparr>log_trans = [], files = d, rng = k\<rparr>; (found, result) = checkPath d fileName
      in if found then
           if result = ''file'' then
             let (good, l) = iarchive E (if os_read E d fileName then file_text d fileName else [])
             in if good then Ok (s\<lparr>log_trans := l\<rparr>)
                else if os_rename E d fileName fileNameRecover
                  then Ok (s\<lparr>log_trans := l,
                         files := d(fileName := None, fileNameRecover := d fileName)\<rparr>)
                else Stop (Exited (- 1))
           else Ok s
         else save E s)"

section \<open>Timeouts\<close>

text \<open>The condition both loops over \<open>log_trans\<close> put on an entry: not the backup's, and with a status.\<close>

definition is_txn :: "log \<Rightarrow> int \<Rightarrow> bool" where
  "is_txn l k \<longleftrightarrow> 0 \<le> k \<and> (case om_find l k of Some t \<Rightarrow> om_find t (- 1) \<noteq> None | None \<Rightarrow> False)"

lemma is_txn_iff [simp]: "is_txn l k \<longleftrightarrow> 0 \<le> k \<and> (\<exists>t. om_find l k = Some t \<and> om_find t (- 1) \<noteq> None)"
  by (auto simp: is_txn_def split: option.splits)


text \<open>
  One round of the loop of \<open>timeouts\<close> at the entry with key \<open>at\<close>. After
  \<open>log_trans.erase(it_tsn)\<close> the loop increments the erased iterator: undefined.
\<close>

definition timeout_one :: "log \<Rightarrow> int \<Rightarrow> log res" where
  "timeout_one l at =
     (if is_txn l at then
        bnd (getStatus l at) (\<lambda>status.
          if status = ''ACTIVE'' then changeStatus l at ''FLAG''
          else if status = ''FLAG'' then changeStatus l at ''EXPIRED''
          else if status = ''EXPIRED'' then Stop Undefined
          else if status = ''COMMITTED'' then Ok l
          else if status = ''WAITING'' then
            bnd (getStatusZ l at) (\<lambda>z.
              if z = ''FLAG'' then changeStatusZ l at ''EXPIRED''
              else if z = ''EXPIRED'' then Stop Undefined
              else changeStatusZ l at ''FLAG'')
          else if status = ''WRITING'' \<or> status = ''backup'' \<or> status = ''primary'' then Ok l
          else changeStatus l at ''FLAG'')
      else Ok l)"

fun timeouts_loop :: "int list \<Rightarrow> log \<Rightarrow> log res" where
  "timeouts_loop [] l = Ok l"
| "timeouts_loop (k # ks) l = bnd (timeout_one l k) (timeouts_loop ks)"

definition timeouts :: "env \<Rightarrow> lstate \<Rightarrow> lstate res" where
  "timeouts E s =
     bnd (timeouts_loop (om_keys (log_trans s)) (log_trans s)) (\<lambda>l.
       save E (s\<lparr>log_trans := l\<rparr>))"

section \<open>Committed transactions as messages\<close>

fun getCommits_loop :: "env \<Rightarrow> log \<Rightarrow> int list \<Rightarrow> string list \<Rightarrow> string list res" where
  "getCommits_loop E l [] holder = Ok holder"
| "getCommits_loop E l (k # ks) holder =
     (if is_txn l k then
        bnd (getStatus l k) (\<lambda>status.
          if status = ''COMMITTED'' then
            bnd (getStatusData l k) (\<lambda>n.
              getCommits_loop E l ks
                (holder @ [''COMMIT '' @ iToS E k @ '' '' @ iToS E n @ '' 0'']))
          else getCommits_loop E l ks holder)
      else getCommits_loop E l ks holder)"

definition getCommits :: "env \<Rightarrow> log \<Rightarrow> string list res" where
  "getCommits E l = getCommits_loop E l (om_keys l) []"

section \<open>Can a transaction be committed?\<close>

text \<open>The loop over the entries: \<open>current\<close> and the missing numbers so far.\<close>

fun canCommit_loop :: "int \<Rightarrow> int list \<Rightarrow> int list \<Rightarrow> int \<times> int list" where
  "canCommit_loop cur fetch [] = (cur, fetch)"
| "canCommit_loop cur fetch (k # ks) =
     canCommit_loop k (if cur \<noteq> k - 1 then fetch @ [cur + 1..k - 1] else fetch) ks"

definition canCommit :: "log \<Rightarrow> int \<Rightarrow> int \<Rightarrow> int list \<Rightarrow> (bool \<times> int list) res" where
  "canCommit l tsn commit_seq fetch =
     bnd (deref (om_find l tsn)) (\<lambda>t.
       let (cur, fetch1) = canCommit_loop (- 1) fetch (om_keys t);
           fetch2 = (if cur < commit_seq then fetch1 @ [cur + 1..commit_seq] else fetch1)
       in Ok (fetch2 = [] \<and> commit_seq \<noteq> 0, fetch2))"

section \<open>Writing to and reading from disk\<close>

fun collect_data :: "log \<Rightarrow> int \<Rightarrow> int list \<Rightarrow> string res" where
  "collect_data l tsn [] = Ok []"
| "collect_data l tsn (q # qs) =
     bnd (getData l tsn q) (\<lambda>x. bnd (collect_data l tsn qs) (\<lambda>y. Ok (x @ [nl] @ y)))"

text \<open>
  \<open>for (seq = 1; seq != getStatusData(tsn)+1; seq++)\<close>: the numbers it visits. A negative
  bound is passed by and the loop runs into an entry that is not there; the largest \<open>int\<close>
  overflows.
\<close>

definition seq_range :: "int \<Rightarrow> int list res" where
  "seq_range n = (if 0 \<le> n \<and> n < 2147483647 then Ok [1..n] else Stop Undefined)"

text \<open>A path that is no regular file is first opened, and so created, by an \<open>ofstream\<close>.\<close>

definition created :: "env \<Rightarrow> disk \<Rightarrow> string \<Rightarrow> disk" where
  "created E d p =
     (case d p of
        Some (File _) \<Rightarrow> d
      | _ \<Rightarrow> if os_open E d p then d(p \<mapsto> File []) else d)"

definition writeFile :: "env \<Rightarrow> int \<Rightarrow> lstate \<Rightarrow> (bool \<times> lstate) res" where
  "writeFile E tsn s =
     bnd (getFileName (log_trans s) tsn) (\<lambda>p.
       let d1 = created E (files s) p
       in bnd (getStatusData (log_trans s) tsn) (\<lambda>n.
          bnd (seq_range n) (\<lambda>qs.
          bnd (collect_data (log_trans s) tsn qs) (\<lambda>text.
            case fd_sink E True p text d1 of
              Some d2 \<Rightarrow> Ok (True, s\<lparr>files := d2\<rparr>)
            | None \<Rightarrow> Ok (False, s\<lparr>files := d1\<rparr>)))))"

text \<open>
  \<open>readFile\<close>: every line the stream gives, each with a newline behind it. \<open>getline\<close> fails
  at the end of the file, and at once on an empty one.
\<close>

function read_lines :: "istream \<Rightarrow> string list" where
  "read_lines st =
     (case getline st [] of
        (good, line, st') \<Rightarrow> if good then line # (if snd st' then [] else read_lines st') else [])"
  by pat_completeness auto
termination
  by (relation "measure (\<lambda>st. length (fst st))") (auto intro: getline_shorter [OF sym])

declare read_lines.simps [simp del]

definition readFile :: "env \<Rightarrow> string \<Rightarrow> lstate \<Rightarrow> bool \<times> string" where
  "readFile E p s =
     (if os_read E (files s) p then
        let ls = read_lines (file_text (files s) p, False)
        in (ls \<noteq> [], concat (map (\<lambda>x. x @ [nl]) ls))
      else (False, []))"

section \<open>Commit\<close>

text \<open>An operation that is refused: an answer in \<open>code\<close>, false, and nothing changed.\<close>

definition refuse ::
  "env \<Rightarrow> string \<Rightarrow> string \<Rightarrow> string \<Rightarrow> string \<Rightarrow> lstate \<Rightarrow> (bool \<times> string \<times> lstate) res" where
  "refuse E header mt c e s = bnd (genAnswerStr E mt header c e) (\<lambda>code. Ok (False, code, s))"

text \<open>
  All data is there: the log goes to disk as \<open>WRITING\<close> first. The primary leaves the rest
  to the session, which waits for the backup; a backup writes the file at once.
\<close>

definition commit_ready ::
  "env \<Rightarrow> string \<Rightarrow> int \<Rightarrow> int \<Rightarrow> lstate \<Rightarrow> (bool \<times> string \<times> lstate) res" where
  "commit_ready E header tsn seq s =
     bnd (changeStatus (log_trans s) tsn ''WRITING'') (\<lambda>l1.
     bnd (changeStatusData l1 tsn (lex_str E seq)) (\<lambda>l2.
     bnd (save E (s\<lparr>log_trans := l2\<rparr>)) (\<lambda>s2.
     bnd (getRole (log_trans s2)) (\<lambda>role.
       if role = ''primary'' then Ok (False, ''committed'', s2)
       else bnd (writeFile E tsn s2) (\<lambda>(written, s3).
         if written then
           bnd (changeStatus (log_trans s3) tsn ''COMMITTED'') (\<lambda>l3.
           bnd (save E (s3\<lparr>log_trans := l3\<rparr>)) (\<lambda>s4. Ok (False, ''committed'', s4)))
         else
           bnd (genAnswerStr E ''ERROR'' header ''205'' ''commit fail, i/o error'') (\<lambda>code.
           bnd (changeStatus (log_trans s3) tsn ''WAITING'') (\<lambda>l3.
           bnd (save E (s3\<lparr>log_trans := l3\<rparr>)) (\<lambda>s4. Ok (False, code, s4)))))))))"

text \<open>Data is missing: the transaction waits for it.\<close>

definition commit_wait :: "env \<Rightarrow> int \<Rightarrow> int \<Rightarrow> lstate \<Rightarrow> (bool \<times> string \<times> lstate) res" where
  "commit_wait E tsn seq s =
     bnd (changeStatus (log_trans s) tsn ''WAITING'') (\<lambda>l1.
     bnd (changeStatusData l1 tsn (lex_str E seq)) (\<lambda>l2.
     bnd (save E (s\<lparr>log_trans := l2\<rparr>)) (\<lambda>s2. Ok (False, ''incomplete'', s2))))"

text \<open>
  \<open>commit(header, code)\<close>: the value it returns, \<open>code\<close>, and the state. It never returns
  true; \<open>code\<close> tells the session what to do. \<open>getStatusData\<close> is read only where the
  status is one that the code's conditions look at it for.
\<close>

definition commit :: "env \<Rightarrow> string \<Rightarrow> lstate \<Rightarrow> (bool \<times> string \<times> lstate) res" where
  "commit E header s =
     (let tsn = getTsn E header; seq = getSeq E header; l = log_trans s
      in if om_find l tsn = None
           then refuse E header ''ERROR'' ''201'' ''Transaction ID not found'' s
         else bnd (getStatus l tsn) (\<lambda>status.
         bnd (if status = ''COMMITTED'' \<or> status = ''WAITING'' then getStatusData l tsn else Ok 0) (\<lambda>n.
         if status = ''COMMITTED'' \<and> n = seq
           then refuse E header ''ACK'' ''0'' ''Already committed'' s
         else if status = ''EXPIRED''
           then refuse E header ''ERROR'' ''220'' ''Transaction expired, please start a new one.'' s
         else if (status = ''WAITING'' \<or> status = ''COMMITTED'') \<and> n \<noteq> seq
           then refuse E header ''ERROR'' ''202''
             ''Transaction was previously committed with a different sequence number'' s
         else if seq < 1
           then refuse E header ''WARNING'' ''404'' ''Nothing to commit, request ignored'' s
         else bnd (canCommit l tsn seq []) (\<lambda>(can, toSend).
           if can then commit_ready E header tsn seq s else commit_wait E tsn seq s))))"

section \<open>Write\<close>

text \<open>The header \<open>addLogEntry\<close> makes up to commit a transaction that waited.\<close>

definition fake_header :: "env \<Rightarrow> int \<Rightarrow> int \<Rightarrow> string" where
  "fake_header E tsn n = ''empty'' @ [tab] @ iToS E tsn @ [tab] @ iToS E n @ [tab] @ ''0'' @ [tab]"

text \<open>Storing the write, and what follows from the status.\<close>

definition store_entry ::
  "env \<Rightarrow> string \<Rightarrow> string \<Rightarrow> string \<Rightarrow> int \<Rightarrow> txn \<Rightarrow> lstate \<Rightarrow> (bool \<times> string \<times> lstate) res" where
  "store_entry E header dat status n t s =
     (let tsn = getTsn E header;
          l1 = om_put tsn (om_insert (getSeq E header) (header, dat) t) (log_trans s);
          s1 = s\<lparr>log_trans := l1\<rparr>
      in if status = ''WAITING'' then
           bnd (canCommit l1 tsn n []) (\<lambda>(can, toSend).
             if can then commit E (fake_header E tsn n) s1 else Ok (True, [], s1))
         else bnd (changeStatus l1 tsn ''ACTIVE'') (\<lambda>l2. Ok (True, [], s1\<lparr>log_trans := l2\<rparr>)))"

definition addLogEntry :: "env \<Rightarrow> string \<Rightarrow> string \<Rightarrow> lstate \<Rightarrow> (bool \<times> string \<times> lstate) res" where
  "addLogEntry E header dat s =
     (let tsn = getTsn E header; seq = getSeq E header; l = log_trans s
      in if seq < 1
           then refuse E header ''ERROR'' ''204'' ''Sequence number invalid: must be 1 or larger'' s
         else case om_find l tsn of
           None \<Rightarrow> refuse E header ''ERROR'' ''201'' ''Transaction ID not found'' s
         | Some t \<Rightarrow>
           bnd (getStatus l tsn) (\<lambda>status.
           if status = ''COMMITTED''
             then refuse E header ''ERROR'' ''202'' ''Transaction was previously committed'' s
           else if status = ''EXPIRED''
             then refuse E header ''ERROR'' ''220'' ''Transaction expired, please start a new one.'' s
           else if om_find t seq \<noteq> None
             then refuse E header ''WARNING'' ''301''
               ''SeqNum for current tsnID already received, ignored'' s
           else
             bnd (if status = ''WAITING'' then getStatusData l tsn else Ok 0) (\<lambda>n.
             if status = ''WAITING'' \<and> n < seq
               then refuse E header ''ERROR'' ''202''
                 ''Sequence number for write is higher than pending commit. Ignored.'' s
             else store_entry E header dat status n t s)))"

section \<open>New transactions\<close>

text \<open>
  \<open>rn = randomNum(100000); while (rn is taken) rn = randomNum(100000);\<close> \<open>None\<close>: the loop
  never ends.
\<close>

partial_function (option) draw_tsn :: "env \<Rightarrow> log \<Rightarrow> nat \<Rightarrow> (int \<times> nat) option" where
  "draw_tsn E l k =
     (let (rn, k') = randomNum E 100000 k
      in if om_find l rn \<noteq> None then draw_tsn E l k' else Some (rn, k'))"

declare draw_tsn.simps [code]

text \<open>\<open>log_trans[tsn].insert(...)\<close> twice: the two entries of a fresh transaction.\<close>

definition open_txn :: "int \<Rightarrow> string \<Rightarrow> log \<Rightarrow> log" where
  "open_txn tsn dat l =
     (let t = (case om_find l tsn of Some t \<Rightarrow> t | None \<Rightarrow> [])
      in om_put tsn (om_insert 0 (''NEW_TXN'', dat) (om_insert (- 1) (''ACTIVE'', ''0'') t)) l)"

definition newTxn :: "env \<Rightarrow> string \<Rightarrow> lstate \<Rightarrow> (int \<times> lstate) res" where
  "newTxn E dat s =
     (if \<not> posix_name E dat then Ok (0, s)
      else case draw_tsn E (log_trans s) (rng s) of
        None \<Rightarrow> Stop Diverged
      | Some (rn, k) \<Rightarrow>
          bnd (save E (s\<lparr>log_trans := open_txn rn dat (log_trans s), rng := k\<rparr>)) (\<lambda>s1. Ok (rn, s1)))"

definition makeTxn :: "env \<Rightarrow> string \<Rightarrow> int \<Rightarrow> lstate \<Rightarrow> (bool \<times> lstate) res" where
  "makeTxn E dat tsn s =
     (if om_find (log_trans s) tsn = None then
        bnd (save E (s\<lparr>log_trans := open_txn tsn dat (log_trans s)\<rparr>)) (\<lambda>s1. Ok (True, s1))
      else Ok (False, s))"

section \<open>Server data\<close>

definition serverData :: "string \<Rightarrow> string \<Rightarrow> string \<Rightarrow> string \<Rightarrow> log \<Rightarrow> log" where
  "serverData ip port primary net_dir l =
     (let l0 = (if om_find l 0 \<noteq> None then om_erase 0 l else l)
      in om_put 0 (om_insert 0 (ip, port) (om_insert (- 1) (primary, net_dir) [])) l0)"

definition backupServerData :: "env \<Rightarrow> string \<Rightarrow> log \<Rightarrow> log res" where
  "backupServerData E dat l =
     (let strs = split_any E ''|'' dat;
          t = (case om_find l (- 1) of Some t \<Rightarrow> t | None \<Rightarrow> [])
      in bnd (vec_at strs 0) (\<lambda>a. bnd (vec_at strs 1) (\<lambda>b.
         Ok (om_put (- 1) (om_insert 0 (a, b) t) l))))"

section \<open>Abort\<close>

definition abort_txn :: "env \<Rightarrow> string \<Rightarrow> lstate \<Rightarrow> (bool \<times> string \<times> lstate) res" where
  "abort_txn E header s =
     (let tsn = getTsn E header; l = log_trans s
      in if om_find l tsn = None
           then refuse E header ''ERROR'' ''201'' ''Transaction ID not found'' s
         else bnd (getStatus l tsn) (\<lambda>status.
           if status = ''COMMITTED''
             then refuse E header ''ERROR'' ''202'' ''Transaction was previously committed'' s
           else if status = ''EXPIRED''
             then refuse E header ''ERROR'' ''220'' ''Transaction expired.'' s
           else Ok (True, [], s\<lparr>log_trans := om_erase tsn l\<rparr>)))"

section \<open>The listing\<close>

text \<open>What \<open>printsentries\<close> writes to the standard output.\<close>

definition print_entry :: "int \<times> log_pair \<Rightarrow> string" where
  "print_entry e = (case e of (q, h, d) \<Rightarrow>
     ''   * '' @ [tab] @ ''Seq'' @ [tab] @ '': '' @ decimal q @ '' Header: '' @ h @ [nl, tab] @ ''Data: '' @ d @ [nl])"

definition print_txn :: "int \<times> txn \<Rightarrow> string" where
  "print_txn e = (case e of (k, t) \<Rightarrow>
     '' ** Tsn'' @ [tab] @ '': '' @ decimal k @ [nl] @ concat (map print_entry t))"

definition printsentries :: "log \<Rightarrow> string" where
  "printsentries l = [nl] @ ''######## Printing Log Data ############'' @ [nl] @ concat (map print_txn l)
     @ ''#######################################'' @ [nl]"

end
