(* ===== verification/Replication.thy ===== *)
theory Replication
  imports Client_Side Log_Handler
begin

text \<open>
  \<open>ReplicationManager\<close>: the queue of packets for the backup, the commit that waits for the
  backup, the integrity check, and the change of roles. \<open>commit\<close>, \<open>primaryOps\<close> and
  \<open>integrityCheck\<close> call each other without a bound that the code could name, so they take
  fuel; \<open>Diverged\<close> is the result of running out of it.
\<close>

section \<open>State\<close>

record rmstate =
  prim_ip :: string
  prim_port :: string
  alive :: bool
  triedConnect :: bool
  cl :: client
  syncQueue :: "(string \<times> string) list"
  tries :: int
  show_warning :: bool
  backup_did_sync :: bool
  restarted :: bool

text \<open>A server: its log handler, its replication manager, and the network it sees.\<close>

record 'w node =
  lh :: lstate
  rm :: rmstate
  wld :: 'w

abbreviation node_log :: "'w node \<Rightarrow> log" where
  "node_log n \<equiv> log_trans (lh n)"

definition upd_rm :: "(rmstate \<Rightarrow> rmstate) \<Rightarrow> 'w node \<Rightarrow> 'w node" where
  "upd_rm f n = n\<lparr>rm := f (rm n)\<rparr>"

definition set_log :: "log \<Rightarrow> 'w node \<Rightarrow> 'w node" where
  "set_log l n = n\<lparr>lh := (lh n)\<lparr>log_trans := l\<rparr>\<rparr>"

definition enqueue :: "string \<Rightarrow> string \<Rightarrow> 'w node \<Rightarrow> 'w node res" where
  "enqueue header dat n =
     bnd (getRole (node_log n)) (\<lambda>role.
       Ok (if role = ''primary''
           then upd_rm (\<lambda>r. r\<lparr>syncQueue := syncQueue r @ [(header, dat)]\<rparr>) n else n))"

definition syncEmpty :: "'w node \<Rightarrow> bool" where
  "syncEmpty n \<longleftrightarrow> syncQueue (rm n) = []"

section \<open>Sockets of the manager's client\<close>

definition connect_node :: "env \<Rightarrow> 'w net \<Rightarrow> 'w node \<Rightarrow> bool \<times> 'w node" where
  "connect_node E N n =
     (let (good, c, w) = connectSocket E N (cl (rm n)) (wld n)
      in (good, (upd_rm (\<lambda>r. r\<lparr>cl := c\<rparr>) n)\<lparr>wld := w\<rparr>))"

definition close_node :: "'w net \<Rightarrow> 'w node \<Rightarrow> 'w node" where
  "close_node N n = n\<lparr>wld := net_close N (wld n)\<rparr>"

definition redirect :: "string \<Rightarrow> string \<Rightarrow> 'w node \<Rightarrow> 'w node" where
  "redirect ip port n = upd_rm (\<lambda>r. r\<lparr>cl := changeConnection ip port (cl r)\<rparr>) n"

section \<open>Pushing the queue\<close>

text \<open>
  \<open>while (!syncQueue.empty()) { sendReceive(genEcho(front)); pop(); }\<close>: whether a send
  threw, what is left of the queue, and the network. The reply is not looked at.
\<close>

fun drain :: "env \<Rightarrow> 'w net \<Rightarrow> (string \<times> string) list \<Rightarrow> 'w \<Rightarrow>
    (bool \<times> (string \<times> string) list \<times> 'w) res" where
  "drain E N [] w = Ok (False, [], w)"
| "drain E N ((h, d) # q) w =
     bnd (genEcho E h d) (\<lambda>pkt.
     bnd (sendReceive E N pkt w) (\<lambda>(reply, w1).
       case reply of None \<Rightarrow> Ok (True, (h, d) # q, w1) | Some _ \<Rightarrow> drain E N q w1))"

definition push_queue :: "env \<Rightarrow> 'w net \<Rightarrow> 'w node \<Rightarrow> 'w node res" where
  "push_queue E N n =
     bnd (drain E N (syncQueue (rm n)) (wld n)) (\<lambda>(threw, q, w).
       Ok ((upd_rm (\<lambda>r. r\<lparr>syncQueue := q, alive := alive r \<and> \<not> threw\<rparr>) n)\<lparr>wld := w\<rparr>))"

section \<open>Waiting for the backup\<close>

text \<open>
  What \<open>commit\<close> does next: return, call itself, or call itself and turn the warnings on
  again afterwards.
\<close>

datatype 'w move = Return bool "'w node" | Loop "'w node" | Resend "'w node"

text \<open>The handler \<open>catch (...)\<close>: the commit is queued and counts as done.\<close>

definition commit_lost :: "string \<Rightarrow> 'w node \<Rightarrow> 'w move res" where
  "commit_lost header n =
     bnd (enqueue header '' '' n) (\<lambda>n1. Ok (Return True (upd_rm (\<lambda>r. r\<lparr>alive := False\<rparr>) n1)))"

fun enqueue_writes :: "int \<Rightarrow> int list \<Rightarrow> 'w node \<Rightarrow> 'w node res" where
  "enqueue_writes tsn [] n = Ok n"
| "enqueue_writes tsn (q # qs) n =
     bnd (getHeader (node_log n) tsn q) (\<lambda>h.
     bnd (getData (node_log n) tsn q) (\<lambda>d.
     bnd (enqueue h d n) (enqueue_writes tsn qs)))"

text \<open>A running backup that holds a commit the primary does not have stops the primary.\<close>

definition kill_primary :: "env \<Rightarrow> 'w net \<Rightarrow> string \<Rightarrow> 'w node \<Rightarrow> 'w move res" where
  "kill_primary E N header n =
     (let (sent, w) = sendPacket N (genRequest1 E ''KILL'') (wld n); n1 = n\<lparr>wld := w\<rparr>
      in if \<not> sent then commit_lost header n1
         else Ok (Return False
           (upd_rm (\<lambda>r. r\<lparr>tries := 4, restarted := True\<rparr>)
             (redirect ''0.0.0.0'' ''0'' (close_node N n1)))))"

definition commit_reply ::
  "env \<Rightarrow> 'w net \<Rightarrow> string \<Rightarrow> bool \<Rightarrow> string \<Rightarrow> 'w node \<Rightarrow> 'w move res" where
  "commit_reply E N header back_up_mode result n =
     (let strs = split_any E '' '' result; tsn = getTsn E header;
          quiet = upd_rm (\<lambda>r. r\<lparr>show_warning := False\<rparr>)
      in bnd (vec_at strs 0) (\<lambda>kind.
         if kind = ''ACK'' then Ok (Return True n)
         else if back_up_mode then kill_primary E N header n
         else if kind = ''ACK_RESEND'' then
           bnd (getStatusData (node_log n) tsn) (\<lambda>last.
           bnd (seq_range last) (\<lambda>qs.
           bnd (enqueue_writes tsn qs n) (\<lambda>n1. Ok (Resend (quiet n1)))))
         else bnd (if kind = ''ERROR'' then vec_at strs 3 else Ok []) (\<lambda>code.
         if kind = ''ERROR'' \<and> code = ''201'' then
           bnd (getFileName (node_log n) tsn) (\<lambda>f.
           bnd (enqueue (''MAKE_TXN '' @ iToS E tsn @ '' -1 0'') f n) (\<lambda>n1. Ok (Resend (quiet n1))))
         else Ok (Return False n))))"

text \<open>The body of \<open>commit\<close> behind the push of the queue.\<close>

definition commit_body :: "env \<Rightarrow> 'w net \<Rightarrow> string \<Rightarrow> bool \<Rightarrow> 'w node \<Rightarrow> 'w move res" where
  "commit_body E N header back_up_mode n =
     (if alive (rm n) \<and> syncQueue (rm n) = [] then
        bnd (genEcho E header '' '') (\<lambda>pkt.
        bnd (sendReceive E N pkt (wld n)) (\<lambda>(reply, w).
          let n1 = n\<lparr>wld := w\<rparr>
          in case reply of
               None \<Rightarrow> commit_lost header n1
             | Some result \<Rightarrow> commit_reply E N header back_up_mode result n1))
      else if alive (rm n) then Ok (Loop n)
      else bnd (enqueue header '' '' n) (\<lambda>n1. Ok (Return True n1)))"

text \<open>The ends of the integrity check.\<close>

definition check_failed :: "'w net \<Rightarrow> 'w node \<Rightarrow> (bool \<times> 'w node) res" where
  "check_failed N n =
     bnd (getRole (node_log n)) (\<lambda>role.
       let n1 = upd_rm (\<lambda>r. r\<lparr>show_warning := True\<rparr>) n
       in Ok (False, if role \<noteq> ''primary''
                     then upd_rm (\<lambda>r. r\<lparr>alive := False\<rparr>) (close_node N n1) else n1))"

definition check_passed :: "'w net \<Rightarrow> 'w node \<Rightarrow> (bool \<times> 'w node) res" where
  "check_passed N n =
     bnd (getRole (node_log n)) (\<lambda>role.
       let n1 = (if role \<noteq> ''primary'' \<and> alive (rm n)
                 then upd_rm (\<lambda>r. r\<lparr>alive := False\<rparr>) (close_node N n) else n)
       in Ok (True, upd_rm (\<lambda>r. r\<lparr>show_warning := True\<rparr>) n1))"

text \<open>Connecting to the backup that has registered; the check follows when it stands.\<close>

definition connect_backup :: "env \<Rightarrow> 'w net \<Rightarrow> 'w node \<Rightarrow> (bool \<times> 'w node) res" where
  "connect_backup E N n =
     bnd (if triedConnect (rm n)
          then bnd (getIpBackup (node_log n)) (\<lambda>ip. bnd (getPortBackup (node_log n)) (\<lambda>port.
                 Ok (redirect ip port n)))
          else Ok n) (\<lambda>n1.
       let (good, n2) = connect_node E N n1; n3 = upd_rm (\<lambda>r. r\<lparr>alive := good\<rparr>) n2
       in if good then Ok (True, n3)
          else bnd (deleteBackup (node_log n3)) (\<lambda>l.
            Ok (False, upd_rm (\<lambda>r. r\<lparr>triedConnect := True\<rparr>) (set_log l n3))))"

text \<open>The start of the integrity check: a backup opens its own connection.\<close>

definition check_start :: "env \<Rightarrow> 'w net \<Rightarrow> 'w node \<Rightarrow> 'w node res" where
  "check_start E N n =
     bnd (getRole (node_log n)) (\<lambda>role.
       let n1 = (if role \<noteq> ''primary''
                 then (let (good, m) = connect_node E N n
                       in if good then upd_rm (\<lambda>r. r\<lparr>alive := True\<rparr>) m else m)
                 else n)
       in Ok (upd_rm (\<lambda>r. r\<lparr>show_warning := False\<rparr>) n1))"

function (sequential) rm_commit :: "nat \<Rightarrow> env \<Rightarrow> 'w net \<Rightarrow> string \<Rightarrow> 'w node \<Rightarrow> (bool \<times> 'w node) res"
  and primaryOps :: "nat \<Rightarrow> env \<Rightarrow> 'w net \<Rightarrow> 'w node \<Rightarrow> 'w node res"
  and integrityCheck :: "nat \<Rightarrow> env \<Rightarrow> 'w net \<Rightarrow> 'w node \<Rightarrow> (bool \<times> 'w node) res"
  and check_commits :: "nat \<Rightarrow> env \<Rightarrow> 'w net \<Rightarrow> string list \<Rightarrow> 'w node \<Rightarrow> (bool \<times> 'w node) res"
where
  "rm_commit 0 E N header n = Stop Diverged"
| "rm_commit (Suc k) E N header n =
     bnd (getRole (node_log n)) (\<lambda>role.
     bnd (if role = ''primary'' then primaryOps k E N n else Ok n) (\<lambda>n1.
     bnd (commit_body E N header (role \<noteq> ''primary'') n1) (\<lambda>nx.
       case nx of
         Return b n2 \<Rightarrow> Ok (b, n2)
       | Loop n2 \<Rightarrow> rm_commit k E N header n2
       | Resend n2 \<Rightarrow> bnd (rm_commit k E N header n2) (\<lambda>(b, n3).
           Ok (b, upd_rm (\<lambda>r. r\<lparr>show_warning := True\<rparr>) n3)))))"
| "primaryOps 0 E N n = Stop Diverged"
| "primaryOps (Suc k) E N n =
     (if alive (rm n) \<and> syncQueue (rm n) \<noteq> [] then push_queue E N n
      else if \<not> alive (rm n) \<and> backupRegistered (node_log n) then
        bnd (connect_backup E N n) (\<lambda>(good, n1).
          if good then bnd (integrityCheck k E N n1) (\<lambda>(b, n2). Ok n2) else Ok n1)
      else Ok n)"
| "integrityCheck 0 E N n = Stop Diverged"
| "integrityCheck (Suc k) E N n =
     bnd (check_start E N n) (\<lambda>n1.
     bnd (getCommits E (node_log n1)) (\<lambda>holder. check_commits k E N holder n1))"
| "check_commits 0 E N holder n = Stop Diverged"
| "check_commits (Suc k) E N holder n =
     (if holder = [] then check_passed N n
      else bnd (rm_commit k E N (last holder) n) (\<lambda>(b, n1).
        if b then check_commits k E N (butlast holder) n1 else check_failed N n1))"
  by pat_completeness simp_all
termination
  by (relation "measure (case_sum (case_sum fst fst) (case_sum fst fst))") simp_all

section \<open>Roles\<close>

definition primary_file :: "string \<Rightarrow> string" where
  "primary_file net_dir = net_dir @ ''/primary.txt''"

text \<open>The line the primary leaves in \<open>primary.txt\<close>.\<close>

definition primary_line :: "string \<Rightarrow> string \<Rightarrow> string" where
  "primary_line ip port = ''IP: |'' @ ip @ ''|'' @ [tab] @ ''port: |'' @ port @ ''|'' @ [nl]"

text \<open>\<open>loadPrimary\<close>: the address in the second and fourth field of the file's first line.\<close>

definition loadPrimary :: "env \<Rightarrow> lstate \<Rightarrow> (string \<times> string) res" where
  "loadPrimary E s =
     bnd (getNetDir (log_trans s)) (\<lambda>dir.
       if os_read E (files s) (primary_file dir) then
         let strs = split_any E ''|''
               (fst (snd (getline (file_text (files s) (primary_file dir), False) [])))
         in bnd (vec_at strs 1) (\<lambda>ip. bnd (vec_at strs 3) (\<lambda>port. Ok (ip, port)))
       else Stop (Exited (- 1)))"

definition switchToPrimary :: "env \<Rightarrow> 'w node \<Rightarrow> (bool \<times> 'w node) res" where
  "switchToPrimary E n =
     bnd (getRole (node_log n)) (\<lambda>role.
       if role = ''primary'' then Ok (True, n)
       else
         bnd (getNetDir (node_log n)) (\<lambda>dir.
         bnd (getIpThis (node_log n)) (\<lambda>ip.
         bnd (getPortThis (node_log n)) (\<lambda>port.
           if os_open E (files (lh n)) (primary_file dir) then
             Ok (True, n\<lparr>lh := (lh n)
               \<lparr>files := (files (lh n))(primary_file dir \<mapsto> File (primary_line ip port)),
                log_trans := serverData ip port ''primary'' dir (node_log n)\<rparr>\<rparr>)
           else Stop (Exited 1)))))"

definition switchToBackup :: "'w net \<Rightarrow> 'w node \<Rightarrow> (bool \<times> 'w node) res" where
  "switchToBackup N n =
     bnd (getRole (node_log n)) (\<lambda>role.
       if role = ''backup'' then Ok (True, n)
       else
         let n1 = redirect ''0.0.0.0'' ''0'' (close_node N n)
         in bnd (getNetDir (node_log n)) (\<lambda>dir.
            bnd (getIpThis (node_log n)) (\<lambda>ip.
            bnd (getPortThis (node_log n)) (\<lambda>port.
              Ok (True, upd_rm (\<lambda>r. r\<lparr>tries := - 10\<rparr>)
                (set_log (serverData ip port ''backup'' dir (node_log n)) n1))))))"

section \<open>The backup's daemon\<close>

definition primary_found :: "nat \<Rightarrow> env \<Rightarrow> 'w net \<Rightarrow> 'w node \<Rightarrow> 'w node res" where
  "primary_found k E N n =
     bnd (getIpThis (node_log n)) (\<lambda>ip.
     bnd (getPortThis (node_log n)) (\<lambda>port.
     bnd (if \<not> backup_did_sync (rm n) \<and> \<not> restarted (rm n) then
            bnd (integrityCheck k E N (upd_rm (\<lambda>r. r\<lparr>backup_did_sync := True\<rparr>) n)) (\<lambda>(b, n1). Ok n1)
          else
            bnd (sendReceive E N (genRequest2 E ''PING'' (ip @ ''|'' @ port)) (wld n)) (\<lambda>(reply, w).
              if reply = None then Stop Thrown else Ok (n\<lparr>wld := w\<rparr>)))
       (\<lambda>n2. Ok (close_node N n2))))"

definition primary_lost :: "env \<Rightarrow> 'w node \<Rightarrow> 'w node res" where
  "primary_lost E n =
     bnd (if 3 < tries (rm n) then
            bnd (switchToPrimary E n) (\<lambda>(b, n1). Ok (if b then upd_rm (\<lambda>r. r\<lparr>tries := 0\<rparr>) n1 else n1))
          else Ok n) (\<lambda>n1.
     bnd (loadPrimary E (lh n1)) (\<lambda>(ip, port).
     bnd (getIpThis (node_log n1)) (\<lambda>ip0.
     bnd (getPortThis (node_log n1)) (\<lambda>port0.
       let n2 = upd_rm (\<lambda>r. r\<lparr>prim_ip := ip, prim_port := port\<rparr>) n1;
           n3 = (if ip = ip0 \<and> port = port0 then n2 else redirect ip port n2)
       in Ok (upd_rm (\<lambda>r. r\<lparr>tries := tries r + 1, backup_did_sync := False\<rparr>) n3)))))"

definition backupOps :: "nat \<Rightarrow> env \<Rightarrow> 'w net \<Rightarrow> 'w node \<Rightarrow> 'w node res" where
  "backupOps k E N n =
     (let (good, n1) = connect_node E N (close_node N n)
      in if good then primary_found k E N n1 else primary_lost E n1)"

text \<open>\<open>check()\<close>: one round of the daemon; the timer is set again in every case.\<close>

definition rm_check :: "nat \<Rightarrow> env \<Rightarrow> 'w net \<Rightarrow> 'w node \<Rightarrow> 'w node res" where
  "rm_check k E N n =
     bnd (getRole (node_log n)) (\<lambda>role.
       if role = ''primary'' then primaryOps k E N n else backupOps k E N n)"

definition ReplicationManager_init :: "env \<Rightarrow> lstate \<Rightarrow> rmstate res" where
  "ReplicationManager_init E s =
     bnd (loadPrimary E s) (\<lambda>(ip, port).
       Ok \<lparr>prim_ip = ip, prim_port = port, alive = False, triedConnect = True,
           cl = Client_init ''0.0.0.0'' ''0'', syncQueue = [], tries = 0,
           show_warning = True, backup_did_sync = False, restarted = False\<rparr>)"

end
