(* ===== verification/Session_Handler.thy ===== *)
theory Session_Handler
  imports Replication
begin

text \<open>
  \<open>Session\<close>: one connection. A packet is a header line, a blank line and the data line; the
  header decides which operation of the log runs, what is answered, and what is queued for
  the backup.
\<close>

section \<open>State\<close>

text \<open>
  \<open>rem_ip\<close>, \<open>rem_port\<close>: the remote endpoint; \<open>known\<close>: whether the socket still has one (it has
  none once the connection was reset, and \<open>remote_endpoint()\<close> then throws); \<open>buf_b\<close>, \<open>buf_c\<close>: the two stream buffers;
  \<open>incoming\<close>: what the socket still delivers before the peer closes; \<open>sent\<close>: the packets
  written; \<open>writable\<close>: whether a write succeeds; \<open>listening\<close>: whether a read is pending.
\<close>

record session =
  auth_ip :: string
  auth_port :: int
  rem_ip :: string
  rem_port :: int
  known :: bool
  buf_b :: string
  buf_c :: string
  incoming :: string
  sent :: "string list"
  writable :: bool
  listening :: bool

definition Session_init :: "string \<Rightarrow> int \<Rightarrow> session" where
  "Session_init ip port = \<lparr>auth_ip = ''0.0.0.0'', auth_port = 0, rem_ip = ip, rem_port = port,
     known = True, buf_b = [], buf_c = [], incoming = [], sent = [], writable = True, listening = False\<rparr>"

definition doAuth :: "string \<Rightarrow> int \<Rightarrow> session \<Rightarrow> session" where
  "doAuth ip p ss = ss\<lparr>auth_ip := ip, auth_port := p\<rparr>"

definition isAuth :: "string \<Rightarrow> int \<Rightarrow> session \<Rightarrow> bool" where
  "isAuth ip p ss \<longleftrightarrow> ip = auth_ip ss \<and> auth_port ss = p"

definition start :: "session \<Rightarrow> session" where
  "start ss = ss\<lparr>listening := True\<rparr>"

section \<open>Answers\<close>

text \<open>A write to a socket that fails throws out of the handler.\<close>

definition sendACK :: "string \<Rightarrow> session \<Rightarrow> session res" where
  "sendACK s ss = (if writable ss then Ok (ss\<lparr>sent := sent ss @ [s]\<rparr>) else Stop Thrown)"

definition answer :: "env \<Rightarrow> string \<Rightarrow> string \<Rightarrow> string \<Rightarrow> string \<Rightarrow> session \<Rightarrow> session res" where
  "answer E mt header code txt ss = bnd (genAnswerStr E mt header code txt) (\<lambda>a. sendACK a ss)"

text \<open>The stack of missing numbers is sent from its back.\<close>

fun resend_loop :: "env \<Rightarrow> int \<Rightarrow> int list \<Rightarrow> session \<Rightarrow> session res" where
  "resend_loop E tsn [] ss = Ok ss"
| "resend_loop E tsn (i # rest) ss =
     bnd (answer E ''ACK_RESEND'' (''empty'' @ [tab] @ iToS E tsn @ [tab] @ iToS E i @ [tab]) ''0'' '' '' ss)
       (resend_loop E tsn rest)"

definition sendACK_RESEND :: "env \<Rightarrow> int \<Rightarrow> log \<Rightarrow> session \<Rightarrow> session res" where
  "sendACK_RESEND E tsn l ss =
     bnd (getStatusData l tsn) (\<lambda>n.
     bnd (canCommit l tsn n []) (\<lambda>(can, stack). resend_loop E tsn (rev stack) ss))"

section \<open>Reading the data of a packet\<close>

text \<open>
  The completion condition of the blocking read: how many bytes to ask for next. The
  subtraction is done in \<open>std::size_t\<close>.
\<close>

definition completion_condition :: "bool \<Rightarrow> 64 word \<Rightarrow> int \<Rightarrow> 64 word" where
  "completion_condition error bytes_transferred amount =
     (if \<not> error then
        let ret = word_of_int amount - bytes_transferred in if 0 < ret then ret else 0
      else 0)"

text \<open>
  \<open>read(socket_, c, ...)\<close> asks until the condition gives zero: it takes as many bytes as the
  first answer says, or throws at the end of the stream. The line is taken from \<open>c\<close>, which
  keeps what is left.
\<close>

definition read_rest :: "int \<Rightarrow> session \<Rightarrow> (string \<times> session) option" where
  "read_rest amount ss =
     (let want = unat (completion_condition False 0 amount)
      in if want \<le> length (incoming ss) then
           let (g, line, st) = getline (buf_c ss @ take want (incoming ss), False) []
           in Some (line, ss\<lparr>buf_c := fst st, incoming := drop want (incoming ss)\<rparr>)
         else None)"

section \<open>Commit\<close>

text \<open>The commit message that goes to the backup: the stored number, or the header's where that is zero.\<close>

definition commit_message :: "env \<Rightarrow> string \<Rightarrow> int \<Rightarrow> string" where
  "commit_message E header seq =
     ''COMMIT '' @ iToS E (getTsn E header) @ '' '' @
     (if seq = 0 then iToS E (getSeq E header) else iToS E seq) @ '' 0''"

text \<open>The primary's own commit, once the backup has committed or is not there.\<close>

definition commit_local :: "env \<Rightarrow> int \<Rightarrow> lstate \<Rightarrow> lstate res" where
  "commit_local E tsn s =
     bnd (writeFile E tsn s) (\<lambda>(written, s1).
       if written then
         bnd (changeStatus (log_trans s1) tsn ''COMMITTED'') (\<lambda>l. save E (s1\<lparr>log_trans := l\<rparr>))
       else Stop (Exited (- 1)))"

definition doCommit ::
  "nat \<Rightarrow> env \<Rightarrow> 'w net \<Rightarrow> string \<Rightarrow> 'w node \<Rightarrow> session \<Rightarrow> ('w node \<times> session) res" where
  "doCommit k E N header n ss =
     bnd (genAnswerStr E ''ACK'' header ''0'' ''Committed successfully.'') (\<lambda>ack_msg.
     bnd (getRole (node_log n)) (\<lambda>role.
       if role = ''primary'' then
         bnd (getStatusData (node_log n) (getTsn E header)) (\<lambda>seq.
         bnd (rm_commit k E N (commit_message E header seq) n) (\<lambda>(good, n1).
           if good then
             bnd (commit_local E (getTsn E header) (lh n1)) (\<lambda>s1.
             bnd (sendACK ack_msg ss) (\<lambda>ss1. Ok (n1\<lparr>lh := s1\<rparr>, ss1)))
           else
             bnd (answer E ''ERROR'' header ''205'' ''commit fail, i/o error'' ss) (\<lambda>ss1. Ok (n1, ss1))))
       else bnd (sendACK ack_msg ss) (\<lambda>ss1. Ok (n, ss1))))"

section \<open>Commands\<close>

text \<open>What a command comes to: its value, the text left in \<open>error\<close>, and the state.\<close>

type_synonym 'w outcome = "bool \<times> string \<times> 'w node \<times> session"

definition set_lh :: "lstate \<Rightarrow> 'w node \<Rightarrow> 'w node" where
  "set_lh s n = n\<lparr>lh := s\<rparr>"

definition failed ::
  "env \<Rightarrow> string \<Rightarrow> string \<Rightarrow> string \<Rightarrow> string \<Rightarrow> 'w node \<Rightarrow> session \<Rightarrow> 'w outcome res" where
  "failed E mt header code txt n ss =
     bnd (genAnswerStr E mt header code txt) (\<lambda>error. Ok (False, error, n, ss))"

definition do_abort ::
  "env \<Rightarrow> string \<Rightarrow> string \<Rightarrow> 'w node \<Rightarrow> session \<Rightarrow> 'w outcome res" where
  "do_abort E header dat n ss =
     bnd (abort_txn E header (lh n)) (\<lambda>(ret, error, s1).
       if ret then
         bnd (answer E ''ACK'' header ''0'' ''Aborted'' ss) (\<lambda>ss1.
         bnd (enqueue header dat (set_lh s1 n)) (\<lambda>n1. Ok (True, error, n1, ss1)))
       else Ok (False, error, set_lh s1 n, ss))"

definition do_new_txn ::
  "env \<Rightarrow> string \<Rightarrow> string \<Rightarrow> 'w node \<Rightarrow> session \<Rightarrow> 'w outcome res" where
  "do_new_txn E header dat n ss =
     bnd (newTxn E dat (lh n)) (\<lambda>(tsn_id, s1).
       if tsn_id = 0 then failed E ''ERROR'' header ''205'' ''Invalid file name.'' (set_lh s1 n) ss
       else
         bnd (sendACK (''ACK'' @ [tab] @ lex_str E tsn_id @ [tab] @ ''0'' @ [tab] @ ''0'' @ [tab] @ ''0''
           @ crlf @ crlf @ crlf) ss) (\<lambda>ss1.
         bnd (enqueue (''MAKE_TXN '' @ lex_str E tsn_id @ '' 0 0 0'') dat (set_lh s1 n)) (\<lambda>n1.
           Ok (True, [], n1, ss1))))"

definition do_commit_cmd ::
  "env \<Rightarrow> string \<Rightarrow> string \<Rightarrow> 'w node \<Rightarrow> session \<Rightarrow> 'w outcome res" where
  "do_commit_cmd E header dat n ss =
     bnd (commit E header (lh n)) (\<lambda>(ret, error, s1).
       if ret then bnd (enqueue header dat (set_lh s1 n)) (\<lambda>n1. Ok (ret, error, n1, ss))
       else Ok (ret, error, set_lh s1 n, ss))"

definition do_read ::
  "env \<Rightarrow> string \<Rightarrow> string \<Rightarrow> 'w node \<Rightarrow> session \<Rightarrow> 'w outcome res" where
  "do_read E header dat n ss =
     (let (found, s_read) = readFile E dat (lh n)
      in if found then bnd (answer E ''ACK'' header ''0'' s_read ss) (\<lambda>ss1. Ok (True, [], n, ss1))
         else failed E ''ERROR'' header ''206'' ''File not found'' n ss)"

definition do_write ::
  "env \<Rightarrow> string \<Rightarrow> string \<Rightarrow> 'w node \<Rightarrow> session \<Rightarrow> 'w outcome res" where
  "do_write E header dat n ss =
     bnd (addLogEntry E header dat (lh n)) (\<lambda>(ret, error, s1).
       if ret then
         bnd (answer E ''ACK'' header ''0'' '' '' ss) (\<lambda>ss1.
         bnd (enqueue header dat (set_lh s1 n)) (\<lambda>n1. Ok (ret, error, n1, ss1)))
       else if error = ''committed'' then
         bnd (enqueue header dat (set_lh s1 n)) (\<lambda>n1. Ok (ret, error, n1, ss))
       else Ok (ret, error, set_lh s1 n, ss))"

definition do_make_txn ::
  "env \<Rightarrow> string \<Rightarrow> string \<Rightarrow> 'w node \<Rightarrow> session \<Rightarrow> 'w outcome res" where
  "do_make_txn E header dat n ss =
     bnd (makeTxn E dat (getTsn E header) (lh n)) (\<lambda>(made, s1).
     bnd (answer E ''ACK'' header ''0'' ''Created'' ss) (\<lambda>ss1. Ok (True, [], set_lh s1 n, ss1)))"

definition do_ping ::
  "env \<Rightarrow> string \<Rightarrow> string \<Rightarrow> 'w node \<Rightarrow> session \<Rightarrow> 'w outcome res" where
  "do_ping E header dat n ss =
     bnd (answer E ''ACK'' header ''200'' '' '' ss) (\<lambda>ss1.
       if \<not> backupRegistered (node_log n)
       then bnd (backupServerData E dat (node_log n)) (\<lambda>l. Ok (True, [], set_log l n, ss1))
       else Ok (True, [], n, ss1))"

text \<open>Who may call: on a server that is not primary only \<open>AUTH\<close>, or a session that has authenticated.\<close>

definition authorized :: "int \<Rightarrow> 'w node \<Rightarrow> session \<Rightarrow> bool res" where
  "authorized i n ss =
     (if i = 8 \<or> isAuth (rem_ip ss) (rem_port ss) ss then Ok True
      else bnd (getRole (node_log n)) (\<lambda>role. Ok (role = ''primary'')))"

definition executeCommand ::
  "env \<Rightarrow> 'w net \<Rightarrow> int \<Rightarrow> string \<Rightarrow> string \<Rightarrow> 'w node \<Rightarrow> session \<Rightarrow> 'w outcome res" where
  "executeCommand E N i header dat n ss =
     (if \<not> known ss then Stop Thrown
      else bnd (authorized i n ss) (\<lambda>auth.
       if \<not> auth then failed E ''AUTH_FAIL'' header ''321'' ''Not authorized'' n ss
       else if i < 1 then failed E ''ERROR'' header ''204'' ''Invalid method'' n ss
       else if i = 1 then do_abort E header dat n ss
       else if i = 2 then do_new_txn E header dat n ss
       else if i = 3 then do_commit_cmd E header dat n ss
       else if i = 4 then do_read E header dat n ss
       else if i = 5 then do_write E header dat n ss
       else if i = 6 then do_make_txn E header dat n ss
       else if i = 7 then do_ping E header dat n ss
       else if i = 8 then Ok (True, [], n, doAuth (rem_ip ss) (rem_port ss) ss)
       else if i = 9 then bnd (switchToBackup N n) (\<lambda>(b, n1). Ok (True, [], n1, ss))
       else failed E ''ERROR'' header ''204'' ''Invalid method'' n ss))"

section \<open>Handling a packet\<close>

definition strip_cr :: "string \<Rightarrow> string" where
  "strip_cr s = filter (\<lambda>c. c \<noteq> cr) s"

definition left :: "istream \<Rightarrow> nat" where
  "left st = (if snd st then 0 else Suc (length (fst st)))"

lemma getline_left: "getline st h = (True, line, st') \<Longrightarrow> left st' < left st"
  using getline_shorter [of st h line st'] by (cases st) (auto simp: left_def getline.simps split: if_splits)

text \<open>Lines of fewer than eight characters are skipped; \<open>None\<close>: the buffer ended first.\<close>

function skip_short :: "string \<Rightarrow> istream \<Rightarrow> (string \<times> istream) option" where
  "skip_short header st =
     (if length header < 8 then
        case getline st header of
          (good, line, st') \<Rightarrow> if good then skip_short (strip_cr line) st' else None
      else Some (header, st))"
  by pat_completeness auto
termination
  by (relation "measure (left \<circ> snd)") (auto dest: getline_left [OF sym])

declare skip_short.simps [simp del]

text \<open>What the handler does with the outcome of a command.\<close>

definition respond ::
  "nat \<Rightarrow> env \<Rightarrow> 'w net \<Rightarrow> string \<Rightarrow> 'w outcome \<Rightarrow> ('w node \<times> session) res" where
  "respond k E N header out =
     (case out of (ex, error, n, ss) \<Rightarrow>
        if ex then Ok (n, ss)
        else if error = ''incomplete'' then
          bnd (sendACK_RESEND E (getTsn E header) (node_log n) ss) (\<lambda>ss1. Ok (n, ss1))
        else if error = ''committed'' then doCommit k E N header n ss
        else bnd (sendACK error ss) (\<lambda>ss1. Ok (n, ss1)))"

definition act ::
  "nat \<Rightarrow> env \<Rightarrow> 'w net \<Rightarrow> string \<Rightarrow> string \<Rightarrow> 'w node \<Rightarrow> session \<Rightarrow> ('w node \<times> session) res" where
  "act k E N header dat n ss =
     bnd (parse E header) (\<lambda>i.
     bnd (executeCommand E N i header dat n (start ss)) (respond k E N header))"

definition reject ::
  "env \<Rightarrow> string \<Rightarrow> string \<Rightarrow> 'w node \<Rightarrow> session \<Rightarrow> ('w node \<times> session) res" where
  "reject E header txt n ss = bnd (answer E ''ERROR'' header ''204'' txt ss) (\<lambda>ss1. Ok (n, start ss1))"

text \<open>The line behind the blank one is the data, or its head; the rest is read where it is short.\<close>

definition packet_body ::
  "nat \<Rightarrow> env \<Rightarrow> 'w net \<Rightarrow> string \<Rightarrow> string \<Rightarrow> 'w node \<Rightarrow> session \<Rightarrow> ('w node \<times> session) res" where
  "packet_body k E N header fragment n ss =
     (let pre = int_of_size (length fragment)
      in bnd (dataAttached E header) (\<lambda>attached.
         if attached then
           bnd (getBytes E header) (\<lambda>len.
             if len \<noteq> pre + 1 then
               case read_rest (len - pre) ss of
                 None \<Rightarrow> Ok (n, ss\<lparr>buf_c := buf_c ss @ incoming ss, incoming := []\<rparr>)
               | Some (line, ss1) \<Rightarrow> act k E N header (fragment @ line) n ss1
             else act k E N header fragment n ss)
         else
           bnd (needsData E header) (\<lambda>needs.
             if needs then reject E header ''Method requires data.'' n ss
             else act k E N header '' '' n ss)))"

text \<open>The packet behind a header that is long enough.\<close>

definition handle_packet ::
  "nat \<Rightarrow> env \<Rightarrow> 'w net \<Rightarrow> string \<Rightarrow> istream \<Rightarrow> 'w node \<Rightarrow> session \<Rightarrow> ('w node \<times> session) res" where
  "handle_packet k E N header st n ss =
     (if \<not> validHeader E header then
        reject E ''a -1 0 0'' ''Header is invalid or orphaned data (invalid op with data)'' n
          (ss\<lparr>buf_b := fst st\<rparr>)
      else
        let (g1, blank, st1) = getline st []; (g2, fragment, st2) = getline st1 blank
        in packet_body k E N header fragment n (ss\<lparr>buf_b := fst st2\<rparr>))"

definition read_packet ::
  "nat \<Rightarrow> env \<Rightarrow> 'w net \<Rightarrow> 'w node \<Rightarrow> session \<Rightarrow> ('w node \<times> session) res" where
  "read_packet k E N n ss =
     (let (g, line, st) = getline (buf_b ss, False) []
      in case skip_short (strip_cr line) st of
           None \<Rightarrow> reject E ''a -2 0 0'' ''Issue parsing packet [case: end of stream]'' n (ss\<lparr>buf_b := []\<rparr>)
         | Some (header, st1) \<Rightarrow> handle_packet k E N header st1 n ss)"

text \<open>The handler itself: with an error the session deletes itself.\<close>

definition handle_read ::
  "nat \<Rightarrow> env \<Rightarrow> 'w net \<Rightarrow> bool \<Rightarrow> 'w node \<Rightarrow> session \<Rightarrow> ('w node \<times> session option) res" where
  "handle_read k E N error n ss =
     (if error then Ok (n, None)
      else bnd (read_packet k E N n (ss\<lparr>listening := False\<rparr>)) (\<lambda>(n1, ss1). Ok (n1, Some ss1)))"

end
