(* ===== verification/Txn_Manager.thy ===== *)
theory Txn_Manager
  imports Log_Handler
begin

text \<open>
  \<open>TransactionManager\<close>: every five seconds the log is saved, every thirtieth time the
  timeouts are checked first.
\<close>

record tmstate =
  timer_since :: int

definition TransactionManager_init :: tmstate where
  "TransactionManager_init = \<lparr>timer_since = 0\<rparr>"

definition tm_check :: "env \<Rightarrow> tmstate \<Rightarrow> lstate \<Rightarrow> (tmstate \<times> lstate) res" where
  "tm_check E t s =
     (let since = timer_since t + 1
      in bnd (if since = 30 then timeouts E s else Ok s) (\<lambda>s1.
         bnd (save E s1) (\<lambda>s2.
           Ok (t\<lparr>timer_since := (if since = 30 then 0 else since)\<rparr>, s2))))"

end
