(* ===== verification/Server_Main.thy ===== *)
theory Server_Main
  imports Session_Handler Txn_Manager
begin

text \<open>
  \<open>Server\<close> and \<open>main\<close>: the start of a server from its command line, the sessions it
  accepts, and the events its \<open>io_service\<close> delivers.
\<close>

section \<open>Server\<close>

text \<open>
  \<open>accepting\<close>: the session waiting for the next connection, if the acceptor still runs;
  \<open>live\<close>: the sessions that have a connection.
\<close>

record 'w server =
  node :: "'w node"
  tm :: tmstate
  accepting :: "session option"
  live :: "session list"

text \<open>A port is a \<open>short\<close>; the endpoint takes it as \<open>unsigned short\<close>.\<close>

definition endpoint_port :: "int \<Rightarrow> int" where
  "endpoint_port port = uint (word_of_int port :: 16 word)"

definition Server_init ::
  "env \<Rightarrow> string \<Rightarrow> int \<Rightarrow> string \<Rightarrow> string \<Rightarrow> disk \<Rightarrow> nat \<Rightarrow> 'w \<Rightarrow> 'w server res" where
  "Server_init E ip port status net_dir d k w =
     (if \<not> acceptor E ip (endpoint_port port) then Stop Thrown
      else bnd (LogHandler_init E d k) (\<lambda>s.
        let s1 = s\<lparr>log_trans := serverData ip (lex_str E port) status net_dir (log_trans s)\<rparr>
        in bnd (ReplicationManager_init E s1) (\<lambda>r.
           Ok \<lparr>node = \<lparr>lh = s1, rm = r, wld = w\<rparr>, tm = TransactionManager_init,
               accepting = Some (Session_init [] 0), live = []\<rparr>)))"

text \<open>
  \<open>handle_accept\<close>: the accepted session starts and a new one waits; after an error the
  waiting session is deleted and nothing takes its place.
\<close>

definition handle_accept :: "bool \<Rightarrow> string \<Rightarrow> int \<Rightarrow> 'w server \<Rightarrow> 'w server" where
  "handle_accept error ip port s =
     (case accepting s of
        None \<Rightarrow> s
      | Some ss \<Rightarrow>
          if error then s\<lparr>accepting := None\<rparr>
          else s\<lparr>live := live s @ [start (ss\<lparr>rem_ip := ip, rem_port := port\<rparr>)],
                 accepting := Some (Session_init [] 0)\<rparr>)"

section \<open>Events\<close>

text \<open>
  What \<open>io_service.run()\<close> delivers: a connection, a completed read of the session at a
  position, and the two timers. A read comes with whether it failed, the text it added to
  the buffer, what the socket delivers to a blocking read before its peer closes, and whether
  the peer is there, takes no answers any more, or is gone altogether.
\<close>

datatype reach = There | Deaf | Gone

datatype event =
    Accepted bool string int
  | Arrived nat bool string string reach
  | Txn_timer
  | Rep_timer

fun server_step :: "nat \<Rightarrow> env \<Rightarrow> 'w net \<Rightarrow> event \<Rightarrow> 'w server \<Rightarrow> 'w server res" where
  "server_step k E N (Accepted error ip port) s = Ok (handle_accept error ip port s)"
| "server_step k E N (Arrived i error txt tail up) s =
     (if i < length (live s) \<and> listening (live s ! i) then
        bnd (handle_read k E N error (node s)
          ((live s ! i)\<lparr>buf_b := buf_b (live s ! i) @ txt, incoming := tail, writable := up = There, known := up \<noteq> Gone\<rparr>)) (\<lambda>(n, ss).
          Ok (s\<lparr>node := n, live := (case ss of
                 Some ss1 \<Rightarrow> (live s)[i := ss1]
               | None \<Rightarrow> take i (live s) @ drop (Suc i) (live s))\<rparr>))
      else Ok s)"
| "server_step k E N Txn_timer s =
     bnd (tm_check E (tm s) (lh (node s))) (\<lambda>(t, l).
       Ok (s\<lparr>tm := t, node := (node s)\<lparr>lh := l\<rparr>\<rparr>))"
| "server_step k E N Rep_timer s =
     bnd (rm_check k E N (node s)) (\<lambda>n. Ok (s\<lparr>node := n\<rparr>))"

fun run_server :: "nat \<Rightarrow> env \<Rightarrow> 'w net \<Rightarrow> event list \<Rightarrow> 'w server \<Rightarrow> 'w server res" where
  "run_server k E N [] s = Ok s"
| "run_server k E N (e # es) s = bnd (server_step k E N e s) (run_server k E N es)"

section \<open>Command line\<close>

text \<open>
  The options as \<open>getopt_long\<close> returns them one after the other: the option's letter and
  its argument.
\<close>

record settings =
  opt_ip :: string
  opt_port :: int
  opt_primary :: bool
  opt_dir :: "string option"
  opt_net :: "string option"

definition default_settings :: settings where
  "default_settings =
     \<lparr>opt_ip = ''NULL'', opt_port = 8080, opt_primary = False, opt_dir = None, opt_net = None\<rparr>"

fun read_options :: "(char \<times> string) list \<Rightarrow> settings \<Rightarrow> settings res" where
  "read_options [] o1 = Ok o1"
| "read_options ((c, arg) # os) o1 =
     (if c = CHR ''i'' then read_options os (o1\<lparr>opt_ip := arg\<rparr>)
      else if c = CHR ''m'' then read_options os (o1\<lparr>opt_primary := True\<rparr>)
      else if c = CHR ''p'' then
        bnd (atoi arg) (\<lambda>p. read_options os (o1\<lparr>opt_port := short_of_int p\<rparr>))
      else if c = CHR ''d'' then read_options os (o1\<lparr>opt_dir := Some arg\<rparr>)
      else if c = CHR ''n'' then read_options os (o1\<lparr>opt_net := Some arg\<rparr>)
      else Stop (Exited 1))"

text \<open>The three debug flags: \<open>+drm\<close>, \<open>+info\<close>, \<open>+dc\<close>, looked for from the third argument on.\<close>

definition debug_flags :: "string list \<Rightarrow> bool \<times> bool \<times> bool" where
  "debug_flags argv =
     (let rest = drop 3 argv
      in (List.member rest ''+drm'', List.member rest ''+info'', List.member rest ''+dc''))"

text \<open>
  The file store of the machine holds absolute paths; a process sees it from its working
  directory, which \<open>chdir\<close> changes when the directory is there.
\<close>

definition resolve :: "string \<Rightarrow> string \<Rightarrow> string" where
  "resolve cwd p = (if p \<noteq> [] \<and> hd p = CHR ''/'' then p else cwd @ ''/'' @ p)"

definition chdir :: "disk \<Rightarrow> string \<Rightarrow> string \<Rightarrow> string" where
  "chdir d p cwd = (if d (resolve cwd p) = Some Dir then resolve cwd p else cwd)"

definition view :: "string \<Rightarrow> disk \<Rightarrow> disk" where
  "view cwd d = (\<lambda>p. d (resolve cwd p))"

definition probe :: string where
  "probe = ''temp-testwrite-perm.tmp''"

text \<open>The directories: both must be there, and the working directory must take a file.\<close>

definition check_dirs ::
  "env \<Rightarrow> settings \<Rightarrow> string \<Rightarrow> disk \<Rightarrow> (string \<times> string \<times> string \<times> disk) res" where
  "check_dirs E o1 cwd d =
     (case (opt_dir o1, opt_net o1) of
        (Some dir, Some net_dir) \<Rightarrow>
          if view cwd d dir \<noteq> Some Dir then Stop (Exited 1)
          else if view cwd d net_dir \<noteq> Some Dir then Stop (Exited 1)
          else
            let cwd1 = chdir d dir cwd; f = resolve cwd1 probe
            in if os_open E d f then
                 let d1 = d(f \<mapsto> File (''I can write!'' @ [nl]))
                 in Ok (dir, net_dir, cwd1, if os_remove E d1 f then d1(f := None) else d1)
               else Stop (Exited 1)
      | _ \<Rightarrow> Stop (Exited 1))"

definition with_defaults :: "settings \<Rightarrow> settings" where
  "with_defaults o1 =
     (let o2 = (if opt_port o1 = 0 then o1\<lparr>opt_port := 8080\<rparr> else o1)
      in if opt_ip o2 = ''NULL'' then o2\<lparr>opt_ip := ''127.0.0.1''\<rparr> else o2)"

text \<open>A primary leaves its address in the network directory.\<close>

definition announce :: "env \<Rightarrow> settings \<Rightarrow> string \<Rightarrow> string \<Rightarrow> disk \<Rightarrow> (string \<times> disk) res" where
  "announce E o1 net_dir cwd d =
     (if opt_primary o1 then
        let cwd1 = chdir d net_dir cwd; f = resolve cwd1 ''primary.txt''
        in if os_open E d f
           then Ok (cwd1, d(f \<mapsto> File (primary_line (opt_ip o1) (decimal (opt_port o1)))))
           else Stop (Exited 1)
      else Ok (cwd, d))"

text \<open>
  \<open>main\<close> up to \<open>io_service.run()\<close>: the working directory it ends in and the server. An
  exception is caught and the program returns zero.
\<close>

definition start_server ::
  "env \<Rightarrow> (char \<times> string) list \<Rightarrow> string \<Rightarrow> disk \<Rightarrow> nat \<Rightarrow> 'w \<Rightarrow> (string \<times> 'w server) res" where
  "start_server E opts cwd d k w =
     bnd (read_options opts default_settings) (\<lambda>o1.
     bnd (check_dirs E o1 cwd d) (\<lambda>(dir, net_dir, cwd1, d1).
       let o2 = with_defaults o1
       in bnd (announce E o2 net_dir cwd1 d1) (\<lambda>(cwd2, d2).
          let cwd3 = chdir d2 dir cwd2;
              status = (if opt_primary o2 then ''primary'' else ''backup'')
          in bnd (Server_init E (opt_ip o2) (opt_port o2) status net_dir (view cwd3 d2) k w)
               (\<lambda>s. Ok (cwd3, s)))))"

fun caught :: "'a res \<Rightarrow> 'a res" where
  "caught (Stop Thrown) = Stop (Exited 0)"
| "caught m = m"

definition main_program ::
  "env \<Rightarrow> 'w net \<Rightarrow> nat \<Rightarrow> (char \<times> string) list \<Rightarrow> string \<Rightarrow> disk \<Rightarrow> nat \<Rightarrow> 'w \<Rightarrow> event list
     \<Rightarrow> 'w server res" where
  "main_program E N fuel opts cwd d k w es =
     caught (bnd (start_server E opts cwd d k w) (\<lambda>(dir, s). run_server fuel E N es s))"

text \<open>The handler of \<open>SIGINT\<close>: the log file goes.\<close>

definition exit_fn :: "env \<Rightarrow> disk \<Rightarrow> fault \<times> disk" where
  "exit_fn E d = (Exited 0, if os_remove E d fileName then d(fileName := None) else d)"

end
