(* ===== verification/Log_Facts.thy ===== *)
theory Log_Facts
  imports Log_Handler
begin

text \<open>
  Well-formed logs and the facts about the log methods that the component proofs share:
  what the accessors and updates do to the underlying maps, what \<open>canCommit\<close> computes,
  and which entries a transaction has.
\<close>

named_theorems log_methods "the log accessors, as lookups in the underlying maps"

section \<open>Accessors and updates\<close>

lemma entry_Ok [log_methods]:
  "entry l k q = Ok p \<longleftrightarrow> (\<exists>t. om_find l k = Some t \<and> om_find t q = Some p)"
  by (simp add: entry_def)

lemma set_entry_Ok [log_methods]:
  "set_entry l k q f = Ok l' \<longleftrightarrow>
     (\<exists>t p. om_find l k = Some t \<and> om_find t q = Some p \<and> l' = om_put k (om_put q (f p) t) l)"
  by (auto simp: set_entry_def)

lemma getters_Ok [log_methods]:
  "getStatus l k = Ok st \<longleftrightarrow> (\<exists>t d. om_find l k = Some t \<and> om_find t (- 1) = Some (st, d))"
  "getStatusZ l k = Ok z \<longleftrightarrow> (\<exists>t d. om_find l k = Some t \<and> om_find t 0 = Some (z, d))"
  "getFileName l k = Ok f \<longleftrightarrow> (\<exists>t z. om_find l k = Some t \<and> om_find t 0 = Some (z, f))"
  "getData l k q = Ok x \<longleftrightarrow> (\<exists>t h. om_find l k = Some t \<and> om_find t q = Some (h, x))"
  "getHeader l k q = Ok h \<longleftrightarrow> (\<exists>t x. om_find l k = Some t \<and> om_find t q = Some (h, x))"
  by (auto simp: getStatus_def getStatusZ_def getFileName_def getData_def getHeader_def entry_Ok)

lemma getStatusData_Ok [log_methods]:
  "getStatusData l k = Ok n \<longleftrightarrow>
     (\<exists>t st d. om_find l k = Some t \<and> om_find t (- 1) = Some (st, d) \<and> atoi d = Ok n)"
  by (auto simp: getStatusData_def entry_Ok)

lemma role_Ok [log_methods]:
  "getRole l = Ok r \<longleftrightarrow> (\<exists>t d. om_find l 0 = Some t \<and> om_find t (- 1) = Some (r, d))"
  by (auto simp: getRole_def entry_Ok)

lemmas change_defs = changeStatus_def changeStatusZ_def changeStatusData_def

text \<open>Evaluation of the methods where the entries are known.\<close>

lemma entry_eval [simp]:
  "om_find l k = Some t \<Longrightarrow> entry l k q = deref (om_find t q)"
  by (simp add: entry_def)

lemma set_entry_eval [simp]:
  "om_find l k = Some t \<Longrightarrow> om_find t q = Some p \<Longrightarrow>
     set_entry l k q f = Ok (om_put k (om_put q (f p) t) l)"
  by (simp add: set_entry_def)

lemma getStatus_eval:
  "om_find l k = Some t \<Longrightarrow> om_find t (- 1) = Some (st, d) \<Longrightarrow> getStatus l k = Ok st"
  by (simp add: getStatus_def)

lemma getStatusData_eval:
  "om_find l k = Some t \<Longrightarrow> om_find t (- 1) = Some (st, d) \<Longrightarrow> getStatusData l k = atoi d"
  by (simp add: getStatusData_def)

lemma om_put_put [simp]: "om_put k v (om_put k w m) = om_put k v m"
  by (induction k v m rule: om_put.induct) auto

text \<open>\<open>changeStatus\<close> followed by \<open>changeStatusData\<close> sets the whole status entry.\<close>

definition with_status :: "int \<Rightarrow> log_pair \<Rightarrow> txn \<Rightarrow> log \<Rightarrow> log" where
  "with_status k p t l = om_put k (om_put (- 1) p t) l"

lemma changeStatus_eval:
  "om_find l k = Some t \<Longrightarrow> om_find t (- 1) = Some (st, d) \<Longrightarrow>
     changeStatus l k st' = Ok (with_status k (st', d) t l)"
  by (simp add: changeStatus_def with_status_def)

lemma changeStatusData_eval:
  "om_find l k = Some t \<Longrightarrow> om_find t (- 1) = Some (st, d) \<Longrightarrow>
     changeStatusData l k d' = Ok (with_status k (st, d') t l)"
  by (simp add: changeStatusData_def with_status_def)

lemma with_status_find [simp]:
  "om_find (with_status k p t l) k' = (if k' = k then Some (om_put (- 1) p t) else om_find l k')"
  by (simp add: with_status_def om_simps)

lemma with_status_twice [simp]:
  "with_status k p (om_put (- 1) p' t) (with_status k q u l) = with_status k p t l"
  by (simp add: with_status_def)

section \<open>Saving\<close>

lemma save_Ok:
  "save E s = Ok s' \<Longrightarrow> log_trans s' = log_trans s \<and> rng s' = rng s"
  by (auto simp: save_def split: option.splits)

lemma save_log: "save E s = Ok s' \<Longrightarrow> log_trans s' = log_trans s"
  by (simp add: save_Ok)

lemma save_files:
  assumes "files_ok E" "save E s = Ok s'"
  shows "files s' = (files s)(fileName \<mapsto> File (oarchive E (log_trans s)))"
proof -
  obtain d where d: "fd_sink E False fileName (oarchive E (log_trans s)) (files s) = Some d"
    and s': "s' = s\<lparr>files := d\<rparr>"
    using assms(2) by (auto simp: save_def split: option.splits)
  have "d = (files s)(fileName \<mapsto> File (oarchive E (log_trans s)))"
    using assms(1) d unfolding files_ok_def by (rule file_lib.sink_new)
  then show ?thesis by (simp add: s')
qed

section \<open>What \<open>canCommit\<close> computes\<close>

lemma sorted_le_last: "sorted_wrt (<) xs \<Longrightarrow> x \<in> set xs \<Longrightarrow> x \<le> last (xs :: int list)"
  by (induction xs) (auto simp: less_imp_le)

lemma upto_gap:
  assumes "cur < k" "sorted_wrt (<) (k # ks)" "k \<le> m"
  shows "[i \<leftarrow> [cur + 1..m]. i \<notin> set (k # ks)] =
    [cur + 1..k - 1] @ [i \<leftarrow> [k + 1..m]. i \<notin> set ks]"
proof -
  have "[cur + 1..m] = [cur + 1..k - 1] @ k # [k + 1..m]"
    using assms by (intro upto_split3) auto
  moreover have "[i \<leftarrow> [cur + 1..k - 1]. i \<notin> set (k # ks)] = [cur + 1..k - 1]"
    using assms(2) by (auto simp: filter_id_conv)
  moreover have "[i \<leftarrow> [k + 1..m]. i \<notin> set (k # ks)] = [i \<leftarrow> [k + 1..m]. i \<notin> set ks]"
    by (intro filter_cong) auto
  ultimately show ?thesis by simp
qed

lemma canCommit_loop_sorted:
  "sorted_wrt (<) (cur # ks) \<Longrightarrow> canCommit_loop cur fetch ks =
    (last (cur # ks), fetch @ [i \<leftarrow> [cur + 1..last (cur # ks)]. i \<notin> set ks])"
proof (induction ks arbitrary: cur fetch)
  case (Cons k ks)
  define m where "m = last (k # ks)"
  have le: "k \<le> m"
    unfolding m_def using Cons.prems by (intro sorted_le_last) auto
  have "canCommit_loop cur fetch (k # ks) = canCommit_loop k (fetch @ [cur + 1..k - 1]) ks"
    by simp
  also have "\<dots> = (m, (fetch @ [cur + 1..k - 1]) @ [i \<leftarrow> [k + 1..m]. i \<notin> set ks])"
    unfolding m_def using Cons.prems by (intro Cons.IH) auto
  also have "\<dots> = (m, fetch @ [i \<leftarrow> [cur + 1..m]. i \<notin> set (k # ks)])"
    using Cons.prems le by (subst upto_gap) auto
  finally show ?case by (simp add: m_def)
qed simp

text \<open>The largest sequence number a transaction has an entry for.\<close>

definition max_seq :: "txn \<Rightarrow> int" where
  "max_seq t = last (om_keys t)"

definition missing :: "txn \<Rightarrow> int \<Rightarrow> int list" where
  "missing t n = [i \<leftarrow> [1..max n (max_seq t)]. om_find t i = None]"

text \<open>A transaction's own entries: both bookkeeping ones, and nothing below them.\<close>

definition has_base :: "txn \<Rightarrow> bool" where
  "has_base t \<longleftrightarrow> om_ok t \<and> take 2 (om_keys t) = [- 1, 0]"

lemma has_base_keys: "has_base t \<longleftrightarrow> om_ok t \<and> (\<exists>ks. om_keys t = - 1 # 0 # ks)"
proof -
  have "take 2 xs = [a, b] \<longleftrightarrow> (\<exists>ks. xs = a # b # ks)" for a b and xs :: "int list"
    by (cases xs; cases "tl xs") auto
  then show ?thesis by (simp add: has_base_def)
qed

lemma has_base_iff:
  "has_base t \<longleftrightarrow> om_ok t \<and> (\<forall>k \<in> set (om_keys t). - 1 \<le> k)
     \<and> om_find t (- 1) \<noteq> None \<and> om_find t 0 \<noteq> None"
proof
  assume "has_base t"
  then obtain ks where ks: "om_ok t" "om_keys t = - 1 # 0 # ks"
    by (auto simp: has_base_keys)
  then have "sorted_wrt (<) (- 1 # 0 # ks)"
    by (metis om_keys_sorted)
  with ks show "om_ok t \<and> (\<forall>k \<in> set (om_keys t). - 1 \<le> k)
     \<and> om_find t (- 1) \<noteq> None \<and> om_find t 0 \<noteq> None"
    by (auto simp: om_find_None_keys less_imp_le)
next
  assume a: "om_ok t \<and> (\<forall>k \<in> set (om_keys t). - 1 \<le> k)
     \<and> om_find t (- 1) \<noteq> None \<and> om_find t 0 \<noteq> None"
  then have mem: "- 1 \<in> set (om_keys t)" "0 \<in> set (om_keys t)"
    by (auto simp: om_find_None_keys)
  have s: "sorted_wrt (<) (om_keys t)"
    using a by (simp add: om_keys_sorted)
  obtain x y ks where k: "om_keys t = x # y # ks"
    using mem by (cases "om_keys t"; cases "tl (om_keys t)") auto
  have "x = - 1"
    using s k a mem(1) by auto
  moreover from this have "y = 0"
    using s k mem(2) by auto
  ultimately show "has_base t"
    using a k by (simp add: has_base_keys)
qed

lemma has_base_put:
  assumes "has_base t" "- 1 \<le> q" shows "has_base (om_put q p t)"
  using assms by (auto simp: has_base_iff om_simps om_oks om.keys_put)

lemma has_base_insert:
  assumes "has_base t" "- 1 \<le> q" shows "has_base (om_insert q p t)"
  using assms by (auto simp: has_base_iff om_simps om_oks om.keys_ins)

lemma max_seq_bound:
  assumes "has_base t" "om_find t q \<noteq> None" shows "q \<le> max_seq t"
proof -
  have "q \<in> set (om_keys t)" "sorted_wrt (<) (om_keys t)"
    using assms by (auto simp: om_find_None_keys has_base_keys om_keys_sorted)
  then show ?thesis
    unfolding max_seq_def by (intro sorted_le_last)
qed

lemma max_seq_nonneg: "has_base t \<Longrightarrow> 0 \<le> max_seq t"
  by (rule max_seq_bound) (simp_all add: has_base_iff)

lemma canCommit_eval:
  assumes t: "om_find l tsn = Some t" "has_base t"
  shows "canCommit l tsn n fetch = Ok (fetch = [] \<and> missing t n = [] \<and> n \<noteq> 0, fetch @ missing t n)"
proof -
  obtain ks where ks: "om_keys t = - 1 # 0 # ks" "sorted_wrt (<) (0 # ks)"
    using t(2) om_keys_sorted [of t] by (auto simp: has_base_keys)
  have m: "max_seq t = last (0 # ks)"
    using ks by (simp add: max_seq_def)
  have loop: "canCommit_loop (- 1) fetch (om_keys t) =
      (max_seq t, fetch @ [i \<leftarrow> [1..max_seq t]. i \<notin> set ks])"
    using canCommit_loop_sorted [OF ks(2), of fetch] ks(1) m by simp
  have keep: "[i \<leftarrow> [1..max_seq t]. i \<notin> set ks] = [i \<leftarrow> [1..max_seq t]. om_find t i = None]"
    by (intro filter_cong) (auto simp: om_find_None_keys ks(1))
  have above: "[i \<leftarrow> [max_seq t + 1..n]. om_find t i = None] = [max_seq t + 1..n]"
    using max_seq_bound [OF t(2)] by (fastforce intro!: filter_True)
  have "missing t n = [i \<leftarrow> [1..max_seq t]. om_find t i = None] @ (if max_seq t < n then [max_seq t + 1..n] else [])"
  proof (cases "max_seq t < n")
    case True
    then have "[1..n] = [1..max_seq t] @ [max_seq t + 1..n]"
      using max_seq_nonneg [OF t(2)] upto_split2 [of 1 "max_seq t" n]
      by (cases "max_seq t = 0") auto
    with True above show ?thesis by (simp add: missing_def max_def)
  qed (simp add: missing_def max_def)
  then show ?thesis
    by (auto simp: canCommit_def t(1) loop keep)
qed

text \<open>Nothing is missing exactly when the writes form an unbroken run that reaches \<open>n\<close>.\<close>

lemma missing_empty:
  "has_base t \<Longrightarrow> missing t n = [] \<longleftrightarrow> (\<forall>i. 1 \<le> i \<and> i \<le> max n (max_seq t) \<longrightarrow> om_find t i \<noteq> None)"
  by (auto simp: missing_def filter_empty_conv)

lemma set_missing:
  "set (missing t n) = {i. 1 \<le> i \<and> i \<le> max n (max_seq t) \<and> om_find t i = None}"
  by (auto simp: missing_def)

section \<open>The listing\<close>

lemma om_find_mem: "om_find m k = Some v \<Longrightarrow> (k, v) \<in> set m"
  by (induction m k rule: om_find.induct) (auto split: if_splits)

lemma concat_part: "x \<in> set xs \<Longrightarrow> \<exists>a b. concat (map f xs) = a @ f x @ b"
proof -
  assume "x \<in> set xs"
  then obtain ys zs where "xs = ys @ x # zs" by (auto simp: in_set_conv_decomp)
  then show ?thesis by auto
qed

text \<open>The listing shows every entry of every transaction, its data included.\<close>

lemma printsentries_complete:
  assumes "om_find l k = Some t" "om_find t q = Some p"
  shows "\<exists>a b. printsentries l = a @ print_entry (q, p) @ b"
proof -
  obtain a b where "concat (map print_txn l) = a @ print_txn (k, t) @ b"
    using concat_part [OF om_find_mem [OF assms(1)]] by blast
  moreover obtain c d where "concat (map print_entry t) = c @ print_entry (q, p) @ d"
    using concat_part [OF om_find_mem [OF assms(2)]] by blast
  moreover have "\<exists>u. print_txn (k, t) = u @ concat (map print_entry t)"
    by (rule exI [of _ "'' ** Tsn'' @ [tab] @ '': '' @ decimal k @ [nl]"]) (simp add: print_txn_def)
  then obtain u where "print_txn (k, t) = u @ concat (map print_entry t)" ..
  moreover have "\<exists>v w. printsentries l = v @ concat (map print_txn l) @ w"
    by (rule exI [of _ "[nl] @ ''######## Printing Log Data ############'' @ [nl]"]) (simp add: printsentries_def)
  then obtain v w where "printsentries l = v @ concat (map print_txn l) @ w" by blast
  ultimately have "printsentries l = (v @ a @ u @ c) @ print_entry (q, p) @ (d @ b @ w)" by simp
  then show ?thesis by blast
qed

end
