(* ===== verification/Txn_Spec.thy ===== *)
theory Txn_Spec
  imports Log_Facts
begin

text \<open>
  What a transaction promises, apart from how the log stores it: the well-formedness of a
  log, and an abstract transaction (its phase, its target file, the data of its writes) with
  the abstract operations that \<open>LogHandler\<close> implements.
\<close>

section \<open>Well-formed logs\<close>

definition statuses :: "string list" where
  "statuses = [''ACTIVE'', ''FLAG'', ''EXPIRED'', ''WAITING'', ''WRITING'', ''COMMITTED'']"

definition stored_run :: "txn \<Rightarrow> int \<Rightarrow> bool" where
  "stored_run t n \<longleftrightarrow> list_all (\<lambda>i. om_find t i \<noteq> None) [1..n]"

text \<open>
  The status entry: a known status, a number in range; a pending or committed number is at
  least one, and from \<open>WRITING\<close> on every write up to it is stored.
\<close>

definition wf_status :: "txn \<Rightarrow> log_pair \<Rightarrow> bool" where
  "wf_status t p \<longleftrightarrow>
     fst p \<in> set statuses \<and> in_int32 (atoi_val (snd p)) \<and>
     (fst p \<in> {''WAITING'', ''WRITING'', ''COMMITTED''} \<longrightarrow> 1 \<le> atoi_val (snd p)) \<and>
     (fst p \<in> {''WRITING'', ''COMMITTED''} \<longrightarrow> stored_run t (atoi_val (snd p)))"

definition wf_txn :: "txn \<Rightarrow> bool" where
  "wf_txn t \<longleftrightarrow> has_base t \<and> (case om_find t (- 1) of Some p \<Rightarrow> wf_status t p | None \<Rightarrow> False)"

definition server_key :: "int \<Rightarrow> bool" where
  "server_key k \<longleftrightarrow> k = 0 \<or> k = - 1"

definition wf_log :: "log \<Rightarrow> bool" where
  "wf_log l \<longleftrightarrow> om_ok l \<and>
     (case om_find l 0 of Some t \<Rightarrow>
        has_base t \<and> (case om_find t (- 1) of Some p \<Rightarrow> fst p \<in> {''primary'', ''backup''} | None \<Rightarrow> False)
      | None \<Rightarrow> False) \<and>
     (case om_find l (- 1) of Some t \<Rightarrow> om_find t (- 1) = None \<and> om_find t 0 \<noteq> None | None \<Rightarrow> True) \<and>
     list_all (\<lambda>k. server_key k \<or> (case om_find l k of Some t \<Rightarrow> wf_txn t | None \<Rightarrow> True)) (om_keys l)"

lemma wf_status_idle:
  "in_int32 (atoi_val d) \<Longrightarrow> x = ''ACTIVE'' \<or> x = ''FLAG'' \<or> x = ''EXPIRED'' \<Longrightarrow> wf_status t (x, d)"
  by (elim disjE) (simp_all add: wf_status_def statuses_def)

lemma status_cases:
  assumes "wf_status t (st, d)"
  obtains "st = ''ACTIVE''" | "st = ''FLAG''" | "st = ''EXPIRED''" | "st = ''WAITING''"
    | "st = ''WRITING''" | "st = ''COMMITTED''"
proof -
  have "st = ''ACTIVE'' \<or> st = ''FLAG'' \<or> st = ''EXPIRED'' \<or> st = ''WAITING'' \<or> st = ''WRITING''
      \<or> st = ''COMMITTED''"
    using assms by (simp add: wf_status_def statuses_def)
  then show ?thesis by (elim disjE) (rule that; assumption)+
qed

lemma wf_status_int32: "wf_status t (st, d) \<Longrightarrow> in_int32 (atoi_val d)"
  by (simp add: wf_status_def)

lemma wf_txn_status: "wf_txn t \<Longrightarrow> \<exists>p. om_find t (- 1) = Some p \<and> wf_status t p"
  by (auto simp: wf_txn_def split: option.splits)

lemma wf_txn_base: "wf_txn t \<Longrightarrow> has_base t"
  by (simp add: wf_txn_def)

lemma wf_log_ok: "wf_log l \<Longrightarrow> om_ok l"
  by (simp add: wf_log_def)

lemma wf_log_txn: "wf_log l \<Longrightarrow> om_find l k = Some t \<Longrightarrow> \<not> server_key k \<Longrightarrow> wf_txn t"
  by (auto simp: wf_log_def list_all_iff om.keys_iff)

lemma wf_log_role:
  "wf_log l \<Longrightarrow> \<exists>t r d. om_find l 0 = Some t \<and> has_base t \<and> om_find t (- 1) = Some (r, d)
     \<and> r \<in> {''primary'', ''backup''} \<and> getRole l = Ok r"
  by (auto simp: wf_log_def role_Ok split: option.splits)

lemma wf_log_put:
  assumes "wf_log l" "wf_txn t" "\<not> server_key k"
  shows "wf_log (om_put k t l)"
  using assms by (auto simp: wf_log_def server_key_def om_simps om_oks list_all_iff om.keys_put
      split: option.splits)

lemma wf_log_erase:
  assumes "wf_log l" "\<not> server_key k"
  shows "wf_log (om_erase k l)"
  using assms by (auto simp: wf_log_def server_key_def om_simps om_oks list_all_iff om.keys_erase
      split: option.splits)

lemma wf_status_put [simp]:
  "wf_status (om_put (- 1) p' t) p \<longleftrightarrow> wf_status t p"
  by (auto simp: wf_status_def stored_run_def list_all_iff om_simps)

lemma wf_with_status:
  assumes "wf_log l" "wf_txn t" "\<not> server_key k" "wf_status t p"
  shows "wf_log (with_status k p t l)"
  unfolding with_status_def
  using assms by (intro wf_log_put) (auto simp: wf_txn_def om_simps has_base_put)

lemma role_with_status [simp]:
  "\<not> server_key k \<Longrightarrow> getRole (with_status k p t l) = getRole l"
  by (simp add: getRole_def entry_def server_key_def)

lemma role_put [simp]:
  "\<not> server_key k \<Longrightarrow> getRole (om_put k t l) = getRole l"
  by (auto simp: getRole_def entry_def server_key_def om_simps)

section \<open>Abstract transactions\<close>

datatype phase = Active | Flagged | Expired | Waiting int | Writing int | Committed int

datatype age = Fresh | Marked | Old

record atxn =
  phase :: phase
  age :: age
  target :: string
  writes :: "int \<Rightarrow> string option"

type_synonym store = "int \<Rightarrow> atxn option"

fun phase_of :: "log_pair \<Rightarrow> phase" where
  "phase_of (st, d) =
     (if st = ''ACTIVE'' then Active else if st = ''FLAG'' then Flagged
      else if st = ''EXPIRED'' then Expired else if st = ''WAITING'' then Waiting (atoi_val d)
      else if st = ''WRITING'' then Writing (atoi_val d) else Committed (atoi_val d))"

definition age_of :: "string \<Rightarrow> age" where
  "age_of z = (if z = ''FLAG'' then Marked else if z = ''EXPIRED'' then Old else Fresh)"

definition abs_txn :: "txn \<Rightarrow> atxn" where
  "abs_txn t = \<lparr>phase = (case om_find t (- 1) of Some p \<Rightarrow> phase_of p | None \<Rightarrow> Expired),
     age = (case om_find t 0 of Some p \<Rightarrow> age_of (fst p) | None \<Rightarrow> Fresh),
     target = (case om_find t 0 of Some p \<Rightarrow> snd p | None \<Rightarrow> []),
     writes = (\<lambda>q. if 1 \<le> q then map_option snd (om_find t q) else None)\<rparr>"

definition abs_log :: "log \<Rightarrow> store" where
  "abs_log l = (\<lambda>k. if server_key k then None else map_option abs_txn (om_find l k))"

text \<open>Every number up to \<open>n\<close>, and below any write that is there, has its write.\<close>

definition unbroken :: "(int \<Rightarrow> string option) \<Rightarrow> int \<Rightarrow> bool" where
  "unbroken w n \<longleftrightarrow> (\<forall>i. 1 \<le> i \<and> (i \<le> n \<or> (\<exists>j. w j \<noteq> None \<and> i \<le> j)) \<longrightarrow> w i \<noteq> None)"

section \<open>Abstract operations\<close>

datatype verdict =
    Done
  | Refuse string string string
  | Commit_now
  | Incomplete
  | Io_failure

text \<open>
  What an operation returns for a verdict: its value and \<open>code\<close>. An i/o failure is
  reported under the header of the commit that hit it.
\<close>

definition says :: "env \<Rightarrow> string \<Rightarrow> verdict \<Rightarrow> bool \<Rightarrow> string \<Rightarrow> bool" where
  "says E h v r code =
     (case v of
        Done \<Rightarrow> r \<and> code = []
      | Refuse mt c e \<Rightarrow> \<not> r \<and> genAnswerStr E mt h c e = Ok code
      | Commit_now \<Rightarrow> \<not> r \<and> code = ''committed''
      | Incomplete \<Rightarrow> \<not> r \<and> code = ''incomplete''
      | Io_failure \<Rightarrow> \<not> r \<and>
          (\<exists>h'. genAnswerStr E ''ERROR'' h' ''205'' ''commit fail, i/o error'' = Ok code))"

text \<open>A commit up to \<open>q\<close>: \<open>prim\<close> says who runs it, \<open>io\<close> whether the file write worked.\<close>

definition try_commit :: "bool \<Rightarrow> bool \<Rightarrow> int \<Rightarrow> atxn \<Rightarrow> verdict \<times> atxn" where
  "try_commit prim io q a =
     (if q < 1 then (Refuse ''WARNING'' ''404'' ''Nothing to commit, request ignored'', a)
      else if \<not> unbroken (writes a) q then (Incomplete, a\<lparr>phase := Waiting q\<rparr>)
      else if prim then (Commit_now, a\<lparr>phase := Writing q\<rparr>)
      else if io then (Commit_now, a\<lparr>phase := Committed q\<rparr>)
      else (Io_failure, a\<lparr>phase := Waiting q\<rparr>))"

definition commit_txn :: "bool \<Rightarrow> bool \<Rightarrow> int \<Rightarrow> atxn \<Rightarrow> verdict \<times> atxn" where
  "commit_txn prim io q a =
     (let other = Refuse ''ERROR'' ''202''
            ''Transaction was previously committed with a different sequence number''
      in case phase a of
        Committed n \<Rightarrow> (if n = q then Refuse ''ACK'' ''0'' ''Already committed'' else other, a)
      | Expired \<Rightarrow> (Refuse ''ERROR'' ''220'' ''Transaction expired, please start a new one.'', a)
      | Waiting n \<Rightarrow> if n = q then try_commit prim io q a else (other, a)
      | _ \<Rightarrow> try_commit prim io q a)"

definition write_txn :: "bool \<Rightarrow> bool \<Rightarrow> int \<Rightarrow> string \<Rightarrow> atxn \<Rightarrow> verdict \<times> atxn" where
  "write_txn prim io q x a =
     (let a' = a\<lparr>writes := (writes a)(q \<mapsto> x)\<rparr>;
          seen = Refuse ''WARNING'' ''301'' ''SeqNum for current tsnID already received, ignored''
      in case phase a of
        Committed n \<Rightarrow> (Refuse ''ERROR'' ''202'' ''Transaction was previously committed'', a)
      | Expired \<Rightarrow> (Refuse ''ERROR'' ''220'' ''Transaction expired, please start a new one.'', a)
      | Waiting n \<Rightarrow>
          if writes a q \<noteq> None then (seen, a)
          else if n < q
            then (Refuse ''ERROR'' ''202''
              ''Sequence number for write is higher than pending commit. Ignored.'', a)
          else if unbroken (writes a') n then try_commit prim io n a'
          else (Done, a')
      | _ \<Rightarrow> if writes a q \<noteq> None then (seen, a) else (Done, a'\<lparr>phase := Active\<rparr>))"

definition not_found :: verdict where
  "not_found = Refuse ''ERROR'' ''201'' ''Transaction ID not found''"

definition on_txn :: "(atxn \<Rightarrow> verdict \<times> atxn) \<Rightarrow> int \<Rightarrow> store \<Rightarrow> verdict \<times> store" where
  "on_txn f k m =
     (case m k of None \<Rightarrow> (not_found, m) | Some a \<Rightarrow> let (v, a') = f a in (v, m(k \<mapsto> a')))"

definition spec_commit :: "bool \<Rightarrow> bool \<Rightarrow> int \<Rightarrow> int \<Rightarrow> store \<Rightarrow> verdict \<times> store" where
  "spec_commit prim io k q = on_txn (commit_txn prim io q) k"

definition spec_write :: "bool \<Rightarrow> bool \<Rightarrow> int \<Rightarrow> int \<Rightarrow> string \<Rightarrow> store \<Rightarrow> verdict \<times> store" where
  "spec_write prim io k q x m =
     (if q < 1
      then (Refuse ''ERROR'' ''204'' ''Sequence number invalid: must be 1 or larger'', m)
      else on_txn (write_txn prim io q x) k m)"

definition spec_abort :: "int \<Rightarrow> store \<Rightarrow> verdict \<times> store" where
  "spec_abort k m =
     (case m k of
        None \<Rightarrow> (not_found, m)
      | Some a \<Rightarrow>
          (case phase a of
             Committed n \<Rightarrow> (Refuse ''ERROR'' ''202'' ''Transaction was previously committed'', m)
           | Expired \<Rightarrow> (Refuse ''ERROR'' ''220'' ''Transaction expired.'', m)
           | _ \<Rightarrow> (Done, m(k := None))))"

definition fresh_txn :: "string \<Rightarrow> atxn" where
  "fresh_txn f = \<lparr>phase = Active, age = Fresh, target = f, writes = Map.empty\<rparr>"

section \<open>The abstraction of the updates\<close>

lemma abs_txn_status [simp]:
  "abs_txn (om_put (- 1) p t) = (abs_txn t)\<lparr>phase := phase_of p\<rparr>"
  by (auto simp: abs_txn_def om_simps)

lemma abs_txn_write:
  assumes "om_ok t" "1 \<le> q" "om_find t q = None"
  shows "abs_txn (om_insert q (h, x) t) = (abs_txn t)\<lparr>writes := (writes (abs_txn t))(q \<mapsto> x)\<rparr>"
  using assms by (auto simp: abs_txn_def om_simps fun_eq_iff)

lemma abs_log_put [simp]:
  "\<not> server_key k \<Longrightarrow> abs_log (om_put k t l) = (abs_log l)(k \<mapsto> abs_txn t)"
  by (auto simp: abs_log_def om_simps fun_eq_iff)

lemma abs_with_status [simp]:
  "\<not> server_key k \<Longrightarrow>
     abs_log (with_status k p t l) = (abs_log l)(k \<mapsto> (abs_txn t)\<lparr>phase := phase_of p\<rparr>)"
  by (simp add: with_status_def)

lemma abs_log_erase:
  "om_ok l \<Longrightarrow> \<not> server_key k \<Longrightarrow> abs_log (om_erase k l) = (abs_log l)(k := None)"
  by (auto simp: abs_log_def om_simps fun_eq_iff)

lemma abs_log_find:
  "\<not> server_key k \<Longrightarrow> abs_log l k = map_option abs_txn (om_find l k)"
  by (simp add: abs_log_def)

lemma abs_phase:
  "om_find t (- 1) = Some p \<Longrightarrow> phase (abs_txn t) = phase_of p"
  by (simp add: abs_txn_def)

lemma writes_abs: "1 \<le> q \<Longrightarrow> writes (abs_txn t) q = map_option snd (om_find t q)"
  by (simp add: abs_txn_def)

text \<open>\<open>canCommit\<close> asks whether the writes are unbroken.\<close>

lemma missing_reach:
  assumes "has_base t" "1 \<le> i"
  shows "(i \<le> n \<or> (\<exists>j. writes (abs_txn t) j \<noteq> None \<and> i \<le> j)) \<longleftrightarrow> i \<le> max n (max_seq t)"
proof
  assume "i \<le> n \<or> (\<exists>j. writes (abs_txn t) j \<noteq> None \<and> i \<le> j)"
  then show "i \<le> max n (max_seq t)"
    using max_seq_bound [OF assms(1)] assms(2) by (fastforce simp: writes_abs)
next
  have top: "om_find t (max_seq t) \<noteq> None"
    using assms(1) by (auto simp: has_base_keys max_seq_def om_find_None_keys)
  assume "i \<le> max n (max_seq t)"
  then show "i \<le> n \<or> (\<exists>j. writes (abs_txn t) j \<noteq> None \<and> i \<le> j)"
    using top writes_abs [of "max_seq t" t] assms(2)
    by (cases "i \<le> n") (auto intro!: exI [of _ "max_seq t"])
qed

lemma missing_unbroken:
  assumes "has_base t"
  shows "missing t n = [] \<longleftrightarrow> unbroken (writes (abs_txn t)) n"
proof -
  have "missing t n = [] \<longleftrightarrow>
      (\<forall>i. 1 \<le> i \<and> i \<le> max n (max_seq t) \<longrightarrow> writes (abs_txn t) i \<noteq> None)"
    by (auto simp: missing_empty [OF assms] writes_abs)
  also have "\<dots> \<longleftrightarrow> unbroken (writes (abs_txn t)) n"
    unfolding unbroken_def using missing_reach [OF assms] by blast
  finally show ?thesis .
qed

lemma unbroken_stored_run:
  "unbroken (writes (abs_txn t)) n \<Longrightarrow> stored_run t n"
  by (auto simp: unbroken_def stored_run_def list_all_iff writes_abs)

end
