(* ===== verification/Log_Refinement.thy ===== *)
theory Log_Refinement
  imports Txn_Spec
begin

text \<open>
  \<open>LogHandler\<close> implements the abstract transactions: every call that returns on a
  well-formed log does what the abstract operation does, and leaves a well-formed log.
\<close>

abbreviation is_primary :: "log \<Rightarrow> bool" where
  "is_primary l \<equiv> getRole l = Ok ''primary''"

section \<open>The steps of a commit\<close>

lemma refuse_Ok [simp]:
  "refuse E h mt c e s = Ok (r, code, s') \<longleftrightarrow> \<not> r \<and> genAnswerStr E mt h c e = Ok code \<and> s' = s"
  by (auto simp: refuse_def)

lemma writeFile_log:
  "writeFile E tsn s = Ok (b, s') \<Longrightarrow> log_trans s' = log_trans s \<and> rng s' = rng s"
  by (auto simp: writeFile_def Let_def split: option.splits)

lemma commit_wait_Ok:
  assumes "om_find (log_trans s) tsn = Some t" "om_find t (- 1) = Some (st, d)"
    and "commit_wait E tsn seq s = Ok (r, c, s')"
  shows "\<not> r \<and> c = ''incomplete''
    \<and> log_trans s' = with_status tsn (''WAITING'', lex_str E seq) t (log_trans s)"
  using assms
  by (auto simp: commit_wait_def changeStatus_eval changeStatusData_eval om_simps dest!: save_Ok)

lemma commit_ready_Ok:
  assumes t: "om_find (log_trans s) tsn = Some t" "om_find t (- 1) = Some (st, d)"
    and k: "\<not> server_key tsn"
    and run: "commit_ready E h tsn seq s = Ok (r, c, s')"
  shows "\<not> r \<and>
    (if is_primary (log_trans s)
     then c = ''committed'' \<and> log_trans s' = with_status tsn (''WRITING'', lex_str E seq) t (log_trans s)
     else c = ''committed'' \<and> log_trans s' = with_status tsn (''COMMITTED'', lex_str E seq) t (log_trans s)
       \<or> genAnswerStr E ''ERROR'' h ''205'' ''commit fail, i/o error'' = Ok c
         \<and> log_trans s' = with_status tsn (''WAITING'', lex_str E seq) t (log_trans s))"
proof -
  let ?w = "with_status tsn (''WRITING'', lex_str E seq) t (log_trans s)"
  obtain s2 role where s2: "log_trans s2 = ?w" and role: "getRole (log_trans s) = Ok role"
    and rest: "(if role = ''primary'' then Ok (False, ''committed'', s2)
       else bnd (writeFile E tsn s2) (\<lambda>(written, s3).
         if written then
           bnd (changeStatus (log_trans s3) tsn ''COMMITTED'') (\<lambda>l3.
           bnd (save E (s3\<lparr>log_trans := l3\<rparr>)) (\<lambda>s4. Ok (False, ''committed'', s4)))
         else
           bnd (genAnswerStr E ''ERROR'' h ''205'' ''commit fail, i/o error'') (\<lambda>code.
           bnd (changeStatus (log_trans s3) tsn ''WAITING'') (\<lambda>l3.
           bnd (save E (s3\<lparr>log_trans := l3\<rparr>)) (\<lambda>s4. Ok (False, code, s4)))))) = Ok (r, c, s')"
    using run t k
    by (auto simp: commit_ready_def changeStatus_eval changeStatusData_eval om_simps dest!: save_Ok)
  have upd: "changeStatus ?w tsn st' = Ok (with_status tsn (st', lex_str E seq) t (log_trans s))" for st'
    by (subst changeStatus_eval [where t = "om_put (- 1) (''WRITING'', lex_str E seq) t"])
      (simp_all add: om_simps)
  show ?thesis
  proof (cases "role = ''primary''")
    case True
    with rest s2 role show ?thesis by auto
  next
    case False
    with rest s2 role show ?thesis
      by (auto simp: upd split: if_splits dest!: save_Ok writeFile_log)
  qed
qed

text \<open>What \<open>commit\<close> comes to once the transaction is found and its status known.\<close>

lemma commit_unfold:
  assumes "om_find (log_trans s) (getTsn E h) = Some t" "has_base t"
    and "om_find t (- 1) = Some (st, d)" "in_int32 (atoi_val d)"
  shows "commit E h s =
    (if st = ''COMMITTED'' \<and> atoi_val d = getSeq E h
       then refuse E h ''ACK'' ''0'' ''Already committed'' s
     else if st = ''EXPIRED''
       then refuse E h ''ERROR'' ''220'' ''Transaction expired, please start a new one.'' s
     else if (st = ''WAITING'' \<or> st = ''COMMITTED'') \<and> atoi_val d \<noteq> getSeq E h
       then refuse E h ''ERROR'' ''202''
         ''Transaction was previously committed with a different sequence number'' s
     else if getSeq E h < 1
       then refuse E h ''WARNING'' ''404'' ''Nothing to commit, request ignored'' s
     else if missing t (getSeq E h) = [] then commit_ready E h (getTsn E h) (getSeq E h) s
     else commit_wait E (getTsn E h) (getSeq E h) s)"
proof -
  have "atoi d = Ok (atoi_val d)" using assms(4) by (simp add: atoi_def)
  with assms(1-3) show ?thesis
    by (simp add: commit_def Let_def getStatus_eval getStatusData_eval canCommit_eval)
qed

definition attempt :: "env \<Rightarrow> string \<Rightarrow> txn \<Rightarrow> lstate \<Rightarrow> (bool \<times> string \<times> lstate) res" where
  "attempt E h t s =
     (if getSeq E h < 1
        then refuse E h ''WARNING'' ''404'' ''Nothing to commit, request ignored'' s
      else if missing t (getSeq E h) = [] then commit_ready E h (getTsn E h) (getSeq E h) s
      else commit_wait E (getTsn E h) (getSeq E h) s)"

lemma atoi_val_lex [simp]: "text_ok E \<Longrightarrow> in_int32 i \<Longrightarrow> atoi_val (lex_str E i) = i"
  using atoi_lex_str [of E i] by (simp add: atoi_Ok del: atoi_lex_str)

lemma attempt_sim:
  assumes E: "text_ok E" and wf: "wf_log (log_trans s)" and k: "\<not> server_key (getTsn E h)"
    and t: "om_find (log_trans s) (getTsn E h) = Some t" "om_find t (- 1) = Some (st, d)"
    and run: "attempt E h t s = Ok (r, c, s')"
  shows "\<exists>v io a'. try_commit (is_primary (log_trans s)) io (getSeq E h) (abs_txn t) = (v, a')
     \<and> abs_log (log_trans s') = (abs_log (log_trans s))(getTsn E h \<mapsto> a')
     \<and> says E h v r c \<and> wf_log (log_trans s')"
proof -
  let ?q = "getSeq E h" and ?k = "getTsn E h" and ?l = "log_trans s"
  have wt: "wf_txn t" and base: "has_base t"
    using wf_log_txn [OF wf t(1) k] by (simp_all add: wf_txn_base)
  have at: "atoi_val (lex_str E ?q) = ?q" "in_int32 ?q"
    using E by (simp_all add: getSeq_in32)
  have same: "(abs_log ?l)(?k \<mapsto> abs_txn t) = abs_log ?l"
    using t(1) k by (auto simp: abs_log_find fun_upd_idem)
  have wfw: "wf_log (with_status ?k (x, lex_str E ?q) t ?l)"
    if "x \<in> set statuses" "1 \<le> ?q" "x \<in> {''WRITING'', ''COMMITTED''} \<longrightarrow> stored_run t ?q" for x
    using that at by (intro wf_with_status [OF wf wt k]) (auto simp: wf_status_def)
  have goal: ?thesis
    if "try_commit (is_primary ?l) io ?q (abs_txn t) = (v, (abs_txn t)\<lparr>phase := phase_of (x, lex_str E ?q)\<rparr>)"
      "log_trans s' = with_status ?k (x, lex_str E ?q) t ?l" "says E h v r c"
      "x \<in> set statuses" "1 \<le> ?q" "x \<in> {''WRITING'', ''COMMITTED''} \<longrightarrow> stored_run t ?q"
    for io v x
    using that k wfw [OF that(4-6)] by (intro exI [of _ v] exI [of _ io] exI conjI) auto
  note sim = try_commit_def says_def statuses_def
  consider (low) "?q < 1" | (wait) "1 \<le> ?q" "missing t ?q \<noteq> []" | (go) "1 \<le> ?q" "missing t ?q = []"
    by force
  then show ?thesis
  proof cases
    case low
    with run show ?thesis
      by (auto simp: attempt_def try_commit_def says_def same wf)
  next
    case wait
    with run have "\<not> r \<and> c = ''incomplete'' \<and> log_trans s' = with_status ?k (''WAITING'', lex_str E ?q) t ?l"
      by (intro commit_wait_Ok [OF t]) (simp add: attempt_def)
    moreover have "\<not> unbroken (writes (abs_txn t)) ?q"
      using wait missing_unbroken [OF base] by simp
    ultimately show ?thesis
      using wait at by (intro goal [where x = "''WAITING''" and v = Incomplete]) (simp_all add: sim)
  next
    case go
    have run': "commit_ready E h ?k ?q s = Ok (r, c, s')"
      using run go by (simp add: attempt_def)
    have ub: "unbroken (writes (abs_txn t)) ?q"
      using go missing_unbroken [OF base] by simp
    note sr = unbroken_stored_run [OF ub]
    note go_Ok = commit_ready_Ok [OF t k run']
    show ?thesis
    proof (cases "is_primary ?l")
      case True
      with go_Ok ub sr at go show ?thesis
        by (intro goal [where x = "''WRITING''" and v = Commit_now]) (simp_all add: sim)
    next
      case False
      with go_Ok consider
        (ok) "\<not> r" "c = ''committed''" "log_trans s' = with_status ?k (''COMMITTED'', lex_str E ?q) t ?l"
      | (io) "\<not> r" "genAnswerStr E ''ERROR'' h ''205'' ''commit fail, i/o error'' = Ok c"
          "log_trans s' = with_status ?k (''WAITING'', lex_str E ?q) t ?l"
        by auto
      then show ?thesis
      proof cases
        case ok
        with False ub sr at go show ?thesis
          by (intro goal [where x = "''COMMITTED''" and v = Commit_now and io = True]) (simp_all add: sim)
      next
        case io
        then have "says E h Io_failure r c" by (auto simp: says_def)
        with io False ub at go show ?thesis
          by (intro goal [where x = "''WAITING''" and v = Io_failure and io = False])
            (simp_all add: try_commit_def statuses_def)
      qed
    qed
  qed
qed

section \<open>Commit\<close>

lemma commit_found:
  assumes E: "text_ok E" and wf: "wf_log (log_trans s)" and k: "\<not> server_key (getTsn E h)"
    and t: "om_find (log_trans s) (getTsn E h) = Some t"
    and run: "commit E h s = Ok (r, c, s')"
  shows "\<exists>v io a'. commit_txn (is_primary (log_trans s)) io (getSeq E h) (abs_txn t) = (v, a')
     \<and> abs_log (log_trans s') = (abs_log (log_trans s))(getTsn E h \<mapsto> a')
     \<and> says E h v r c \<and> wf_log (log_trans s')"
proof -
  have wt: "wf_txn t" by (rule wf_log_txn [OF wf t k])
  then obtain st d where p: "om_find t (- 1) = Some (st, d)" and ws: "wf_status t (st, d)"
    using wf_txn_status [OF wt] by (metis prod.exhaust_sel)
  have ph: "phase (abs_txn t) = phase_of (st, d)"
    by (rule abs_phase [OF p])
  have same: "(abs_log (log_trans s))(getTsn E h \<mapsto> abs_txn t) = abs_log (log_trans s)"
    using t k by (auto simp: abs_log_find fun_upd_idem)
  note unf = commit_unfold [OF t wf_txn_base [OF wt] p]
  have st: "st \<in> set statuses" "in_int32 (atoi_val d)"
    using ws by (simp_all add: wf_status_def)
  show ?thesis
  proof (cases "st = ''EXPIRED'' \<or> (st = ''COMMITTED'' \<or> st = ''WAITING'' \<and> atoi_val d \<noteq> getSeq E h)")
    case True
    with run unf [OF st(2)] ph show ?thesis
      by (auto simp: commit_txn_def says_def same wf Let_def split: if_splits)
  next
    case False
    with run unf [OF st(2)] have "attempt E h t s = Ok (r, c, s')"
      by (auto simp: attempt_def split: if_splits)
    note sim = attempt_sim [OF E wf k t p this]
    have "commit_txn prim io (getSeq E h) (abs_txn t) = try_commit prim io (getSeq E h) (abs_txn t)" for prim io
      using False st ph by (auto simp: commit_txn_def statuses_def Let_def)
    with sim show ?thesis by simp
  qed
qed

lemma commit_sim:
  assumes E: "text_ok E" and wf: "wf_log (log_trans s)" and k: "\<not> server_key (getTsn E h)"
    and run: "commit E h s = Ok (r, c, s')"
  shows "\<exists>v io. spec_commit (is_primary (log_trans s)) io (getTsn E h) (getSeq E h)
       (abs_log (log_trans s)) = (v, abs_log (log_trans s'))
     \<and> says E h v r c \<and> wf_log (log_trans s')"
proof (cases "om_find (log_trans s) (getTsn E h)")
  case None
  with run have "\<not> r" "genAnswerStr E ''ERROR'' h ''201'' ''Transaction ID not found'' = Ok c" "s' = s"
    by (simp_all add: commit_def)
  with None k wf show ?thesis
    by (auto simp: spec_commit_def on_txn_def abs_log_find not_found_def says_def)
next
  case (Some t)
  from commit_found [OF E wf k Some run] obtain v io a' where
    "commit_txn (is_primary (log_trans s)) io (getSeq E h) (abs_txn t) = (v, a')"
    "abs_log (log_trans s') = (abs_log (log_trans s))(getTsn E h \<mapsto> a')"
    "says E h v r c" "wf_log (log_trans s')"
    by blast
  with Some k show ?thesis
    by (intro exI [of _ v] exI [of _ io]) (simp add: spec_commit_def on_txn_def abs_log_find)
qed

section \<open>Write\<close>

lemma fake_header_fields [simp]:
  assumes "text_ok E" "in_int32 k" "in_int32 n"
  shows "getTsn E (fake_header E k n) = k" "getSeq E (fake_header E k n) = n"
    "length (tokens E (fake_header E k n)) = 5"
proof -
  have lit1: "tokens E (''empty'' @ tab # u) = ''empty'' # tokens E u" for u
    by (rule tokens_tab [OF assms(1)]) (simp add: plain_def)
  have lit2: "tokens E (''0'' @ tab # u) = ''0'' # tokens E u" for u
    by (rule tokens_tab [OF assms(1)]) (simp add: plain_def)
  have eq: "fake_header E k n = ''empty'' @ tab # (lex_str E k @ tab # (lex_str E n @ tab # (''0'' @ tab # [])))"
    by (simp add: fake_header_def iToS_def)
  have t: "tokens E (fake_header E k n) = [''empty'', lex_str E k, lex_str E n, ''0'', []]"
    unfolding eq using assms by (simp only: lit1 lit2 tokens_tab lex_str_plain tokens_Nil)
  show "getTsn E (fake_header E k n) = k" "getSeq E (fake_header E k n) = n"
    "length (tokens E (fake_header E k n)) = 5"
    using assms by (simp_all add: getTsn_def getSeq_def t)
qed

lemma stored_run_insert:
  "om_ok t \<Longrightarrow> stored_run t n \<Longrightarrow> stored_run (om_insert q p t) n"
  by (auto simp: stored_run_def list_all_iff om_simps)

lemma wf_txn_insert:
  assumes "wf_txn t" "1 \<le> q" shows "wf_txn (om_insert q p t)"
proof -
  have ok: "om_ok t" and base: "has_base t"
    using assms(1) by (auto simp: wf_txn_def has_base_iff)
  obtain p' where p': "om_find t (- 1) = Some p'" "wf_status t p'"
    using wf_txn_status [OF assms(1)] by blast
  have "wf_status (om_insert q p t) p'"
    using p'(2) stored_run_insert [OF ok] by (auto simp: wf_status_def)
  with p' ok assms(2) has_base_insert [OF base] show ?thesis
    by (simp add: wf_txn_def om_simps)
qed

lemma addLogEntry_unfold:
  assumes "om_find (log_trans s) (getTsn E h) = Some t" "om_find t (- 1) = Some (st, d)"
    and "in_int32 (atoi_val d)"
  shows "addLogEntry E h x s =
    (if getSeq E h < 1
       then refuse E h ''ERROR'' ''204'' ''Sequence number invalid: must be 1 or larger'' s
     else if st = ''COMMITTED''
       then refuse E h ''ERROR'' ''202'' ''Transaction was previously committed'' s
     else if st = ''EXPIRED''
       then refuse E h ''ERROR'' ''220'' ''Transaction expired, please start a new one.'' s
     else if om_find t (getSeq E h) \<noteq> None
       then refuse E h ''WARNING'' ''301'' ''SeqNum for current tsnID already received, ignored'' s
     else if st = ''WAITING'' \<and> atoi_val d < getSeq E h
       then refuse E h ''ERROR'' ''202''
         ''Sequence number for write is higher than pending commit. Ignored.'' s
     else store_entry E h x st (if st = ''WAITING'' then atoi_val d else 0) t s)"
proof -
  have "atoi d = Ok (atoi_val d)" using assms(3) by (simp add: atoi_def)
  with assms(1,2) show ?thesis
    by (simp add: addLogEntry_def Let_def getStatus_eval getStatusData_eval)
qed

text \<open>The write is stored; a transaction that waited for it commits.\<close>

lemma store_entry_sim:
  assumes E: "text_ok E" and wf: "wf_log (log_trans s)" and k: "\<not> server_key (getTsn E h)"
    and t: "om_find (log_trans s) (getTsn E h) = Some t" "om_find t (- 1) = Some (st, d)"
    and new: "1 \<le> getSeq E h" "om_find t (getSeq E h) = None"
    and st: "st \<noteq> ''COMMITTED''" "st \<noteq> ''EXPIRED''" "st = ''WAITING'' \<longrightarrow> getSeq E h \<le> atoi_val d"
    and run: "store_entry E h x st (if st = ''WAITING'' then atoi_val d else 0) t s = Ok (r, c, s')"
  shows "\<exists>v io a'. write_txn (is_primary (log_trans s)) io (getSeq E h) x (abs_txn t) = (v, a')
     \<and> abs_log (log_trans s') = (abs_log (log_trans s))(getTsn E h \<mapsto> a')
     \<and> says E h v r c \<and> wf_log (log_trans s')"
proof -
  let ?q = "getSeq E h" and ?k = "getTsn E h" and ?l = "log_trans s"
  let ?t1 = "om_insert ?q (h, x) t"
  let ?l1 = "om_put ?k ?t1 ?l" and ?a1 = "(abs_txn t)\<lparr>writes := (writes (abs_txn t))(?q \<mapsto> x)\<rparr>"
  have wt: "wf_txn t" by (rule wf_log_txn [OF wf t(1) k])
  have ok: "om_ok t" using wt by (simp add: wf_txn_def has_base_def)
  have ws: "wf_status t (st, d)" using wf_txn_status [OF wt] t(2) by auto
  have ph: "phase (abs_txn t) = phase_of (st, d)" by (rule abs_phase [OF t(2)])
  have wt1: "wf_txn ?t1" by (rule wf_txn_insert [OF wt new(1)])
  have a1: "abs_txn ?t1 = ?a1" by (rule abs_txn_write [OF ok new])
  have wf1: "wf_log ?l1" by (rule wf_log_put [OF wf wt1 k])
  have p1: "om_find ?t1 (- 1) = Some (st, d)" using t(2) ok new(1) by (simp add: om_simps)
  have free: "writes (abs_txn t) ?q = None" using new by (simp add: writes_abs)
  show ?thesis
  proof (cases "st = ''WAITING''")
    case False
    then have act: "st = ''ACTIVE'' \<or> st = ''FLAG'' \<or> st = ''WRITING''"
      using st by (cases rule: status_cases [OF ws]) simp_all
    have "log_trans s' = with_status ?k (''ACTIVE'', d) ?t1 ?l1" "r" "c = []"
      using run False p1 by (auto simp: store_entry_def om_simps changeStatus_eval Let_def)
    moreover have "wf_status ?t1 (''ACTIVE'', d)"
      using wf_status_int32 [OF ws] by (intro wf_status_idle) simp_all
    ultimately show ?thesis
      using act ph free k wf_with_status [OF wf1 wt1 k, of "(''ACTIVE'', d)"]
      by (auto simp: write_txn_def says_def Let_def a1)
  next
    case True
    then have n: "1 \<le> atoi_val d" "in_int32 (atoi_val d)"
      using ws by (auto simp: wf_status_def)
    have base1: "has_base ?t1" by (rule wf_txn_base [OF wt1])
    have can: "canCommit ?l1 ?k (atoi_val d) [] =
        Ok (unbroken (writes ?a1) (atoi_val d), missing ?t1 (atoi_val d))"
      using n canCommit_eval [of ?l1 ?k ?t1 "atoi_val d" "[]"] base1 missing_unbroken [OF base1] a1
      by (simp add: om_simps)
    have wr: "write_txn prim io ?q x (abs_txn t) =
        (if unbroken (writes ?a1) (atoi_val d) then try_commit prim io (atoi_val d) ?a1 else (Done, ?a1))"
      for prim io
      using True ph free st(3) by (auto simp: write_txn_def Let_def)
    show ?thesis
    proof (cases "unbroken (writes ?a1) (atoi_val d)")
      case False
      with True run can have "r" "c = []" "log_trans s' = ?l1"
        by (auto simp: store_entry_def Let_def)
      with False k a1 wf1 show ?thesis
        by (auto simp: wr says_def)
    next
      case ub: True
      let ?h' = "fake_header E ?k (atoi_val d)" and ?s1 = "s\<lparr>log_trans := ?l1\<rparr>"
      have f: "getTsn E ?h' = ?k" "getSeq E ?h' = atoi_val d"
        using E n by (simp_all add: getTsn_in32)
      have run1: "commit E ?h' ?s1 = Ok (r, c, s')"
        using True run can ub by (simp add: store_entry_def Let_def)
      have "\<exists>v io a'. commit_txn (is_primary ?l1) io (atoi_val d) ?a1 = (v, a')
          \<and> abs_log (log_trans s') = (abs_log ?l1)(?k \<mapsto> a')
          \<and> says E ?h' v r c \<and> wf_log (log_trans s')"
        using commit_found [OF E _ _ _ run1, of ?t1] wf1 k f a1 by (simp add: om_simps)
      moreover have "commit_txn prim io (atoi_val d) ?a1 = try_commit prim io (atoi_val d) ?a1" for prim io
        using True ph by (simp add: commit_txn_def)
      moreover have "says E ?h' v r c \<Longrightarrow> says E h v r c"
        if "try_commit prim io (atoi_val d) ?a1 = (v, a')" for v a' prim io
        using that n ub by (auto simp: try_commit_def says_def split: if_splits)
      ultimately show ?thesis
        using ub k by (simp add: wr) blast
    qed
  qed
qed

lemma write_sim:
  assumes E: "text_ok E" and wf: "wf_log (log_trans s)" and k: "\<not> server_key (getTsn E h)"
    and run: "addLogEntry E h x s = Ok (r, c, s')"
  shows "\<exists>v io. spec_write (is_primary (log_trans s)) io (getTsn E h) (getSeq E h) x
       (abs_log (log_trans s)) = (v, abs_log (log_trans s'))
     \<and> says E h v r c \<and> wf_log (log_trans s')"
proof (cases "om_find (log_trans s) (getTsn E h)")
  case None
  with run k wf show ?thesis
    by (auto simp: addLogEntry_def Let_def spec_write_def on_txn_def abs_log_find not_found_def
        says_def split: if_splits)
next
  case (Some t)
  have wt: "wf_txn t" by (rule wf_log_txn [OF wf Some k])
  then obtain st d where p: "om_find t (- 1) = Some (st, d)" and ws: "wf_status t (st, d)"
    using wf_txn_status [OF wt] by (metis prod.exhaust_sel)
  have ph: "phase (abs_txn t) = phase_of (st, d)" by (rule abs_phase [OF p])
  have at: "abs_log (log_trans s) (getTsn E h) = Some (abs_txn t)"
    using Some k by (simp add: abs_log_find)
  have st: "st \<in> set statuses" "in_int32 (atoi_val d)" using ws by (simp_all add: wf_status_def)
  note unf = addLogEntry_unfold [OF Some p st(2), of x]
  have seen: "1 \<le> getSeq E h \<Longrightarrow> writes (abs_txn t) (getSeq E h) = None \<longleftrightarrow> om_find t (getSeq E h) = None"
    by (simp add: writes_abs)
  show ?thesis
  proof (cases "getSeq E h < 1 \<or> st = ''COMMITTED'' \<or> st = ''EXPIRED'' \<or> om_find t (getSeq E h) \<noteq> None
      \<or> st = ''WAITING'' \<and> atoi_val d < getSeq E h")
    case True
    show ?thesis
    proof (cases "getSeq E h < 1")
      case True
      with run unf show ?thesis by (auto simp: spec_write_def says_def wf)
    next
      case False
      have "\<exists>v. write_txn prim io (getSeq E h) x (abs_txn t) = (v, abs_txn t) \<and> says E h v r c \<and> s' = s" for prim io
        using ws
      proof (cases rule: status_cases)
        case 3
        with False run unf ph show ?thesis by (auto simp: write_txn_def says_def)
      next
        case 4
        with True False run unf ph seen show ?thesis
          by (auto simp: write_txn_def says_def Let_def split: if_splits)
      next
        case 6
        with False run unf ph show ?thesis by (auto simp: write_txn_def says_def)
      qed (use True False run unf ph seen in \<open>simp_all add: write_txn_def says_def Let_def\<close>)
      then obtain v where "write_txn (is_primary (log_trans s)) False (getSeq E h) x (abs_txn t) = (v, abs_txn t)"
        "says E h v r c" "s' = s"
        by blast
      with False at wf show ?thesis
        by (intro exI [of _ v] exI [of _ False]) (simp add: spec_write_def on_txn_def fun_upd_idem)
    qed
  next
    case False
    then have "store_entry E h x st (if st = ''WAITING'' then atoi_val d else 0) t s = Ok (r, c, s')"
      using run unf by (simp split: if_splits)
    then obtain v io a' where "write_txn (is_primary (log_trans s)) io (getSeq E h) x (abs_txn t) = (v, a')"
      "abs_log (log_trans s') = (abs_log (log_trans s))(getTsn E h \<mapsto> a')"
      "says E h v r c" "wf_log (log_trans s')"
      using store_entry_sim [OF E wf k Some p] False by (metis not_less)
    with False at show ?thesis
      by (intro exI [of _ v] exI [of _ io]) (simp add: spec_write_def on_txn_def)
  qed
qed

section \<open>Abort\<close>

lemma abort_sim:
  assumes wf: "wf_log (log_trans s)" and k: "\<not> server_key (getTsn E h)"
    and run: "abort_txn E h s = Ok (r, c, s')"
  shows "\<exists>v. spec_abort (getTsn E h) (abs_log (log_trans s)) = (v, abs_log (log_trans s'))
     \<and> says E h v r c \<and> wf_log (log_trans s')"
proof (cases "om_find (log_trans s) (getTsn E h)")
  case None
  with run k wf show ?thesis
    by (auto simp: abort_txn_def spec_abort_def abs_log_find not_found_def says_def)
next
  case (Some t)
  have wt: "wf_txn t" by (rule wf_log_txn [OF wf Some k])
  then obtain st d where p: "om_find t (- 1) = Some (st, d)" and ws: "wf_status t (st, d)"
    using wf_txn_status [OF wt] by (metis prod.exhaust_sel)
  have ph: "phase (abs_txn t) = phase_of (st, d)" by (rule abs_phase [OF p])
  have st: "st \<in> set statuses" using ws by (simp add: wf_status_def)
  show ?thesis
    using run k wf st ph Some getStatus_eval [OF Some p] wf_log_erase [OF wf k]
    by (auto simp: abort_txn_def spec_abort_def abs_log_find says_def statuses_def
        abs_log_erase wf_log_ok Let_def split: if_splits)
qed

end
