(* ===== verification/Log_Lifecycle.thy ===== *)
theory Log_Lifecycle
  imports Log_Refinement
begin

text \<open>
  The life of a transaction outside its client calls: its creation, the rounds of the
  timeout check, the write of its data to disk, and the log's own survival of a restart.
\<close>

section \<open>Timeouts\<close>

text \<open>One round for an abstract transaction, and when the code would delete it.\<close>

definition tick :: "atxn \<Rightarrow> atxn" where
  "tick a =
     (case phase a of
        Active \<Rightarrow> a\<lparr>phase := Flagged\<rparr>
      | Flagged \<Rightarrow> a\<lparr>phase := Expired\<rparr>
      | Waiting n \<Rightarrow> a\<lparr>age := (if age a = Marked then Old else Marked)\<rparr>
      | _ \<Rightarrow> a)"

definition reaped :: "atxn \<Rightarrow> bool" where
  "reaped a \<longleftrightarrow> (case phase a of Expired \<Rightarrow> True | Waiting n \<Rightarrow> age a = Old | _ \<Rightarrow> False)"

definition tick_store :: "int list \<Rightarrow> store \<Rightarrow> store" where
  "tick_store ks m = (\<lambda>k. if k \<in> set ks \<and> 0 \<le> k then map_option tick (m k) else m k)"

definition reaps :: "int list \<Rightarrow> store \<Rightarrow> bool" where
  "reaps ks m \<longleftrightarrow> list_ex (\<lambda>k. 0 \<le> k \<and> (case m k of Some a \<Rightarrow> reaped a | None \<Rightarrow> False)) ks"

lemma abs_txn_mark [simp]:
  "om_find t 0 = Some (z, f) \<Longrightarrow> abs_txn (om_put 0 (z', f) t) = (abs_txn t)\<lparr>age := age_of z'\<rparr>"
  by (auto simp: abs_txn_def om_simps)

lemma wf_txn_mark:
  assumes "wf_txn t" shows "wf_txn (om_put 0 p t)"
proof -
  obtain q where q: "om_find t (- 1) = Some q" "wf_status t q"
    using wf_txn_status [OF assms] by blast
  have "stored_run t n \<Longrightarrow> stored_run (om_put 0 p t) n" for n
    by (simp add: stored_run_def list_all_iff om_simps)
  with q have "wf_status (om_put 0 p t) q" by (simp add: wf_status_def)
  with q show ?thesis
    using has_base_put [OF wf_txn_base [OF assms], of 0 p] by (simp add: wf_txn_def om_simps)
qed

lemma timeout_one_eval:
  assumes "om_find l k = Some t" "om_find t (- 1) = Some (st, d)" "om_find t 0 = Some (z, f)" "0 \<le> k"
  shows "timeout_one l k =
    (if st = ''ACTIVE'' then Ok (with_status k (''FLAG'', d) t l)
     else if st = ''FLAG'' then Ok (with_status k (''EXPIRED'', d) t l)
     else if st = ''EXPIRED'' then Stop Undefined
     else if st = ''COMMITTED'' then Ok l
     else if st = ''WAITING'' then
       (if z = ''FLAG'' then Ok (om_put k (om_put 0 (''EXPIRED'', f) t) l)
        else if z = ''EXPIRED'' then Stop Undefined
        else Ok (om_put k (om_put 0 (''FLAG'', f) t) l))
     else if st = ''WRITING'' \<or> st = ''backup'' \<or> st = ''primary'' then Ok l
     else Ok (with_status k (''FLAG'', d) t l))"
proof -
  have "getStatus l k = Ok st" "getStatusZ l k = Ok z"
    "changeStatus l k x = Ok (with_status k (x, d) t l)"
    "changeStatusZ l k y = Ok (om_put k (om_put 0 (y, f) t) l)" for x y
    using assms by (simp_all add: getStatus_eval changeStatus_eval getStatusZ_def changeStatusZ_def)
  with assms show ?thesis by (simp only: timeout_one_def) simp
qed

lemma timeout_server:
  assumes "wf_log l" "server_key k" shows "timeout_one l k = Ok l"
proof (cases "k = 0")
  case True
  obtain t r d where t: "om_find l 0 = Some t" "has_base t" "om_find t (- 1) = Some (r, d)"
    and r: "r = ''primary'' \<or> r = ''backup''"
    using wf_log_role [OF assms(1)] by blast
  obtain z f where "om_find t 0 = Some (z, f)"
    using t(2) by (auto simp: has_base_iff)
  from timeout_one_eval [OF t(1,3) this] r True show ?thesis by auto
next
  case False
  with assms(2) show ?thesis by (simp add: timeout_one_def server_key_def)
qed

lemma timeout_one_sim:
  assumes wf: "wf_log l" and t: "om_find l k = Some t" and k: "\<not> server_key k" "0 \<le> k"
  shows "if reaped (abs_txn t) then timeout_one l k = Stop Undefined
    else \<exists>l'. timeout_one l k = Ok l' \<and> wf_log l' \<and> abs_log l' = (abs_log l)(k \<mapsto> tick (abs_txn t))"
proof -
  have wt: "wf_txn t" by (rule wf_log_txn [OF wf t k(1)])
  then obtain st d where p: "om_find t (- 1) = Some (st, d)" and ws: "wf_status t (st, d)"
    using wf_txn_status [OF wt] by (metis prod.exhaust_sel)
  obtain z f where z: "om_find t 0 = Some (z, f)"
    using wf_txn_base [OF wt] by (auto simp: has_base_iff)
  have ph: "phase (abs_txn t) = phase_of (st, d)" "age (abs_txn t) = age_of z"
    using p z by (simp_all add: abs_txn_def)
  have same: "(abs_log l)(k \<mapsto> abs_txn t) = abs_log l"
    using t k by (auto simp: abs_log_find fun_upd_idem)
  have moved: "wf_log (with_status k (x, d) t l)" if "x = ''FLAG'' \<or> x = ''EXPIRED''" for x
    using that wf_status_int32 [OF ws] by (intro wf_with_status [OF wf wt k(1)] wf_status_idle) blast+
  have marked: "wf_log (om_put k (om_put 0 x t) l)" for x
    by (intro wf_log_put [OF wf _ k(1)] wf_txn_mark wt)
  note ev = timeout_one_eval [OF t p z k(2)]
  from ws show ?thesis
  proof (cases rule: status_cases)
    case 1
    then show ?thesis by (simp add: ev ph tick_def reaped_def moved k)
  next
    case 2
    then show ?thesis by (simp add: ev ph tick_def reaped_def moved k)
  next
    case 3
    then show ?thesis by (simp add: ev ph reaped_def)
  next
    case 4
    then show ?thesis
      using z by (simp add: ev ph tick_def reaped_def marked k age_of_def)
  next
    case 5
    then show ?thesis by (simp add: ev ph tick_def reaped_def wf same)
  next
    case 6
    then show ?thesis by (simp add: ev ph tick_def reaped_def wf same)
  qed
qed

text \<open>
  The whole loop: it is undefined as soon as one transaction is due for deletion, and ages
  every transaction otherwise.
\<close>

lemma timeouts_loop_sim:
  assumes "wf_log l" "distinct ks"
  shows "if reaps ks (abs_log l) then timeouts_loop ks l = Stop Undefined
    else \<exists>l'. timeouts_loop ks l = Ok l' \<and> wf_log l' \<and> abs_log l' = tick_store ks (abs_log l)"
  using assms
proof (induction ks arbitrary: l)
  case (Cons k ks)
  have untouched: ?case if "timeout_one l k = Ok l" "abs_log l k = None \<or> k < 0"
  proof -
    have "reaps (k # ks) (abs_log l) = reaps ks (abs_log l)"
      using that(2) by (auto simp: reaps_def)
    moreover have "tick_store (k # ks) (abs_log l) = tick_store ks (abs_log l)"
      using that(2) by (auto simp: tick_store_def fun_eq_iff)
    ultimately show ?thesis
      using that(1) Cons.IH [of l] Cons.prems by simp
  qed
  consider (server) "server_key k" | (absent) "om_find l k = None" | (neg) "k < 0"
    | (txn) t where "\<not> server_key k" "0 \<le> k" "om_find l k = Some t"
    by (metis not_le not_None_eq)
  then show ?case
  proof cases
    case server
    with Cons.prems(1) timeout_server show ?thesis
      by (intro untouched) (auto simp: abs_log_def)
  next
    case absent
    then show ?thesis by (intro untouched) (auto simp: abs_log_def timeout_one_def)
  next
    case neg
    then show ?thesis by (intro untouched) (auto simp: timeout_one_def)
  next
    case txn
    have a: "abs_log l k = Some (abs_txn t)" using txn by (simp add: abs_log_find)
    show ?thesis
    proof (cases "reaped (abs_txn t)")
      case True
      with timeout_one_sim [OF Cons.prems(1) txn(3,1,2)] a txn(2) show ?thesis
        by (simp add: reaps_def)
    next
      case False
      with timeout_one_sim [OF Cons.prems(1) txn(3,1,2)] obtain l1 where
        l1: "timeout_one l k = Ok l1" "wf_log l1" "abs_log l1 = (abs_log l)(k \<mapsto> tick (abs_txn t))"
        by auto
      have nin: "k \<notin> set ks" using Cons.prems(2) by simp
      have "reaps (k # ks) (abs_log l) = reaps ks (abs_log l1)"
        using False a nin by (auto simp: reaps_def list_ex_iff l1(3))
      moreover have "tick_store (k # ks) (abs_log l) = tick_store ks (abs_log l1)"
        using a nin txn(2) by (auto simp: tick_store_def l1(3) fun_eq_iff)
      ultimately show ?thesis
        using l1(1,2) Cons.IH [of l1] Cons.prems(2) by (simp del: fun_upd_apply)
    qed
  qed
qed (simp add: reaps_def tick_store_def)

lemma abs_log_keys: "abs_log l k \<noteq> None \<Longrightarrow> k \<in> set (om_keys l)"
  by (auto simp: abs_log_def om.keys_iff split: if_splits)

lemma tick_store_all:
  "tick_store (om_keys l) (abs_log l) = (\<lambda>k. if 0 \<le> k then map_option tick (abs_log l k) else abs_log l k)"
proof
  show "tick_store (om_keys l) (abs_log l) k =
      (if 0 \<le> k then map_option tick (abs_log l k) else abs_log l k)" for k
    using abs_log_keys [of l k] by (cases "abs_log l k") (auto simp: tick_store_def)
qed

lemma timeouts_sim:
  assumes wf: "wf_log (log_trans s)" and run: "timeouts E s = Ok s'"
  shows "wf_log (log_trans s') \<and> abs_log (log_trans s') = tick_store (om_keys (log_trans s)) (abs_log (log_trans s))"
  using timeouts_loop_sim [OF wf om.keys_distinct [OF wf_log_ok [OF wf]]] run
  by (auto simp: timeouts_def split: if_splits dest!: save_Ok)

lemma timeouts_undefined:
  assumes wf: "wf_log (log_trans s)"
  shows "timeouts E s = Stop Undefined \<longleftrightarrow> reaps (om_keys (log_trans s)) (abs_log (log_trans s))"
  using timeouts_loop_sim [OF wf om.keys_distinct [OF wf_log_ok [OF wf]]]
  by (auto simp: timeouts_def save_def bnd_eq_Stop split: if_splits option.splits)

section \<open>New transactions\<close>

lemma draw_tsn_result:
  assumes ret: "draw_tsn E l k = Some r"
  shows "case r of (rn, k') \<Rightarrow> om_find l rn = None \<and> k < k' \<and> rn = uniform E 100000 (k' - 1)"
proof (rule draw_tsn.raw_induct [where P = "\<lambda>E l k r. case r of (rn, k') \<Rightarrow>
      om_find l rn = None \<and> k < k' \<and> rn = uniform E 100000 (k' - 1)", OF _ ret])
  fix f :: "env \<Rightarrow> log \<Rightarrow> nat \<Rightarrow> (int \<times> nat) option" and E l k r
  assume IH: "\<And>E l k r. f E l k = Some r \<Longrightarrow>
      (case r of (rn, k') \<Rightarrow> om_find l rn = None \<and> k < k' \<and> rn = uniform E 100000 (k' - 1))"
    and eq: "(let (rn, k') = randomNum E 100000 k
       in if om_find l rn \<noteq> None then f E l k' else Some (rn, k')) = Some r"
  show "case r of (rn, k') \<Rightarrow> om_find l rn = None \<and> k < k' \<and> rn = uniform E 100000 (k' - 1)"
  proof (cases "om_find l (uniform E 100000 k) = None")
    case True
    with eq show ?thesis by (auto simp: randomNum_def)
  next
    case False
    with eq have "f E l (Suc k) = Some r" by (auto simp: randomNum_def)
    from IH [OF this] show ?thesis by auto
  qed
qed

text \<open>The draw ends as soon as the generator offers a number that is free.\<close>

lemma draw_tsn_returns:
  assumes "om_find l (uniform E 100000 (k + j)) = None"
  shows "\<exists>r. draw_tsn E l k = Some r"
  using assms
proof (induction j arbitrary: k)
  case 0
  then show ?case by (subst draw_tsn.simps) (simp add: randomNum_def)
next
  case (Suc j)
  then have "\<exists>r. draw_tsn E l (Suc k) = Some r" by simp
  then show ?case by (subst draw_tsn.simps) (auto simp: randomNum_def)
qed

lemma open_txn_fresh:
  "om_find l k = None \<Longrightarrow>
     open_txn k f l = om_put k [(- 1, (''ACTIVE'', ''0'')), (0, (''NEW_TXN'', f))] l"
  by (simp add: open_txn_def)

lemma wf_fresh: "wf_txn [(- 1, (''ACTIVE'', ''0'')), (0, (''NEW_TXN'', f))]"
  by (simp add: wf_txn_def wf_status_def has_base_def statuses_def in_int32_def atoi_val_def
      is_space_def is_digit_def digit_val_def)

lemma abs_fresh: "abs_txn [(- 1, (''ACTIVE'', ''0'')), (0, (''NEW_TXN'', f))] = fresh_txn f"
  by (auto simp: abs_txn_def fresh_txn_def age_of_def fun_eq_iff)

lemma open_txn_sim:
  assumes "wf_log l" "om_find l k = None" "\<not> server_key k"
  shows "wf_log (open_txn k f l) \<and> abs_log (open_txn k f l) = (abs_log l)(k \<mapsto> fresh_txn f)"
  using assms by (simp add: open_txn_fresh wf_log_put wf_fresh abs_fresh)

lemma newTxn_sim:
  assumes R: "random_ok E" and wf: "wf_log (log_trans s)" and name: "posix_name E f"
    and run: "newTxn E f s = Ok (rn, s')"
  shows "1 \<le> rn \<and> rn \<le> 100000 \<and> abs_log (log_trans s) rn = None
    \<and> abs_log (log_trans s') = (abs_log (log_trans s))(rn \<mapsto> fresh_txn f) \<and> wf_log (log_trans s')"
proof -
  obtain k where d: "draw_tsn E (log_trans s) (rng s) = Some (rn, k)"
    and s': "log_trans s' = open_txn rn f (log_trans s)"
    using run name by (auto simp: newTxn_def split: option.splits dest!: save_Ok)
  from draw_tsn_result [OF d] have free: "om_find (log_trans s) rn = None"
    and rn: "rn = uniform E 100000 (k - 1)" by auto
  have "1 \<le> rn" "rn \<le> 100000" using R by (simp_all add: random_ok_def rn)
  moreover from this have "\<not> server_key rn" by (simp add: server_key_def)
  ultimately show ?thesis
    using open_txn_sim [OF wf free] free s' by (simp add: abs_log_find)
qed

lemma makeTxn_sim:
  assumes wf: "wf_log (log_trans s)" and k: "\<not> server_key k"
    and run: "makeTxn E f k s = Ok (b, s')"
  shows "wf_log (log_trans s') \<and> b = (abs_log (log_trans s) k = None)
    \<and> abs_log (log_trans s') = (if b then (abs_log (log_trans s))(k \<mapsto> fresh_txn f) else abs_log (log_trans s))"
  using run wf k open_txn_sim [OF wf _ k]
  by (auto simp: makeTxn_def abs_log_find split: if_splits dest!: save_Ok)

section \<open>Writing a transaction to its file\<close>

text \<open>The text a commit appends: every write up to \<open>n\<close>, in order, each on its line.\<close>

definition txn_text :: "atxn \<Rightarrow> int \<Rightarrow> string" where
  "txn_text a n = concat (map (\<lambda>q. (case writes a q of Some x \<Rightarrow> x | None \<Rightarrow> []) @ [nl]) [1..n])"

lemma collect_data_eval:
  assumes "om_find l k = Some t" "\<forall>q \<in> set qs. 1 \<le> q \<and> om_find t q \<noteq> None"
  shows "collect_data l k qs =
    Ok (concat (map (\<lambda>q. (case writes (abs_txn t) q of Some x \<Rightarrow> x | None \<Rightarrow> []) @ [nl]) qs))"
  using assms by (induction qs) (auto simp: getData_def writes_abs)

lemma stored_run_collect:
  assumes "om_find l k = Some t" "stored_run t n"
  shows "collect_data l k [1..n] = Ok (txn_text (abs_txn t) n)"
  using assms by (simp add: txn_text_def stored_run_def list_all_iff collect_data_eval)

lemma writeFile_run:
  assumes F: "files_ok E" and t: "om_find (log_trans s) k = Some t" "has_base t"
    and p: "om_find t (- 1) = Some (st, d)" "atoi d = Ok n" and run: "stored_run t n"
    and ret: "writeFile E k s = Ok (b, s')"
  shows "log_trans s' = log_trans s \<and>
    (b \<longrightarrow> file_text (files s') (target (abs_txn t)) =
        file_text (files s) (target (abs_txn t)) @ txn_text (abs_txn t) n)
    \<and> (\<not> b \<longrightarrow> file_text (files s') (target (abs_txn t)) = file_text (files s) (target (abs_txn t)))
    \<and> (\<forall>q. q \<noteq> target (abs_txn t) \<longrightarrow> files s' q = files s q)"
proof -
  let ?f = "target (abs_txn t)"
  obtain z f where z: "om_find t 0 = Some (z, f)" using t(2) by (auto simp: has_base_iff)
  then have f: "?f = f" by (simp add: abs_txn_def)
  define d1 where "d1 = created E (files s) f"
  have d1: "file_text d1 f = file_text (files s) f" "\<forall>q. q \<noteq> f \<longrightarrow> d1 q = files s q"
    by (auto simp: d1_def created_def file_text_def split: option.splits fentry.splits)
  have ev: "getFileName (log_trans s) k = Ok f" "getStatusData (log_trans s) k = Ok n"
    using t(1) z p by (simp_all add: getFileName_def getStatusData_eval)
  have qs: "seq_range n = Ok [1..n]"
    using ret by (auto simp: writeFile_def ev Let_def seq_range_def split: if_splits)
  have res: "(case fd_sink E True f (txn_text (abs_txn t) n) d1 of
      Some d2 \<Rightarrow> Ok (True, s\<lparr>files := d2\<rparr>) | None \<Rightarrow> Ok (False, s\<lparr>files := d1\<rparr>)) = Ok (b, s')"
    using ret stored_run_collect [OF t(1) run]
    unfolding d1_def by (simp add: writeFile_def ev qs Let_def)
  show ?thesis
  proof (cases "fd_sink E True f (txn_text (abs_txn t) n) d1")
    case None
    with res d1 f show ?thesis by auto
  next
    case (Some d2)
    have d2: "d2 = d1(f \<mapsto> File (file_text d1 f @ txn_text (abs_txn t) n))"
      using F Some unfolding files_ok_def by (rule file_lib.sink_app)
    with Some res d1 f show ?thesis by (auto simp: file_text_def)
  qed
qed

section \<open>Restart\<close>

text \<open>A log that was saved is the log the next start loads, whatever else is on the disk.\<close>

lemma save_then_load:
  assumes "archive_ok E" "files_ok E" "save E s = Ok s'" "os_read E (files s') fileName"
  shows "LogHandler_init E (files s') k =
    Ok \<lparr>log_trans = log_trans s, files = files s', rng = k\<rparr>"
proof -
  have f: "files s' fileName = Some (File (oarchive E (log_trans s)))"
    using save_files [OF assms(2,3)] by simp
  then have "checkPath (files s') fileName = (True, ''file'')"
    "file_text (files s') fileName = oarchive E (log_trans s)"
    by (simp_all add: checkPath_def file_text_def)
  with assms(1,4) show ?thesis
    by (simp add: LogHandler_init_def archive_ok_def)
qed

end
