(* ===== verification/Replication_Facts.thy ===== *)
theory Replication_Facts
  imports Replication Log_Lifecycle
begin

text \<open>
  What the replication manager leaves alone and what it promises: the log keeps every
  transaction, the queue goes out in order, a commit that counts as done was acknowledged
  or queued, and more fuel never changes a result.
\<close>

section \<open>Frame\<close>

text \<open>
  The manager's own work never touches the files nor a transaction; at most the entry of the
  registered backup goes.
\<close>

definition stays :: "lstate \<Rightarrow> lstate \<Rightarrow> bool" where
  "stays s s' \<longleftrightarrow> files s' = files s \<and> rng s' = rng s \<and>
     (om_ok (log_trans s) \<longrightarrow> om_ok (log_trans s') \<and>
       (\<forall>k. om_find (log_trans s') k = om_find (log_trans s) k
          \<or> k = - 1 \<and> om_find (log_trans s') k = None))"

lemma stays_refl [simp]: "stays s s"
  by (simp add: stays_def)

lemma stays_trans [trans]: "stays a b \<Longrightarrow> stays b c \<Longrightarrow> stays a c"
  by (auto simp: stays_def) metis+

lemma stays_find:
  assumes "stays s s'" "om_ok (log_trans s)" "k \<noteq> - 1"
  shows "om_find (log_trans s') k = om_find (log_trans s) k"
  using assms unfolding stays_def by metis

lemma stays_entry:
  "stays s s' \<Longrightarrow> om_ok (log_trans s) \<Longrightarrow> k \<noteq> - 1 \<Longrightarrow> entry (log_trans s') k q = entry (log_trans s) k q"
  by (simp add: entry_def stays_find)

lemma stays_role: "stays s s' \<Longrightarrow> om_ok (log_trans s) \<Longrightarrow> getRole (log_trans s') = getRole (log_trans s)"
  by (simp add: getRole_def stays_entry)

lemma stays_abs: "stays s s' \<Longrightarrow> om_ok (log_trans s) \<Longrightarrow> abs_log (log_trans s') = abs_log (log_trans s)"
  by (auto simp: abs_log_def server_key_def fun_eq_iff stays_find)

lemma stays_wf:
  assumes "stays s s'" "wf_log (log_trans s)" shows "wf_log (log_trans s')"
proof -
  have ok: "om_ok (log_trans s)" by (rule wf_log_ok [OF assms(2)])
  then have ok': "om_ok (log_trans s')" using assms(1) by (simp add: stays_def)
  have f: "om_find (log_trans s') k = om_find (log_trans s) k" if "k \<noteq> - 1" for k
    by (rule stays_find [OF assms(1) ok that])
  have b: "om_find (log_trans s') (- 1) = om_find (log_trans s) (- 1) \<or> om_find (log_trans s') (- 1) = None"
    using assms(1) ok unfolding stays_def by metis
  have "server_key k \<or> (case om_find (log_trans s') k of Some t \<Rightarrow> wf_txn t | None \<Rightarrow> True)" for k
  proof (cases "server_key k")
    case False
    then have "om_find (log_trans s') k = om_find (log_trans s) k"
      by (intro f) (simp add: server_key_def)
    with False wf_log_txn [OF assms(2), of k] show ?thesis
      by (cases "om_find (log_trans s) k") simp_all
  qed simp
  then have "list_all (\<lambda>k. server_key k \<or> (case om_find (log_trans s') k of Some t \<Rightarrow> wf_txn t | None \<Rightarrow> True))
      (om_keys (log_trans s'))"
    unfolding list_all_iff by blast
  with assms(2) ok' b f [of 0] show ?thesis
    unfolding wf_log_def by auto
qed

lemma stays_node [simp]:
  "lh (upd_rm f n) = lh n" "lh (close_node N n) = lh n" "lh (redirect ip port n) = lh n"
  "rm (set_log l n) = rm n" "wld (set_log l n) = wld n" "node_log (set_log l n) = l"
  "files (lh (set_log l n)) = files (lh n)" "rng (lh (set_log l n)) = rng (lh n)"
  "wld (upd_rm f n) = wld n" "rm (close_node N n) = rm n" "rm (upd_rm f n) = f (rm n)"
  by (simp_all add: upd_rm_def close_node_def redirect_def set_log_def)

lemma enqueue_lh: "enqueue h d n = Ok n' \<Longrightarrow> lh n' = lh n"
  by (auto simp: enqueue_def)

lemma connect_lh: "connect_node E N n = (b, n') \<Longrightarrow> lh n' = lh n"
  by (auto simp: connect_node_def split: prod.splits)

lemma push_queue_lh: "push_queue E N n = Ok n' \<Longrightarrow> lh n' = lh n"
  by (auto simp: push_queue_def)

lemma commit_lost_lh: "commit_lost h n = Ok m \<Longrightarrow> \<exists>n'. m = Return True n' \<and> lh n' = lh n"
  by (auto simp: commit_lost_def dest: enqueue_lh)

lemma enqueue_writes_lh: "enqueue_writes k qs n = Ok n' \<Longrightarrow> lh n' = lh n"
  by (induction qs arbitrary: n) (auto dest!: enqueue_lh)

fun move_node :: "'w move \<Rightarrow> 'w node" where
  "move_node (Return b n) = n" | "move_node (Loop n) = n" | "move_node (Resend n) = n"

lemma kill_primary_lh: "kill_primary E N h n = Ok m \<Longrightarrow> lh (move_node m) = lh n"
  by (auto simp: kill_primary_def Let_def split: prod.splits if_splits dest!: commit_lost_lh)

lemma commit_reply_lh: "commit_reply E N h bm r n = Ok m \<Longrightarrow> lh (move_node m) = lh n"
  by (auto simp: commit_reply_def Let_def split: if_splits
      dest!: kill_primary_lh enqueue_writes_lh enqueue_lh)

lemma commit_body_lh: "commit_body E N h bm n = Ok m \<Longrightarrow> lh (move_node m) = lh n"
  by (auto simp: commit_body_def Let_def split: if_splits option.splits
      dest!: commit_reply_lh commit_lost_lh enqueue_lh)

lemma check_ends_lh:
  "check_failed N n = Ok (b, n') \<Longrightarrow> lh n' = lh n"
  "check_passed N n = Ok (b, n') \<Longrightarrow> lh n' = lh n"
  by (auto simp: check_failed_def check_passed_def Let_def split: if_splits)

lemma check_start_lh: "check_start E N n = Ok n' \<Longrightarrow> lh n' = lh n"
  by (auto simp: check_start_def Let_def split: prod.splits if_splits dest!: connect_lh)

lemma stays_erase: "deleteBackup l = Ok l' \<Longrightarrow> log_trans s = l \<Longrightarrow> stays s (s\<lparr>log_trans := l'\<rparr>)"
  by (auto simp: deleteBackup_def stays_def om_simps om_oks split: if_splits)

lemma connect_backup_stays:
  assumes "connect_backup E N n = Ok (b, n')" shows "stays (lh n) (lh n')"
proof -
  obtain n1 where c: "(if triedConnect (rm n)
          then bnd (getIpBackup (node_log n)) (\<lambda>ip. bnd (getPortBackup (node_log n)) (\<lambda>port.
                 Ok (redirect ip port n)))
          else Ok n) = Ok n1" and run: "(let (good, n2) = connect_node E N n1;
      n3 = upd_rm (\<lambda>r. r\<lparr>alive := good\<rparr>) n2
       in if good then Ok (True, n3)
          else bnd (deleteBackup (node_log n3)) (\<lambda>l.
            Ok (False, upd_rm (\<lambda>r. r\<lparr>triedConnect := True\<rparr>) (set_log l n3)))) = Ok (b, n')"
    using assms unfolding connect_backup_def by (rule bndE)
  have n1: "lh n1 = lh n"
    using c by (auto split: if_splits)
  obtain good n2 where n2: "connect_node E N n1 = (good, n2)" by fastforce
  show ?thesis
  proof (cases good)
    case True
    with run n2 n1 connect_lh [OF n2] show ?thesis by auto
  next
    case False
    with run n2 obtain l where l: "deleteBackup (node_log n2) = Ok l"
      and n': "n' = upd_rm (\<lambda>r. r\<lparr>triedConnect := True\<rparr>) (set_log l (upd_rm (\<lambda>r. r\<lparr>alive := good\<rparr>) n2))"
      by auto
    have "lh n' = (lh n2)\<lparr>log_trans := l\<rparr>" by (simp add: n' set_log_def upd_rm_def)
    with stays_erase [OF l refl] connect_lh [OF n2] n1 show ?thesis by simp
  qed
qed

lemmas rm_frames = connect_backup_stays commit_body_lh push_queue_lh check_ends_lh check_start_lh

lemma manager_stays:
  "rm_commit k E N h n = Ok (b, n') \<Longrightarrow> stays (lh n) (lh n')"
  "primaryOps k E N n = Ok n' \<Longrightarrow> stays (lh n) (lh n')"
  "integrityCheck k E N n = Ok (b, n') \<Longrightarrow> stays (lh n) (lh n')"
  "check_commits k E N holder n = Ok (b, n') \<Longrightarrow> stays (lh n) (lh n')"
proof (induction k E N h n and k E N n and k E N n and k E N holder n
    arbitrary: b n' and n' and b n' and b n'
    rule: rm_commit_primaryOps_integrityCheck_check_commits.induct)
  case (2 k E N h n)
  from "2.prems" obtain role n1 m where role: "getRole (node_log n) = Ok role"
    and n1: "(if role = ''primary'' then primaryOps k E N n else Ok n) = Ok n1"
    and m: "commit_body E N h (role \<noteq> ''primary'') n1 = Ok m"
    and rest: "(case m of Return b n2 \<Rightarrow> Ok (b, n2)
       | Loop n2 \<Rightarrow> rm_commit k E N h n2
       | Resend n2 \<Rightarrow> bnd (rm_commit k E N h n2) (\<lambda>(b, n3).
           Ok (b, upd_rm (\<lambda>r. r\<lparr>show_warning := True\<rparr>) n3))) = Ok (b, n')"
    by (simp only: rm_commit.simps) (elim bndE)
  have s1: "stays (lh n) (lh n1)"
    using n1 "2.IH"(1) [OF role] by (auto split: if_splits)
  have s2: "lh (move_node m) = lh n1"
    by (rule commit_body_lh [OF m])
  have "stays (lh (move_node m)) (lh n')"
  proof (cases m)
    case (Loop n2)
    with rest "2.IH"(2) [OF role n1 m] show ?thesis by auto
  next
    case (Resend n2)
    with rest "2.IH"(3) [OF role n1 m] show ?thesis by auto
  qed (use rest in auto)
  with s1 s2 show ?case by (metis stays_trans)
next
  case (4 k E N n)
  show ?case
  proof (cases "alive (rm n) \<and> syncQueue (rm n) \<noteq> []")
    case True
    with "4.prems" show ?thesis by (simp add: push_queue_lh)
  next
    case False
    show ?thesis
    proof (cases "\<not> alive (rm n) \<and> backupRegistered (node_log n)")
      case True
      with False "4.prems" obtain good n1 where c: "connect_backup E N n = Ok (good, n1)"
        and rest: "(if good then bnd (integrityCheck k E N n1) (\<lambda>(b, n2). Ok n2) else Ok n1) = Ok n'"
        by (auto elim!: bndE)
      have "stays (lh n1) (lh n')"
        using rest "4.IH" [OF False True c refl] by (auto split: if_splits)
      with connect_backup_stays [OF c] show ?thesis by (rule stays_trans)
    next
      case False
      with \<open>\<not> (alive (rm n) \<and> syncQueue (rm n) \<noteq> [])\<close> "4.prems" show ?thesis by auto
    qed
  qed
next
  case (6 k E N n)
  from "6.prems" obtain n1 holder where s: "check_start E N n = Ok n1" "getCommits E (node_log n1) = Ok holder"
    "check_commits k E N holder n1 = Ok (b, n')"
    by (auto elim!: bndE)
  with "6.IH" [OF s(1,2), of b n'] check_start_lh [OF s(1)] show ?case by simp
next
  case (8 k E N holder n)
  show ?case
  proof (cases "holder = []")
    case True
    with "8.prems" show ?thesis by (auto dest: check_ends_lh)
  next
    case False
    with "8.prems" obtain b1 n1 where c: "rm_commit k E N (last holder) n = Ok (b1, n1)"
      and rest: "(if b1 then check_commits k E N (butlast holder) n1 else check_failed N n1) = Ok (b, n')"
      by (auto elim!: bndE)
    have "stays (lh n1) (lh n')"
      using rest "8.IH"(2) [OF False c refl] by (auto split: if_splits dest: check_ends_lh)
    with "8.IH"(1) [OF False c] show ?thesis by (rule stays_trans)
  qed
qed auto


section \<open>The queue\<close>

text \<open>Every packet of a list sent and answered, one after the other: the network behind it.\<close>

fun answered :: "env \<Rightarrow> 'w net \<Rightarrow> (string \<times> string) list \<Rightarrow> 'w \<Rightarrow> 'w option" where
  "answered E N [] w = Some w"
| "answered E N ((h, d) # q) w =
     (case genEcho E h d of
        Ok pkt \<Rightarrow> (case sendReceive E N pkt w of Ok (Some r, w1) \<Rightarrow> answered E N q w1 | _ \<Rightarrow> None)
      | Stop e \<Rightarrow> None)"

lemma drain_prefix:
  "drain E N q w = Ok (threw, q', w') \<Longrightarrow>
     \<exists>p w1. q = p @ q' \<and> answered E N p w = Some w1 \<and> threw = (q' \<noteq> []) \<and> (q' = [] \<longrightarrow> w' = w1)"
proof (induction E N q w rule: drain.induct)
  case (2 E N h d q w)
  from "2.prems" obtain pkt reply w1 where g: "genEcho E h d = Ok pkt"
    and r: "sendReceive E N pkt w = Ok (reply, w1)"
    and rest: "(case reply of None \<Rightarrow> Ok (True, (h, d) # q, w1) | Some x \<Rightarrow> drain E N q w1) = Ok (threw, q', w')"
    by (auto elim!: bndE)
  show ?case
  proof (cases reply)
    case None
    with rest show ?thesis by (intro exI [of _ "[]"] exI [of _ w]) auto
  next
    case (Some x)
    with rest "2.IH" [OF g r refl] obtain p w2 where
      "q = p @ q'" "answered E N p w1 = Some w2" "threw = (q' \<noteq> [])" "q' = [] \<longrightarrow> w' = w2"
      by auto
    with g r Some show ?thesis by (intro exI [of _ "(h, d) # p"] exI [of _ w2]) simp
  qed
qed simp

lemma drain_all: "answered E N q w = Some w' \<Longrightarrow> drain E N q w = Ok (False, [], w')"
proof (induction E N q w rule: drain.induct)
  case (2 E N h d q w)
  then obtain pkt r w1 where "genEcho E h d = Ok pkt" "sendReceive E N pkt w = Ok (Some r, w1)"
    "answered E N q w1 = Some w'"
    by (auto split: res.splits option.splits)
  with "2.IH" [of pkt "(Some r, w1)" "Some r" w1 r] show ?case by simp
qed simp

section \<open>More fuel\<close>

definition after_body :: "('w node \<Rightarrow> (bool \<times> 'w node) res) \<Rightarrow> 'w move \<Rightarrow> (bool \<times> 'w node) res" where
  "after_body f m =
     (case m of
        Return b n \<Rightarrow> Ok (b, n)
      | Loop n \<Rightarrow> f n
      | Resend n \<Rightarrow> bnd (f n) (\<lambda>(b, n1). Ok (b, upd_rm (\<lambda>r. r\<lparr>show_warning := True\<rparr>) n1)))"

lemma rm_commit_Suc:
  "rm_commit (Suc k) E N h n =
     bnd (getRole (node_log n)) (\<lambda>role.
     bnd (if role = ''primary'' then primaryOps k E N n else Ok n) (\<lambda>n1.
     bnd (commit_body E N h (role \<noteq> ''primary'') n1) (after_body (rm_commit k E N h))))"
  by (simp add: after_body_def [abs_def])

text \<open>\<open>m\<close> ran out of fuel, or is the result \<open>m'\<close>.\<close>

definition below :: "'a res \<Rightarrow> 'a res \<Rightarrow> bool" where
  "below m m' \<longleftrightarrow> m = Stop Diverged \<or> m' = m"

lemma below_refl [intro, simp]: "below m m" and below_Diverged [intro, simp]: "below (Stop Diverged) m"
  by (simp_all add: below_def)

lemma below_bnd [intro]:
  "below m m' \<Longrightarrow> (\<And>a. m = Ok a \<Longrightarrow> below (f a) (f' a)) \<Longrightarrow> below (bnd m f) (bnd m' f')"
  by (cases m) (auto simp: below_def)

lemma below_if [intro]:
  "(c \<Longrightarrow> below a a') \<Longrightarrow> (\<not> c \<Longrightarrow> below b b') \<Longrightarrow> below (if c then a else b) (if c then a' else b')"
  by simp

lemma below_pair [intro]:
  "(\<And>a b. p = (a, b) \<Longrightarrow> below (f a b) (g a b)) \<Longrightarrow> below (case p of (a, b) \<Rightarrow> f a b) (case p of (a, b) \<Rightarrow> g a b)"
  by (cases p) simp

lemma below_after [intro]:
  "(\<And>n. m = Loop n \<or> m = Resend n \<Longrightarrow> below (f n) (g n)) \<Longrightarrow> below (after_body f m) (after_body g m)"
  by (cases m) (auto simp: after_body_def)

lemma below_commit:
  assumes "\<And>n. below (primaryOps k E N n) (primaryOps j E N n)"
    and "\<And>n. below (rm_commit k E N h n) (rm_commit j E N h n)"
  shows "below (rm_commit (Suc k) E N h n) (rm_commit (Suc j) E N h n)"
  unfolding rm_commit_Suc using assms by (intro below_bnd below_if below_refl below_after)

lemma below_primary:
  assumes "\<And>n. below (integrityCheck k E N n) (integrityCheck j E N n)"
  shows "below (primaryOps (Suc k) E N n) (primaryOps (Suc j) E N n)"
  unfolding primaryOps.simps using assms by (intro below_bnd below_if below_refl below_pair)

lemma below_integrity:
  assumes "\<And>hs n. below (check_commits k E N hs n) (check_commits j E N hs n)"
  shows "below (integrityCheck (Suc k) E N n) (integrityCheck (Suc j) E N n)"
  unfolding integrityCheck.simps using assms by (intro below_bnd below_refl)

lemma below_check:
  assumes "\<And>h n. below (rm_commit k E N h n) (rm_commit j E N h n)"
    and "\<And>hs n. below (check_commits k E N hs n) (check_commits j E N hs n)"
  shows "below (check_commits (Suc k) E N hs n) (check_commits (Suc j) E N hs n)"
  unfolding check_commits.simps using assms by (intro below_bnd below_if below_refl below_pair)

lemma fuel_mono:
  assumes "k \<le> j"
  shows "(\<forall>h n. below (rm_commit k E N h n) (rm_commit j E N h n))
    \<and> (\<forall>n. below (primaryOps k E N n) (primaryOps j E N n))
    \<and> (\<forall>n. below (integrityCheck k E N n) (integrityCheck j E N n))
    \<and> (\<forall>hs n. below (check_commits k E N hs n) (check_commits j E N hs n))"
  using assms
proof (induction k arbitrary: j)
  case (Suc k)
  then obtain i where j: "j = Suc i" "k \<le> i" by (cases j) auto
  note IH = Suc.IH [OF j(2)]
  show ?case
    unfolding j(1)
    using IH by (intro conjI allI below_commit below_primary below_integrity below_check) blast+
qed simp


section \<open>The outcome of a commit\<close>

text \<open>
  The commit was acknowledged: its packet was sent with the queue empty and the first field
  of the reply is \<open>ACK\<close>; or it stands last in the queue and the backup counts as gone.
\<close>

definition acked :: "env \<Rightarrow> 'w net \<Rightarrow> string \<Rightarrow> 'w node \<Rightarrow> bool" where
  "acked E N h n \<longleftrightarrow> alive (rm n) \<and> syncQueue (rm n) = [] \<and>
     (\<exists>w pkt result. genEcho E h '' '' = Ok pkt \<and>
        sendReceive E N pkt w = Ok (Some result, wld n) \<and>
        vec_at (split_any E '' '' result) 0 = Ok ''ACK'')"

definition queued :: "string \<Rightarrow> 'w node \<Rightarrow> bool" where
  "queued h n \<longleftrightarrow> \<not> alive (rm n) \<and> (\<exists>q. syncQueue (rm n) = q @ [(h, '' '')])"

lemma enqueue_primary:
  "getRole (node_log n) = Ok ''primary'' \<Longrightarrow>
     enqueue h d n = Ok (upd_rm (\<lambda>r. r\<lparr>syncQueue := syncQueue r @ [(h, d)]\<rparr>) n)"
  by (simp add: enqueue_def)

lemma commit_lost_queued:
  "getRole (node_log n) = Ok ''primary'' \<Longrightarrow> commit_lost h n = Ok m \<Longrightarrow> \<exists>n'. m = Return True n' \<and> queued h n'"
  by (auto simp: commit_lost_def enqueue_primary queued_def upd_rm_def)

lemma wld_log [simp]: "node_log (n\<lparr>wld := w\<rparr>) = node_log n" "rm (n\<lparr>wld := w\<rparr>) = rm n"
  by simp_all

lemma commit_reply_Return:
  assumes "commit_reply E N h False result n = Ok (Return b n')"
  shows "n' = n \<and> (b \<longrightarrow> vec_at (split_any E '' '' result) 0 = Ok ''ACK'')"
  using assms by (auto simp: commit_reply_def Let_def split: if_splits)

lemma commit_body_Return:
  assumes role: "getRole (node_log n) = Ok ''primary''"
    and ret: "commit_body E N h False n = Ok (Return b n')"
  shows "if b then acked E N h n' \<or> queued h n' else alive (rm n') \<and> syncQueue (rm n') = []"
proof (cases "alive (rm n) \<and> syncQueue (rm n) = []")
  case True
  with ret obtain pkt reply w where g: "genEcho E h '' '' = Ok pkt"
    and r: "sendReceive E N pkt (wld n) = Ok (reply, w)"
    and rest: "(case reply of None \<Rightarrow> commit_lost h (n\<lparr>wld := w\<rparr>)
       | Some result \<Rightarrow> commit_reply E N h False result (n\<lparr>wld := w\<rparr>)) = Ok (Return b n')"
    by (auto simp: commit_body_def Let_def elim!: bndE)
  show ?thesis
  proof (cases reply)
    case None
    with rest role commit_lost_queued [of "n\<lparr>wld := w\<rparr>" h "Return b n'"] show ?thesis by auto
  next
    case (Some result)
    with rest commit_reply_Return [of E N h result "n\<lparr>wld := w\<rparr>" b n'] True g r show ?thesis
      by (auto simp: acked_def)
  qed
next
  case False
  with ret role show ?thesis
    by (auto simp: commit_body_def enqueue_primary queued_def upd_rm_def split: if_splits)
qed

lemma primary_stays:
  assumes "stays s s'" "om_ok (log_trans s)" "getRole (log_trans s) = Ok ''primary''"
  shows "om_ok (log_trans s')" "getRole (log_trans s') = Ok ''primary''"
  using assms stays_role [OF assms(1,2)] by (simp_all add: stays_def)

lemma rm_commit_outcome:
  assumes "rm_commit k E N h n = Ok (b, n')" "om_ok (node_log n)" "getRole (node_log n) = Ok ''primary''"
  shows "if b then acked E N h n' \<or> queued h n' else alive (rm n') \<and> syncQueue (rm n') = []"
  using assms
proof (induction k arbitrary: n b n')
  case (Suc k)
  from Suc.prems obtain n1 m where n1: "primaryOps k E N n = Ok n1"
    and m: "commit_body E N h False n1 = Ok m"
    and rest: "after_body (rm_commit k E N h) m = Ok (b, n')"
    by (auto simp: rm_commit_Suc simp del: rm_commit.simps elim!: bndE)
  note ok1 = primary_stays [OF manager_stays(2) [OF n1] Suc.prems(2,3)]
  have lm: "lh (move_node m) = lh n1" by (rule commit_body_lh [OF m])
  show ?case
  proof (cases m)
    case (Return b2 n2)
    with rest m commit_body_Return [OF ok1(2), of E N h b n'] show ?thesis
      by (simp add: after_body_def)
  next
    case (Loop n2)
    with rest lm ok1 Suc.IH [of n2 b n'] show ?thesis by (simp add: after_body_def)
  next
    case (Resend n2)
    with rest obtain n3 where n3: "rm_commit k E N h n2 = Ok (b, n3)"
      "n' = upd_rm (\<lambda>r. r\<lparr>show_warning := True\<rparr>) n3"
      by (auto simp: after_body_def)
    with Resend lm ok1 Suc.IH [of n2 b n3] show ?thesis
      by (auto simp: acked_def queued_def)
  qed
qed simp

section \<open>Returning, and not returning\<close>

text \<open>Alone, a primary commits at once and queues the commit.\<close>

lemma rm_commit_alone:
  assumes "getRole (node_log n) = Ok ''primary''" "\<not> alive (rm n)" "\<not> backupRegistered (node_log n)"
  shows "rm_commit (Suc (Suc k)) E N h n =
    Ok (True, upd_rm (\<lambda>r. r\<lparr>syncQueue := syncQueue r @ [(h, '' '')]\<rparr>) n)"
  using assms by (simp add: commit_body_def enqueue_primary)

text \<open>
  A backup with a connection and something left in its queue calls itself without end: only
  a primary pushes the queue.
\<close>

lemma rm_commit_stuck:
  assumes "getRole (node_log n) = Ok role" "role \<noteq> ''primary''" "alive (rm n)" "syncQueue (rm n) \<noteq> []"
  shows "rm_commit k E N h n = Stop Diverged"
  using assms by (induction k) (simp_all add: commit_body_def)

text \<open>
  A primary whose backup does not answer with \<open>ACK_RESEND\<close> or \<open>ERROR ... 201\<close> has its
  result after one round.
\<close>

lemma rm_commit_round:
  assumes role: "getRole (node_log n) = Ok ''primary''" and up: "alive (rm n)"
    and drain: "drain E N (syncQueue (rm n)) (wld n) = Ok (False, [], w)"
    and g: "genEcho E h '' '' = Ok pkt" and r: "sendReceive E N pkt w = Ok (reply, w1)"
  shows "rm_commit (Suc (Suc k)) E N h n =
    (let n1 = (upd_rm (\<lambda>r. r\<lparr>syncQueue := []\<rparr>) n)\<lparr>wld := w1\<rparr>
     in bnd (case reply of None \<Rightarrow> commit_lost h n1 | Some result \<Rightarrow> commit_reply E N h False result n1)
       (after_body (rm_commit (Suc k) E N h)))"
proof -
  let ?n = "(upd_rm (\<lambda>r. r\<lparr>syncQueue := []\<rparr>) n)\<lparr>wld := w\<rparr>"
  have p: "primaryOps (Suc k) E N n = Ok ?n"
  proof (cases "syncQueue (rm n) = []")
    case True
    with up drain show ?thesis by (simp add: upd_rm_def)
  next
    case False
    with up drain show ?thesis by (simp add: push_queue_def upd_rm_def)
  qed
  show ?thesis
    by (subst rm_commit_Suc) (simp add: role p up g r commit_body_def Let_def split: option.split
        del: primaryOps.simps rm_commit.simps)
qed

end
