(* ===== verification/Log_Content.thy ===== *)
theory Log_Content
  imports Log_Lifecycle
begin

text \<open>
  The data itself: what a commit leaves in the file, what a read returns of it, and that the
  text codes by which \<open>LogHandler\<close> talks to the session are never mistaken for an answer.
\<close>

section \<open>Codes\<close>

lemma genAnswerStr_hd:
  assumes "genAnswerStr E mt h c e = Ok s" "mt \<noteq> []"
  shows "s \<noteq> [] \<and> hd s = hd mt"
  using assms by (auto simp: genAnswerStr_def Let_def split: if_splits)

definition answer_methods :: "string list" where
  "answer_methods = [''ACK'', ''ERROR'', ''WARNING'', ''AUTH_FAIL'', ''ACK_RESEND'']"

lemma genAnswerStr_code:
  assumes "genAnswerStr E mt h c e = Ok s" "mt \<in> set answer_methods"
  shows "s \<noteq> ''committed''" "s \<noteq> ''incomplete''" "s \<noteq> []"
proof -
  have "mt \<noteq> []" "hd mt \<noteq> CHR ''c''" "hd mt \<noteq> CHR ''i''"
    using assms(2) by (auto simp: answer_methods_def)
  with genAnswerStr_hd [OF assms(1)] show "s \<noteq> ''committed''" "s \<noteq> ''incomplete''" "s \<noteq> []"
    by auto
qed

lemma answers_no_codes [simp]:
  assumes "mt \<in> set answer_methods"
  shows "genAnswerStr E mt h c e \<noteq> Ok ''committed''" "genAnswerStr E mt h c e \<noteq> Ok ''incomplete''"
  using genAnswerStr_code(1,2) [OF _ assms] by blast+

lemma answer_methods_mem [simp]:
  "''ACK'' \<in> set answer_methods" "''ERROR'' \<in> set answer_methods" "''WARNING'' \<in> set answer_methods"
  "''AUTH_FAIL'' \<in> set answer_methods" "''ACK_RESEND'' \<in> set answer_methods"
  by (simp_all add: answer_methods_def)

lemma refuse_no_codes [simp]:
  assumes "mt \<in> set answer_methods"
  shows "refuse E h mt c e s \<noteq> Ok (r, ''committed'', s')" "refuse E h mt c e s \<noteq> Ok (r, ''incomplete'', s')"
  using assms by simp_all

lemma commit_wait_not_committed [simp]: "commit_wait E k q s \<noteq> Ok (r, ''committed'', s')"
  by (auto simp: commit_wait_def)

section \<open>What a commit writes\<close>

lemma commit_ready_files:
  assumes E: "text_ok E" "files_ok E"
    and t: "om_find (log_trans s) k = Some t" "has_base t" "om_find t (- 1) = Some (st, d)"
    and k: "\<not> server_key k" and q: "in_int32 q" and run: "stored_run t q"
    and role: "getRole (log_trans s) = Ok role" "role \<noteq> ''primary''"
    and ret: "commit_ready E h k q s = Ok (r, c, s')"
  shows "(target (abs_txn t) \<noteq> fileName \<longrightarrow> file_text (files s') (target (abs_txn t)) =
       file_text (files s) (target (abs_txn t)) @ (if c = ''committed'' then txn_text (abs_txn t) q else []))
    \<and> (\<forall>p. p \<noteq> target (abs_txn t) \<longrightarrow> p \<noteq> fileName \<longrightarrow> files s' p = files s p)"
proof -
  let ?t2 = "om_put (- 1) (''WRITING'', lex_str E q) t"
  let ?w = "with_status k (''WRITING'', lex_str E q) t (log_trans s)"
  let ?f = "target (abs_txn t)"
  obtain s2 where s2: "save E (s\<lparr>log_trans := ?w\<rparr>) = Ok s2"
    and rest: "bnd (writeFile E k s2) (\<lambda>(written, s3).
         if written then
           bnd (changeStatus (log_trans s3) k ''COMMITTED'') (\<lambda>l3.
           bnd (save E (s3\<lparr>log_trans := l3\<rparr>)) (\<lambda>s4. Ok (False, ''committed'', s4)))
         else
           bnd (genAnswerStr E ''ERROR'' h ''205'' ''commit fail, i/o error'') (\<lambda>code.
           bnd (changeStatus (log_trans s3) k ''WAITING'') (\<lambda>l3.
           bnd (save E (s3\<lparr>log_trans := l3\<rparr>)) (\<lambda>s4. Ok (False, code, s4))))) = Ok (r, c, s')"
    using ret t k role
    by (auto simp: commit_ready_def changeStatus_eval changeStatusData_eval om_simps save_log)
  have l2: "log_trans s2 = ?w" using save_log [OF s2] by simp
  have f2: "files s2 = (files s)(fileName \<mapsto> File (oarchive E ?w))"
    using save_files [OF E(2) s2] by simp
  obtain b s3 where w: "writeFile E k s2 = Ok (b, s3)" using rest by (auto elim!: bndE)
  have base2: "has_base ?t2" using t(2) by (simp add: has_base_put)
  have run2: "stored_run ?t2 q" using run by (auto simp: stored_run_def list_all_iff om_simps)
  have at: "atoi (lex_str E q) = Ok q" using E(1) q by simp
  have tg: "abs_txn ?t2 = (abs_txn t)\<lparr>phase := phase_of (''WRITING'', lex_str E q)\<rparr>"
    by simp
  have "om_find (log_trans s2) k = Some ?t2" "om_find ?t2 (- 1) = Some (''WRITING'', lex_str E q)"
    by (simp_all add: l2 om_simps)
  from writeFile_run [OF E(2) this(1) base2 this(2) at run2 w]
  have s3: "b \<longrightarrow> file_text (files s3) ?f = file_text (files s2) ?f @ txn_text (abs_txn ?t2) q"
    "\<not> b \<longrightarrow> file_text (files s3) ?f = file_text (files s2) ?f"
    "\<forall>p. p \<noteq> ?f \<longrightarrow> files s3 p = files s2 p"
    by (simp_all add: tg del: abs_txn_status)
  have same_text: "txn_text (abs_txn ?t2) q = txn_text (abs_txn t) q"
    by (simp add: txn_text_def tg del: abs_txn_status)
  have last_save: "\<exists>l3. save E (s3\<lparr>log_trans := l3\<rparr>) = Ok s'"
    and code: "b = (c = ''committed'')"
    using rest w genAnswerStr_code(1) [of E "''ERROR''" h "''205''" "''commit fail, i/o error''"]
    by (auto simp: answer_methods_def split: if_splits)
  then obtain l3 where "files s' = (files s3)(fileName \<mapsto> File (oarchive E l3))"
    using save_files [OF E(2)] by fastforce
  with s3 code f2 same_text show ?thesis
    by (auto simp: file_text_def)
qed

text \<open>
  On a backup a commit that reports success appends the writes, in order, to the file the
  transaction was opened for, and writes no other file but the log.
\<close>

lemma commit_files:
  assumes E: "text_ok E" "files_ok E" and wf: "wf_log (log_trans s)" and k: "\<not> server_key (getTsn E h)"
    and a: "abs_log (log_trans s) (getTsn E h) = Some a" and f: "target a \<noteq> fileName"
    and role: "getRole (log_trans s) = Ok role" "role \<noteq> ''primary''"
    and ret: "commit E h s = Ok (r, ''committed'', s')"
  shows "file_text (files s') (target a) = file_text (files s) (target a) @ txn_text a (getSeq E h)
    \<and> (\<forall>p. p \<noteq> target a \<longrightarrow> p \<noteq> fileName \<longrightarrow> files s' p = files s p)"
proof -
  obtain t where t: "om_find (log_trans s) (getTsn E h) = Some t" and at: "a = abs_txn t"
    using a k by (auto simp: abs_log_find)
  have wt: "wf_txn t" by (rule wf_log_txn [OF wf t k])
  then obtain st d where p: "om_find t (- 1) = Some (st, d)" and ws: "wf_status t (st, d)"
    using wf_txn_status [OF wt] by (metis prod.exhaust_sel)
  have "missing t (getSeq E h) = []" "commit_ready E h (getTsn E h) (getSeq E h) s = Ok (r, ''committed'', s')"
    using ret commit_unfold [OF t wf_txn_base [OF wt] p wf_status_int32 [OF ws]]
    by (simp_all split: if_splits del: refuse_Ok)
  with missing_unbroken [OF wf_txn_base [OF wt]] have
    ub: "unbroken (writes (abs_txn t)) (getSeq E h)"
    and ready: "commit_ready E h (getTsn E h) (getSeq E h) s = Ok (r, ''committed'', s')"
    by simp_all
  show ?thesis
    using commit_ready_files [OF E t wf_txn_base [OF wt] p k getSeq_in32 [OF E(1)]
        unbroken_stored_run [OF ub] role ready] f at
    by simp
qed

section \<open>What a read returns\<close>

text \<open>The lines of a text, each ended by a newline again: the text, with its last line closed.\<close>

definition closed :: "string \<Rightarrow> string" where
  "closed u = (if u = [] \<or> last u = nl then u else u @ [nl])"

lemma read_lines_text: "concat (map (\<lambda>x. x @ [nl]) (read_lines (u, False))) = closed u"
proof (induction "length u" arbitrary: u rule: less_induct)
  case less
  show ?case
  proof (cases "nl \<in> set u")
    case True
    then obtain xs ys where s: "u = xs @ nl # ys" "nl \<notin> set xs"
      using split_list_first by fastforce
    with less [of ys] show ?thesis
      by (subst read_lines.simps) (auto simp: closed_def)
  next
    case False
    then show ?thesis
      by (subst read_lines.simps) (auto simp: getline_last closed_def dest: last_in_set)
  qed
qed

lemma readFile_text:
  assumes "os_read E (files s) p"
  shows "readFile E p s = (file_text (files s) p \<noteq> [], closed (file_text (files s) p))"
proof -
  have "read_lines (u, False) \<noteq> [] \<longleftrightarrow> u \<noteq> []" for u
    using read_lines_text [of u] by (cases "nl \<in> set u")
      (auto simp: closed_def read_lines.simps [of "(u, False)"] getline.simps split: if_splits)
  with assms read_lines_text [of "file_text (files s) p"] show ?thesis
    by (simp add: readFile_def Let_def)
qed

lemma readFile_missing: "\<not> os_read E (files s) p \<Longrightarrow> readFile E p s = (False, [])"
  by (simp add: readFile_def)

lemma txn_text_closed: "1 \<le> n \<Longrightarrow> txn_text a n \<noteq> [] \<and> last (txn_text a n) = nl"
proof -
  assume n: "1 \<le> n"
  then have "[1..n] = [1..n - 1] @ [n]" by (simp add: upto_rec2)
  then show ?thesis by (simp add: txn_text_def)
qed


lemma refuse_else:
  "(if P then refuse E h mt c e s else m) = Ok (r, code, s') \<Longrightarrow> s' \<noteq> s \<Longrightarrow> m = Ok (r, code, s')"
  by (simp split: if_splits)

section \<open>What a commit can do to the log\<close>

text \<open>
  A relation between a log and a later one that holds of the two updates of a status entry
  holds of a whole commit.
\<close>

locale log_frame =
  fixes R :: "int \<Rightarrow> log \<Rightarrow> log \<Rightarrow> bool"
  assumes refl: "R k l l"
    and trans: "R k a b \<Longrightarrow> R k b c \<Longrightarrow> R k a c"
    and status: "changeStatus l k x = Ok l' \<Longrightarrow> R k l l'"
    and number: "changeStatusData l k x = Ok l' \<Longrightarrow> R k l l'"
begin

lemma wait_frame:
  assumes "commit_wait E k q s = Ok (r, c, s')" shows "R k (log_trans s) (log_trans s')"
  using assms by (auto simp: commit_wait_def dest!: save_log status number intro: trans)

lemma ready_frame:
  assumes "commit_ready E h k q s = Ok (r, c, s')" shows "R k (log_trans s) (log_trans s')"
proof -
  from assms obtain l1 l2 s2 role where l: "changeStatus (log_trans s) k ''WRITING'' = Ok l1"
    "changeStatusData l1 k (lex_str E q) = Ok l2" "save E (s\<lparr>log_trans := l2\<rparr>) = Ok s2"
    and rest: "(if role = ''primary'' then Ok (False, ''committed'', s2)
       else bnd (writeFile E k s2) (\<lambda>(written, s3).
         if written then
           bnd (changeStatus (log_trans s3) k ''COMMITTED'') (\<lambda>l3.
           bnd (save E (s3\<lparr>log_trans := l3\<rparr>)) (\<lambda>s4. Ok (False, ''committed'', s4)))
         else
           bnd (genAnswerStr E ''ERROR'' h ''205'' ''commit fail, i/o error'') (\<lambda>code.
           bnd (changeStatus (log_trans s3) k ''WAITING'') (\<lambda>l3.
           bnd (save E (s3\<lparr>log_trans := l3\<rparr>)) (\<lambda>s4. Ok (False, code, s4)))))) = Ok (r, c, s')"
    unfolding commit_ready_def by (elim bndE)
  have "R k (log_trans s) (log_trans s2)"
    using status [OF l(1)] number [OF l(2)] save_log [OF l(3)] by (auto intro: trans)
  moreover have "R k (log_trans s2) (log_trans s')"
    using rest refl by (auto split: if_splits dest!: writeFile_log save_log status)
  ultimately show ?thesis by (rule trans)
qed

lemma commit_frame:
  assumes ret: "commit E h s = Ok (r, c, s')" shows "R (getTsn E h) (log_trans s) (log_trans s')"
proof (cases "s' = s")
  case False
  note ne = this
  from refuse_else [OF ret [unfolded commit_def Let_def] ne] obtain st n where
    run: "(if st = ''COMMITTED'' \<and> n = getSeq E h
           then refuse E h ''ACK'' ''0'' ''Already committed'' s
         else if st = ''EXPIRED''
           then refuse E h ''ERROR'' ''220'' ''Transaction expired, please start a new one.'' s
         else if (st = ''WAITING'' \<or> st = ''COMMITTED'') \<and> n \<noteq> getSeq E h
           then refuse E h ''ERROR'' ''202''
             ''Transaction was previously committed with a different sequence number'' s
         else if getSeq E h < 1
           then refuse E h ''WARNING'' ''404'' ''Nothing to commit, request ignored'' s
         else bnd (canCommit (log_trans s) (getTsn E h) (getSeq E h) []) (\<lambda>(can, toSend).
           if can then commit_ready E h (getTsn E h) (getSeq E h) s
           else commit_wait E (getTsn E h) (getSeq E h) s)) = Ok (r, c, s')"
    by (elim bndE)
  have "bnd (canCommit (log_trans s) (getTsn E h) (getSeq E h) []) (\<lambda>(can, toSend).
           if can then commit_ready E h (getTsn E h) (getSeq E h) s
           else commit_wait E (getTsn E h) (getSeq E h) s) = Ok (r, c, s')"
    by (rule refuse_else [OF refuse_else [OF refuse_else [OF refuse_else [OF run ne] ne] ne] ne])
  then show ?thesis
    by (auto split: if_splits dest: wait_frame ready_frame)
qed (simp add: refl)

end

section \<open>The entries an operation does not touch\<close>

definition only_at :: "int \<Rightarrow> log \<Rightarrow> log \<Rightarrow> bool" where
  "only_at k l l' \<longleftrightarrow> (\<forall>j. j \<noteq> k \<longrightarrow> om_find l' j = om_find l j)"

lemma only_at_refl [simp]: "only_at k l l"
  by (simp add: only_at_def)

lemma only_at_trans: "only_at k a b \<Longrightarrow> only_at k b c \<Longrightarrow> only_at k a c"
  by (simp add: only_at_def)

lemma only_at_put [simp]: "only_at k l (om_put k t l)"
  by (simp add: only_at_def om_simps)

lemma only_at_change:
  "changeStatus l k st = Ok l' \<Longrightarrow> only_at k l l'"
  "changeStatusData l k d = Ok l' \<Longrightarrow> only_at k l l'"
  by (auto simp: changeStatus_def changeStatusData_def set_entry_Ok)

lemma only_at_role: "only_at k l l' \<Longrightarrow> k \<noteq> 0 \<Longrightarrow> getRole l' = getRole l"
  by (simp add: only_at_def getRole_def entry_def)

interpretation at: log_frame only_at
  by unfold_locales (auto dest: only_at_change intro: only_at_trans)

lemmas commit_only = at.commit_frame

lemma store_entry_only:
  assumes "text_ok E" "in_int32 n" "store_entry E h x status n t s = Ok (r, c, s')"
  shows "only_at (getTsn E h) (log_trans s) (log_trans s')"
proof -
  let ?k = "getTsn E h"
  let ?l1 = "om_put ?k (om_insert (getSeq E h) (h, x) t) (log_trans s)"
  have "only_at ?k ?l1 (log_trans s')"
    using assms commit_only [of E "fake_header E ?k n" "s\<lparr>log_trans := ?l1\<rparr>" r c s']
    by (auto simp: store_entry_def Let_def getTsn_in32 split: if_splits dest: only_at_change(1))
  then show ?thesis by (rule only_at_trans [OF only_at_put])
qed

lemma getStatusData_in32: "getStatusData l k = Ok n \<Longrightarrow> in_int32 n"
  by (auto simp: getStatusData_def atoi_def)

lemma addLogEntry_only:
  assumes E: "text_ok E" and run: "addLogEntry E h x s = Ok (r, c, s')"
  shows "only_at (getTsn E h) (log_trans s) (log_trans s')"
proof -
  consider "s' = s" | status n t where "in_int32 n" "store_entry E h x status n t s = Ok (r, c, s')"
    using run by (auto simp: addLogEntry_def Let_def split: if_splits option.splits dest: getStatusData_in32)
      (metis in_int32_small(1))+
  then show ?thesis
    by cases (simp, rule store_entry_only [OF E])
qed

end
