(* ===== verification/Store.thy ===== *)
theory Store
  imports Replication Log_Content
begin

text \<open>
  The service a server gives, apart from how: a store of abstract transactions and the texts
  of its files, with the steps it may take; what any sequence of steps keeps and adds; and
  that the operations of \<open>LogHandler\<close> are such steps.
\<close>

section \<open>The service\<close>

text \<open>
  \<open>texts\<close>: the files of the clients. The log file and any \<open>primary.txt\<close> are the server's own
  and count as empty.
\<close>

record service =
  held :: store
  texts :: "string \<Rightarrow> string"

definition own_file :: "string \<Rightarrow> bool" where
  "own_file p \<longleftrightarrow> p = fileName \<or> drop (length p - 12) p = ''/primary.txt''"

definition visible :: "disk \<Rightarrow> string \<Rightarrow> string" where
  "visible d p = (if own_file p then [] else file_text d p)"

definition service_of :: "lstate \<Rightarrow> service" where
  "service_of s = \<lparr>held = abs_log (log_trans s), texts = visible (files s)\<rparr>"

fun final_text :: "phase \<Rightarrow> atxn \<Rightarrow> string" where
  "final_text (Committed n) a = txn_text a n"
| "final_text ph a = []"

fun is_committed :: "phase \<Rightarrow> bool" where
  "is_committed (Committed n) = True"
| "is_committed ph = False"

definition settled :: "store \<Rightarrow> int \<Rightarrow> bool" where
  "settled m k \<longleftrightarrow> (case m k of Some a \<Rightarrow> is_committed (phase a) | None \<Rightarrow> False)"

text \<open>What transaction \<open>k\<close> has written to the file \<open>p\<close>: everything, once it is committed.\<close>

definition lands :: "store \<Rightarrow> string \<Rightarrow> int \<Rightarrow> string" where
  "lands m p k =
     (case m k of
        Some a \<Rightarrow> if target a = p \<and> \<not> own_file p then final_text (phase a) a else []
      | None \<Rightarrow> [])"

text \<open>Transaction \<open>k\<close> changes; if that commits it, its text goes to its file.\<close>

definition moved :: "int \<Rightarrow> store \<Rightarrow> service \<Rightarrow> service" where
  "moved k m v =
     \<lparr>held = m,
      texts = (if settled m k \<and> \<not> settled (held v) k then (\<lambda>p. texts v p @ lands m p k) else texts v)\<rparr>"

inductive serve :: "service \<Rightarrow> service \<Rightarrow> bool" where
  creates: "held v k = None \<Longrightarrow> \<not> server_key k \<Longrightarrow> serve v (moved k ((held v)(k \<mapsto> fresh_txn f)) v)"
| commits: "spec_commit prim io k q (held v) = (r, m) \<Longrightarrow> serve v (moved k m v)"
| takes: "spec_write prim io k q x (held v) = (r, m) \<Longrightarrow> serve v (moved k m v)"
| finishes: "held v k = Some a \<Longrightarrow> phase a = Writing q \<Longrightarrow> 1 \<le> q \<Longrightarrow> unbroken (writes a) q \<Longrightarrow>
    serve v (moved k ((held v)(k \<mapsto> a\<lparr>phase := Committed q\<rparr>)) v)"
| aborts: "spec_abort k (held v) = (r, m) \<Longrightarrow> serve v (moved k m v)"
| ages: "serve v (v\<lparr>held := tick_store ks (held v)\<rparr>)"

inductive_cases serveE: "serve v w"

section \<open>What is committed stays\<close>

definition final_kept :: "store \<Rightarrow> store \<Rightarrow> bool" where
  "final_kept m m' \<longleftrightarrow> (\<forall>k a q. m k = Some a \<and> phase a = Committed q \<longrightarrow> m' k = Some a)"

lemma final_refl [simp]: "final_kept m m"
  by (simp add: final_kept_def)

lemma final_trans: "final_kept a b \<Longrightarrow> final_kept b c \<Longrightarrow> final_kept a c"
  by (simp add: final_kept_def)

lemma final_upd:
  "(\<And>a q. m k = Some a \<Longrightarrow> phase a = Committed q \<Longrightarrow> a' = Some a) \<Longrightarrow> final_kept m (m(k := a'))"
  by (auto simp: final_kept_def)

lemma commit_txn_final:
  "commit_txn prim io q a = (v, a') \<Longrightarrow> phase a = Committed n \<Longrightarrow> a' = a"
  by (auto simp: commit_txn_def)

lemma write_txn_final:
  "write_txn prim io q x a = (v, a') \<Longrightarrow> phase a = Committed n \<Longrightarrow> a' = a"
  by (auto simp: write_txn_def)

text \<open>An operation on one transaction that leaves a committed one alone.\<close>

definition local_to :: "int \<Rightarrow> store \<Rightarrow> store \<Rightarrow> bool" where
  "local_to k m m' \<longleftrightarrow> final_kept m m' \<and> (\<forall>j. j \<noteq> k \<longrightarrow> m' j = m j)"

lemma local_upd:
  "(\<And>a q. m k = Some a \<Longrightarrow> phase a = Committed q \<Longrightarrow> a' = Some a) \<Longrightarrow> local_to k m (m(k := a'))"
  using final_upd [of m k a'] by (simp add: local_to_def)

lemma local_same [simp]: "local_to k m m"
  by (simp add: local_to_def)

lemma on_txn_local:
  assumes "on_txn f k m = (v, m')" "\<And>a a' v n. f a = (v, a') \<Longrightarrow> phase a = Committed n \<Longrightarrow> a' = a"
  shows "local_to k m m'"
proof (cases "m k")
  case None
  with assms(1) show ?thesis by (simp add: on_txn_def)
next
  case (Some a)
  then obtain v' a' where f: "f a = (v', a')" by fastforce
  with assms(1) Some have "m' = m(k \<mapsto> a')" by (simp add: on_txn_def)
  then show ?thesis using Some assms(2) [OF f] by (auto intro!: local_upd)
qed

lemma spec_local:
  "spec_commit prim io k q m = (v, m') \<Longrightarrow> local_to k m m'"
  "spec_write prim io k q x m = (v, m') \<Longrightarrow> local_to k m m'"
  "spec_abort k m = (v, m') \<Longrightarrow> local_to k m m'"
proof -
  show "spec_commit prim io k q m = (v, m') \<Longrightarrow> local_to k m m'"
    unfolding spec_commit_def by (rule on_txn_local [OF _ commit_txn_final])
  show "spec_write prim io k q x m = (v, m') \<Longrightarrow> local_to k m m'"
    by (cases "q < 1") (auto simp: spec_write_def intro: on_txn_local [OF _ write_txn_final])
  show "spec_abort k m = (v, m') \<Longrightarrow> local_to k m m'"
    by (auto simp: spec_abort_def split: option.splits phase.splits intro!: local_upd)
qed

section \<open>What the files gain\<close>

text \<open>
  \<open>adds ks v w\<close>: from \<open>v\<close> to \<open>w\<close> exactly the transactions \<open>ks\<close> were committed, in this order,
  and the files have gained exactly their texts.
\<close>

definition adds :: "int list \<Rightarrow> service \<Rightarrow> service \<Rightarrow> bool" where
  "adds ks v w \<longleftrightarrow> final_kept (held v) (held w) \<and> distinct ks
     \<and> set ks = {k. settled (held w) k \<and> \<not> settled (held v) k}
     \<and> (\<forall>p. texts w p = texts v p @ concat (map (lands (held w) p) ks))"

lemma is_committed_iff: "is_committed ph \<longleftrightarrow> (\<exists>n. ph = Committed n)"
  by (cases ph) auto

lemma final_entry: "final_kept m m' \<Longrightarrow> settled m k \<Longrightarrow> m' k = m k"
  by (auto simp: final_kept_def settled_def is_committed_iff split: option.splits)

lemma final_settled: "final_kept m m' \<Longrightarrow> settled m k \<Longrightarrow> settled m' k"
  by (simp add: settled_def final_entry [unfolded settled_def])

lemma final_lands: "final_kept m m' \<Longrightarrow> settled m k \<Longrightarrow> lands m' p k = lands m p k"
  by (simp add: lands_def final_entry)

lemma adds_refl: "adds [] v v"
  by (auto simp: adds_def)

lemma adds_trans:
  assumes "adds ks u v" "adds js v w"
  shows "adds (ks @ js) u w"
proof -
  have f: "final_kept (held u) (held v)" "final_kept (held v) (held w)"
    using assms by (simp_all add: adds_def)
  have "map (lands (held w) p) ks = map (lands (held v) p) ks" for p
    using assms(1) by (intro map_cong refl final_lands [OF f(2)]) (simp add: adds_def)
  moreover have "texts v p = texts u p @ concat (map (lands (held v) p) ks)"
    "texts w p = texts v p @ concat (map (lands (held w) p) js)" for p
    using assms by (simp_all add: adds_def)
  ultimately have "texts w p = texts u p @ concat (map (lands (held w) p) (ks @ js))" for p
    by (simp only: map_append concat_append append_assoc)
  with assms final_trans [OF f] final_settled [OF f(1)] final_settled [OF f(2)] show ?thesis
    unfolding adds_def by (intro conjI allI) auto
qed

lemma moved_adds:
  assumes "local_to k (held v) m"
  shows "adds (if settled m k \<and> \<not> settled (held v) k then [k] else []) v (moved k m v)"
proof -
  let ?new = "settled m k \<and> \<not> settled (held v) k"
  have "settled m j \<and> \<not> settled (held v) j \<longleftrightarrow> j = k \<and> ?new" for j
    using assms by (cases "j = k") (simp_all add: local_to_def settled_def)
  then have "{j. settled m j \<and> \<not> settled (held v) j} = (if ?new then {k} else {})"
    by (rule Collect_cong [THEN trans]) simp
  moreover have "final_kept (held v) m" using assms by (simp add: local_to_def)
  ultimately show ?thesis unfolding adds_def moved_def by (simp split del: if_split) auto
qed

lemma tick_settled [simp]: "settled (tick_store ks m) k = settled m k"
  by (auto simp: settled_def tick_store_def tick_def split: option.splits phase.splits)

lemma tick_final: "final_kept m (tick_store ks m)"
  by (auto simp: final_kept_def tick_store_def tick_def)

lemma serve_adds: "serve v w \<Longrightarrow> \<exists>ks. adds ks v w"
proof (elim serveE)
  fix ks assume "w = v\<lparr>held := tick_store ks (held v)\<rparr>"
  then have "adds [] v w" by (auto simp: adds_def tick_final)
  then show ?thesis ..
qed (auto intro!: exI moved_adds local_upd dest: spec_local)

theorem serves_adds: "serve\<^sup>*\<^sup>* v w \<Longrightarrow> \<exists>ks. adds ks v w"
proof (induction rule: rtranclp_induct)
  case base
  show ?case using adds_refl by blast
next
  case (step u w)
  with serve_adds adds_trans show ?case by blast
qed

lemma serves_final: "serve\<^sup>*\<^sup>* v w \<Longrightarrow> final_kept (held v) (held w)"
  using serves_adds by (auto simp: adds_def)

section \<open>The code \<open>committed\<close>\<close>

lemma try_commit_now:
  assumes "try_commit prim io q a = (Commit_now, a')"
  shows "a' = a\<lparr>phase := (if prim then Writing q else Committed q)\<rparr> \<and> 1 \<le> q \<and> unbroken (writes a) q"
  using assms by (auto simp: try_commit_def split: if_splits)

lemma says_now: "says E h v r ''committed'' \<Longrightarrow> (\<forall>mt c e. v = Refuse mt c e \<longrightarrow> mt \<in> set answer_methods) \<Longrightarrow> v = Commit_now"
  by (cases v) (auto simp: says_def)

lemma try_commit_methods: "try_commit prim io q a = (Refuse mt c e, a') \<Longrightarrow> mt \<in> set answer_methods"
  by (auto simp: try_commit_def split: if_splits)

lemma commit_txn_methods: "commit_txn prim io q a = (Refuse mt c e, a') \<Longrightarrow> mt \<in> set answer_methods"
  by (auto simp: commit_txn_def Let_def try_commit_methods split: phase.splits if_splits)

lemma write_txn_methods: "write_txn prim io q x a = (Refuse mt c e, a') \<Longrightarrow> mt \<in> set answer_methods"
  by (auto simp: write_txn_def Let_def try_commit_methods split: phase.splits if_splits)

lemma commit_txn_now:
  "commit_txn prim io q a = (Commit_now, a') \<Longrightarrow> try_commit prim io q a = (Commit_now, a')"
  by (auto simp: commit_txn_def Let_def split: phase.splits if_splits)

lemma write_txn_now:
  "write_txn prim io q x a = (Commit_now, a') \<Longrightarrow>
     \<exists>n. try_commit prim io n (a\<lparr>writes := (writes a)(q \<mapsto> x)\<rparr>) = (Commit_now, a')"
  by (auto simp: write_txn_def Let_def split: phase.splits if_splits)

text \<open>A transaction that is about to be committed, or was just committed, by this server.\<close>

definition committing :: "bool \<Rightarrow> int \<Rightarrow> log \<Rightarrow> bool" where
  "committing prim k l \<longleftrightarrow>
     (\<exists>a q. abs_log l k = Some a \<and> 1 \<le> q \<and> unbroken (writes a) q
        \<and> phase a = (if prim then Writing q else Committed q))"

lemma on_txn_now:
  assumes "on_txn f k m = (Commit_now, m')"
  shows "\<exists>a a'. m k = Some a \<and> f a = (Commit_now, a') \<and> m' = m(k \<mapsto> a')"
  using assms by (auto simp: on_txn_def not_found_def split: option.splits prod.splits)

lemma on_txn_methods:
  "on_txn f k m = (Refuse mt c e, m') \<Longrightarrow> (\<And>a a'. f a = (Refuse mt c e, a') \<Longrightarrow> mt \<in> set answer_methods)
     \<Longrightarrow> mt \<in> set answer_methods"
  by (auto simp: on_txn_def not_found_def split: option.splits prod.splits)

lemma spec_commit_methods: "spec_commit prim io k q m = (Refuse mt c e, m') \<Longrightarrow> mt \<in> set answer_methods"
  unfolding spec_commit_def by (erule on_txn_methods) (rule commit_txn_methods)

lemma spec_write_methods: "spec_write prim io k q x m = (Refuse mt c e, m') \<Longrightarrow> mt \<in> set answer_methods"
proof (cases "q < 1")
  case False
  assume "spec_write prim io k q x m = (Refuse mt c e, m')"
  with False have "on_txn (write_txn prim io q x) k m = (Refuse mt c e, m')"
    by (simp add: spec_write_def)
  then show ?thesis by (rule on_txn_methods) (rule write_txn_methods)
qed (auto simp: spec_write_def)

lemma commit_committing:
  assumes "text_ok E" "wf_log (log_trans s)" "\<not> server_key (getTsn E h)"
    and "commit E h s = Ok (r, ''committed'', s')"
  shows "committing (is_primary (log_trans s)) (getTsn E h) (log_trans s')"
proof -
  let ?p = "is_primary (log_trans s)" and ?k = "getTsn E h" and ?q = "getSeq E h"
  obtain v io where v: "spec_commit ?p io ?k ?q (abs_log (log_trans s)) = (v, abs_log (log_trans s'))"
    "says E h v r ''committed''"
    using commit_sim [OF assms] by blast
  have "v = Commit_now"
    using v(2) by (rule says_now) (use v(1) spec_commit_methods in blast)
  with v(1) obtain a a' where "commit_txn ?p io ?q a = (Commit_now, a')"
    "abs_log (log_trans s') = (abs_log (log_trans s))(?k \<mapsto> a')"
    unfolding spec_commit_def using on_txn_now by blast
  then show ?thesis
    using try_commit_now [OF commit_txn_now] unfolding committing_def by fastforce
qed

lemma write_committing:
  assumes "text_ok E" "wf_log (log_trans s)" "\<not> server_key (getTsn E h)"
    and "addLogEntry E h x s = Ok (r, ''committed'', s')"
  shows "committing (is_primary (log_trans s)) (getTsn E h) (log_trans s')"
proof -
  let ?p = "is_primary (log_trans s)" and ?k = "getTsn E h" and ?q = "getSeq E h"
  obtain v io where v: "spec_write ?p io ?k ?q x (abs_log (log_trans s)) = (v, abs_log (log_trans s'))"
    "says E h v r ''committed''"
    using write_sim [OF assms] by blast
  have "v = Commit_now"
    using v(2) by (rule says_now) (use v(1) spec_write_methods in blast)
  with v(1) obtain a a' where "write_txn ?p io ?q x a = (Commit_now, a')"
    "abs_log (log_trans s') = (abs_log (log_trans s))(?k \<mapsto> a')"
    unfolding spec_write_def using on_txn_now [of "write_txn ?p io ?q x" ?k "abs_log (log_trans s)"]
    by (cases "?q < 1") auto
  then show ?thesis
    using try_commit_now write_txn_now unfolding committing_def by fastforce
qed

section \<open>The operations of the log as steps\<close>

lemma own_primary [simp]: "own_file (primary_file dir)"
  by (simp add: own_file_def primary_file_def)

lemma own_log [simp]: "own_file fileName"
  by (simp add: own_file_def)

lemma visible_cong:
  "(\<And>p. \<not> own_file p \<Longrightarrow> file_text d' p = file_text d p) \<Longrightarrow> visible d' = visible d"
  by (auto simp: visible_def)

lemma visible_upd [simp]: "own_file q \<Longrightarrow> visible (d(q := x)) = visible d"
  by (rule visible_cong) (auto simp: file_text_def)

lemma save_visible: "files_ok E \<Longrightarrow> save E s = Ok s' \<Longrightarrow> visible (files s') = visible (files s)"
  by (simp add: save_files)

lemma txn_text_phase [simp]: "txn_text (a\<lparr>phase := x\<rparr>) n = txn_text a n"
  by (simp add: txn_text_def)

lemma commit_ready_texts:
  assumes E: "text_ok E" "files_ok E"
    and t: "om_find (log_trans s) k = Some t" "has_base t" "om_find t (- 1) = Some (st, d)"
    and k: "\<not> server_key k" and q: "in_int32 q" and run: "stored_run t q"
    and ret: "commit_ready E h k q s = Ok (r, c, s')"
  shows "visible (files s') p = visible (files s) p @
    (if c = ''committed'' \<and> \<not> is_primary (log_trans s) \<and> target (abs_txn t) = p \<and> \<not> own_file p
     then txn_text (abs_txn t) q else [])"
proof (cases "is_primary (log_trans s)")
  case True
  with ret t k show ?thesis
    by (auto simp: commit_ready_def changeStatus_eval changeStatusData_eval om_simps save_log save_visible [OF E(2)])
next
  case False
  obtain role where "getRole (log_trans s) = Ok role"
    using ret t k by (auto simp: commit_ready_def changeStatus_eval changeStatusData_eval om_simps save_log)
  moreover from this False have "role \<noteq> ''primary''" by simp
  ultimately have f: "target (abs_txn t) \<noteq> fileName \<longrightarrow> file_text (files s') (target (abs_txn t)) =
       file_text (files s) (target (abs_txn t)) @ (if c = ''committed'' then txn_text (abs_txn t) q else [])"
    "\<forall>p. p \<noteq> target (abs_txn t) \<longrightarrow> p \<noteq> fileName \<longrightarrow> files s' p = files s p"
    using commit_ready_files [OF E t k q run _ _ ret] by blast+
  with False show ?thesis
    by (cases "p = target (abs_txn t)") (auto simp: visible_def file_text_def)
qed

lemma service_sel [simp]:
  "held (service_of s) = abs_log (log_trans s)" "texts (service_of s) = visible (files s)"
  by (simp_all add: service_of_def)

lemma moved_still:
  assumes "visible (files s') = visible (files s)"
    and "settled (abs_log (log_trans s')) k \<Longrightarrow> settled (abs_log (log_trans s)) k"
  shows "service_of s' = moved k (abs_log (log_trans s')) (service_of s)"
  using assms by (auto simp: moved_def service_of_def)

lemma settled_found [simp]:
  "\<not> server_key k \<Longrightarrow> om_find l k = Some t \<Longrightarrow> settled (abs_log l) k = is_committed (phase (abs_txn t))"
  by (simp add: settled_def abs_log_find)

lemma commit_moved:
  assumes E: "text_ok E" "files_ok E" and wf: "wf_log (log_trans s)" and k: "\<not> server_key (getTsn E h)"
    and run: "commit E h s = Ok (r, c, s')"
  shows "service_of s' = moved (getTsn E h) (abs_log (log_trans s')) (service_of s)"
proof (cases "s' = s")
  case True
  then show ?thesis by (intro moved_still) simp_all
next
  case changed: False
  let ?k = "getTsn E h" and ?q = "getSeq E h" and ?l = "log_trans s"
  obtain t where t: "om_find ?l ?k = Some t"
    using run changed by (cases "om_find ?l ?k") (auto simp: commit_def)
  have wt: "wf_txn t" by (rule wf_log_txn [OF wf t k])
  then obtain st d where p: "om_find t (- 1) = Some (st, d)" and ws: "wf_status t (st, d)"
    using wf_txn_status [OF wt] by (metis prod.exhaust_sel)
  note base = wf_txn_base [OF wt] and in32 = getSeq_in32 [OF E(1), of h]
  from run changed commit_unfold [OF t base p wf_status_int32 [OF ws]]
  have st: "st \<noteq> ''COMMITTED''"
    and go: "if missing t ?q = [] then commit_ready E h ?k ?q s = Ok (r, c, s') else commit_wait E ?k ?q s = Ok (r, c, s')"
    by (auto split: if_splits)
  have open1: "\<not> is_committed (phase (abs_txn t))"
    using st ws abs_phase [OF p] by (auto simp: wf_status_def statuses_def)
  show ?thesis
  proof (cases "missing t ?q = []")
    case False
    with go have w: "commit_wait E ?k ?q s = Ok (r, c, s')" by simp
    have "visible (files s') = visible (files s)"
      using w by (auto simp: commit_wait_def save_visible [OF E(2)])
    with commit_wait_Ok [OF t p w] k show ?thesis
      by (intro moved_still) (simp_all add: settled_def)
  next
    case True
    with go have w: "commit_ready E h ?k ?q s = Ok (r, c, s')" by simp
    have ub: "stored_run t ?q" using True missing_unbroken [OF base] by (intro unbroken_stored_run) simp
    note tx = commit_ready_texts [OF E t base p k in32 ub w]
    consider (prim) "is_primary ?l" "log_trans s' = with_status ?k (''WRITING'', lex_str E ?q) t ?l"
      | (settles) "\<not> is_primary ?l" "c = ''committed''" "log_trans s' = with_status ?k (''COMMITTED'', lex_str E ?q) t ?l"
      | (io) "\<not> is_primary ?l" "c \<noteq> ''committed''" "log_trans s' = with_status ?k (''WAITING'', lex_str E ?q) t ?l"
      using commit_ready_Ok [OF t p k w] genAnswerStr_code(1) [of E "''ERROR''" h] by (auto split: if_splits)
    then show ?thesis
    proof cases
      case prim
      with tx k show ?thesis by (intro moved_still) (auto simp: settled_def)
    next
      case settles
      with tx k open1 t E in32 show ?thesis
        by (auto simp: service_of_def moved_def settled_def lands_def abs_log_find fun_eq_iff)
    next
      case io
      with tx k show ?thesis by (intro moved_still) (auto simp: settled_def)
    qed
  qed
qed

lemma commit_serves:
  assumes "text_ok E" "files_ok E" "wf_log (log_trans s)" "\<not> server_key (getTsn E h)" "commit E h s = Ok (r, c, s')"
  shows "serve (service_of s) (service_of s')"
proof -
  obtain v io where "spec_commit (is_primary (log_trans s)) io (getTsn E h) (getSeq E h) (held (service_of s))
      = (v, abs_log (log_trans s'))"
    using commit_sim [OF assms(1,3-5)] by auto
  from serve.commits [OF this] show ?thesis by (simp add: commit_moved [OF assms])
qed

text \<open>The write: storing an entry settles nothing; what it completes is a commit.\<close>

lemma write_moved:
  assumes E: "text_ok E" "files_ok E" and wf: "wf_log (log_trans s)" and k: "\<not> server_key (getTsn E h)"
    and run: "addLogEntry E h x s = Ok (r, c, s')"
  shows "service_of s' = moved (getTsn E h) (abs_log (log_trans s')) (service_of s)"
proof (cases "s' = s")
  case True
  then show ?thesis by (intro moved_still) simp_all
next
  case changed: False
  let ?k = "getTsn E h" and ?q = "getSeq E h" and ?l = "log_trans s"
  obtain t where t: "om_find ?l ?k = Some t"
    using run changed by (cases "om_find ?l ?k") (auto simp: addLogEntry_def Let_def split: if_splits)
  have wt: "wf_txn t" by (rule wf_log_txn [OF wf t k])
  then obtain st d where p: "om_find t (- 1) = Some (st, d)" and ws: "wf_status t (st, d)"
    using wf_txn_status [OF wt] by (metis prod.exhaust_sel)
  have d: "in_int32 (atoi_val d)" by (rule wf_status_int32 [OF ws])
  note unf = addLogEntry_unfold [OF t p d, of x]
  from run changed unf have st: "st \<noteq> ''COMMITTED''" "om_find t ?q = None" and q: "1 \<le> ?q"
    by (cases "om_find t ?q"; auto split: if_splits)+
  with run changed unf have
    go: "store_entry E h x st (if st = ''WAITING'' then atoi_val d else 0) t s = Ok (r, c, s')"
    by (cases "st = ''WAITING''") (auto split: if_splits)
  let ?t1 = "om_insert ?q (h, x) t"
  let ?s1 = "s\<lparr>log_trans := om_put ?k ?t1 ?l\<rparr>"
  have ok: "om_ok t" using wt by (simp add: wf_txn_def has_base_def)
  have wf1: "wf_log (log_trans ?s1)" using wf_log_put [OF wf wf_txn_insert [OF wt q] k] by simp
  have a1: "phase (abs_txn ?t1) = phase (abs_txn t)" by (simp add: abs_txn_write [OF ok q st(2)])
  have p1: "om_find ?t1 (- 1) = Some (st, d)" using p ok q by (simp add: om_simps)
  have still: ?thesis if "files s' = files s" "log_trans s' = log_trans ?s1"
    using that k t a1 by (intro moved_still) (simp_all add: settled_def abs_log_find)
  show ?thesis
  proof (cases "st = ''WAITING''")
    case False
    then have "files s' = files s" "log_trans s' = with_status ?k (''ACTIVE'', d) ?t1 (log_trans ?s1)"
      using go p1 by (auto simp: store_entry_def om_simps changeStatus_eval Let_def)
    with k show ?thesis by (intro moved_still) (simp_all add: settled_def)
  next
    case True
    obtain can ms where can: "canCommit (log_trans ?s1) ?k (atoi_val d) [] = Ok (can, ms)"
      using go True by (auto simp: store_entry_def Let_def)
    show ?thesis
    proof (cases can)
      case False
      with True go can show ?thesis by (intro still) (auto simp: store_entry_def Let_def)
    next
      case yes: True
      let ?h' = "fake_header E ?k (atoi_val d)"
      have f: "getTsn E ?h' = ?k" using E d by (simp add: getTsn_in32)
      have "commit E ?h' ?s1 = Ok (r, c, s')"
        using True go can yes by (auto simp: store_entry_def Let_def)
      from commit_moved [OF E wf1 _ this] k f
      have "service_of s' = moved ?k (abs_log (log_trans s')) (service_of ?s1)" by simp
      also have "\<dots> = moved ?k (abs_log (log_trans s')) (service_of s)"
        using k t a1 by (simp add: moved_def settled_def abs_log_find)
      finally show ?thesis .
    qed
  qed
qed

lemma write_serves:
  assumes "text_ok E" "files_ok E" "wf_log (log_trans s)" "\<not> server_key (getTsn E h)"
    and "addLogEntry E h x s = Ok (r, c, s')"
  shows "serve (service_of s) (service_of s')"
proof -
  obtain v io where "spec_write (is_primary (log_trans s)) io (getTsn E h) (getSeq E h) x (held (service_of s))
      = (v, abs_log (log_trans s'))"
    using write_sim [OF assms(1,3-5)] by auto
  from serve.takes [OF this] show ?thesis by (simp add: write_moved [OF assms])
qed

lemma abort_serves:
  assumes wf: "wf_log (log_trans s)" and k: "\<not> server_key (getTsn E h)" and run: "abort_txn E h s = Ok (r, c, s')"
  shows "serve (service_of s) (service_of s')"
proof -
  obtain v where v: "spec_abort (getTsn E h) (held (service_of s)) = (v, abs_log (log_trans s'))"
    using abort_sim [OF wf k run] by auto
  then have "settled (abs_log (log_trans s')) (getTsn E h) \<Longrightarrow> settled (abs_log (log_trans s)) (getTsn E h)"
    by (auto simp: spec_abort_def settled_def split: option.splits phase.splits dest: sym [THEN fun_cong, of _ _ "getTsn E h"])
  moreover have "files s' = files s"
    using run by (auto simp: abort_txn_def Let_def split: if_splits)
  ultimately have "service_of s' = moved (getTsn E h) (abs_log (log_trans s')) (service_of s)"
    by (intro moved_still) simp_all
  with serve.aborts [OF v] show ?thesis by simp
qed

lemma created_serves:
  assumes "visible (files s') = visible (files s)" "\<not> server_key k" "abs_log (log_trans s) k = None"
    and "abs_log (log_trans s') = (abs_log (log_trans s))(k \<mapsto> fresh_txn f)"
  shows "serve (service_of s) (service_of s')"
proof -
  have "service_of s' = moved k ((held (service_of s))(k \<mapsto> fresh_txn f)) (service_of s)"
    using assms moved_still [of s' s k] by (simp add: settled_def fresh_txn_def)
  with serve.creates [of "service_of s" k f] assms show ?thesis by simp
qed

lemma newTxn_serves:
  assumes "files_ok E" "random_ok E" "wf_log (log_trans s)" "newTxn E f s = Ok (rn, s')"
  shows "serve\<^sup>*\<^sup>* (service_of s) (service_of s')"
proof (cases "posix_name E f")
  case True
  have "visible (files s') = visible (files s)"
    using assms(1,4) True by (auto simp: newTxn_def save_visible split: option.splits)
  with newTxn_sim [OF assms(2,3) True assms(4)] show ?thesis
    by (intro r_into_rtranclp created_serves [of _ _ rn]) (auto simp: server_key_def)
next
  case False
  with assms(4) show ?thesis by (simp add: newTxn_def)
qed

lemma makeTxn_serves:
  assumes "files_ok E" "wf_log (log_trans s)" "\<not> server_key k" "makeTxn E f k s = Ok (b, s')"
  shows "serve\<^sup>*\<^sup>* (service_of s) (service_of s')"
proof (cases b)
  case True
  have "visible (files s') = visible (files s)"
    using assms(1,4) by (auto simp: makeTxn_def save_visible split: if_splits)
  with makeTxn_sim [OF assms(2-4)] assms(3) True show ?thesis
    by (intro r_into_rtranclp created_serves [of _ _ k]) auto
next
  case False
  with assms(4) have "s' = s" by (auto simp: makeTxn_def split: if_splits)
  then show ?thesis by simp
qed

lemma timeouts_serves:
  assumes "files_ok E" "wf_log (log_trans s)" "timeouts E s = Ok s'"
  shows "serve (service_of s) (service_of s')"
proof -
  have "visible (files s') = visible (files s)"
    using assms(1,3) by (auto simp: timeouts_def save_visible)
  with timeouts_sim [OF assms(2,3)]
  have "service_of s' = (service_of s)\<lparr>held := tick_store (om_keys (log_trans s)) (held (service_of s))\<rparr>"
    by (simp add: service_of_def)
  with serve.ages [of "service_of s"] show ?thesis by simp
qed

end
