(* ===== verification/Role_Facts.thy ===== *)
theory Role_Facts
  imports Replication_Facts Store
begin

text \<open>
  The change of roles and the daemon's rounds: which entries of the log they rewrite, what
  they leave in \<open>primary.txt\<close> and read from it, and that no transaction changes.
\<close>

section \<open>The server's own entry\<close>

definition own_entry :: "string \<Rightarrow> string \<Rightarrow> string \<Rightarrow> string \<Rightarrow> txn" where
  "own_entry ip port role dir = [(- 1, (role, dir)), (0, (ip, port))]"

lemma serverData_find:
  "om_ok l \<Longrightarrow> om_find (serverData ip port role dir l) k =
     (if k = 0 then Some (own_entry ip port role dir) else om_find l k)"
  by (simp add: serverData_def Let_def om_simps own_entry_def)

lemma serverData_ok: "om_ok l \<Longrightarrow> om_ok (serverData ip port role dir l)"
  by (simp add: serverData_def Let_def om_oks)

lemma serverData_abs: "om_ok l \<Longrightarrow> abs_log (serverData ip port role dir l) = abs_log l"
  by (auto simp: abs_log_def serverData_find server_key_def fun_eq_iff)

lemma serverData_fields [simp]:
  assumes "om_ok l"
  shows "getRole (serverData ip port role dir l) = Ok role"
    "getNetDir (serverData ip port role dir l) = Ok dir"
    "getIpThis (serverData ip port role dir l) = Ok ip"
    "getPortThis (serverData ip port role dir l) = Ok port"
  using assms
  by (simp_all add: getRole_def getNetDir_def getIpThis_def getPortThis_def entry_def
      serverData_find own_entry_def)

text \<open>
  The transactions of a log, and the backup's entry, on their own: what a loaded log must
  satisfy before the server adds its data.
\<close>

definition wf_txns :: "log \<Rightarrow> bool" where
  "wf_txns l \<longleftrightarrow> om_ok l \<and>
     (case om_find l (- 1) of Some t \<Rightarrow> om_find t (- 1) = None \<and> om_find t 0 \<noteq> None | None \<Rightarrow> True) \<and>
     list_all (\<lambda>k. server_key k \<or> (case om_find l k of Some t \<Rightarrow> wf_txn t | None \<Rightarrow> True)) (om_keys l)"

lemma wf_txns_log: "wf_log l \<Longrightarrow> wf_txns l"
  by (simp add: wf_log_def wf_txns_def)

lemma wf_serverData:
  assumes "wf_txns l" "role = ''primary'' \<or> role = ''backup''"
  shows "wf_log (serverData ip port role dir l)"
proof -
  have ok: "om_ok l" using assms(1) by (simp add: wf_txns_def)
  have keys: "set (om_keys (serverData ip port role dir l)) = insert 0 (set (om_keys l))"
    using ok by (auto simp: om.keys_set serverData_find split: if_splits)
  have base: "has_base (own_entry ip port role dir)"
    by (simp add: own_entry_def has_base_def)
  have role': "om_find (own_entry ip port role dir) (- 1) = Some (role, dir)"
    by (simp add: own_entry_def)
  show ?thesis
    using assms(1) base role' assms(2) unfolding wf_log_def wf_txns_def
    by (auto simp: serverData_ok serverData_find list_all_iff keys server_key_def)
qed

section \<open>Changing the role\<close>

lemma switchToPrimary_result:
  assumes "switchToPrimary E n = Ok (b, n')" "om_ok (node_log n)"
  shows "b \<and> getRole (node_log n') = Ok ''primary'' \<and> abs_log (node_log n') = abs_log (node_log n)
    \<and> (wf_log (node_log n) \<longrightarrow> wf_log (node_log n'))
    \<and> rm n' = rm n \<and> wld n' = wld n"
proof (cases "getRole (node_log n) = Ok ''primary''")
  case True
  with assms show ?thesis by (auto simp: switchToPrimary_def)
next
  case False
  with assms(1) obtain dir ip port where "b"
    "n' = n\<lparr>lh := (lh n)\<lparr>files := (files (lh n))(primary_file dir \<mapsto> File (primary_line ip port)),
       log_trans := serverData ip port ''primary'' dir (node_log n)\<rparr>\<rparr>"
    by (auto simp: switchToPrimary_def split: if_splits)
  with assms(2) show ?thesis
    by (simp add: serverData_abs wf_serverData wf_txns_log)
qed

lemma switchToBackup_result:
  assumes "switchToBackup N n = Ok (b, n')" "om_ok (node_log n)"
  shows "b \<and> getRole (node_log n') = Ok ''backup'' \<and> abs_log (node_log n') = abs_log (node_log n)
    \<and> (wf_log (node_log n) \<longrightarrow> wf_log (node_log n'))
    \<and> alive (rm n') = alive (rm n) \<and> syncQueue (rm n') = syncQueue (rm n) \<and> files (lh n') = files (lh n)"
proof (cases "getRole (node_log n) = Ok ''backup''")
  case True
  with assms show ?thesis by (auto simp: switchToBackup_def)
next
  case False
  with assms(1) obtain dir ip port where "b"
    "n' = upd_rm (\<lambda>r. r\<lparr>tries := - 10\<rparr>) (set_log (serverData ip port ''backup'' dir (node_log n))
       (redirect ''0.0.0.0'' ''0'' (close_node N n)))"
    by (auto simp: switchToBackup_def Let_def)
  with assms(2) show ?thesis
    by (simp add: serverData_abs wf_serverData wf_txns_log) (simp add: redirect_def)
qed

section \<open>\<open>primary.txt\<close>\<close>

text \<open>What is written there is what is read.\<close>

lemma split_pipe:
  assumes "text_ok E" "CHR ''|'' \<notin> set a" "CHR ''|'' \<notin> set b" "CHR ''|'' \<notin> set c" "CHR ''|'' \<notin> set d"
  shows "split_any E ''|'' (a @ CHR ''|'' # b @ CHR ''|'' # c @ CHR ''|'' # d @ CHR ''|'' # []) = [a, b, c, d, []]"
proof -
  have cut: "split_any E ''|'' (s @ CHR ''|'' # t) = s # split_any E ''|'' t" if "CHR ''|'' \<notin> set s" for s t
    using assms(1) that unfolding text_ok_def by (intro text_lib.spl_cut) auto
  have "split_any E ''|'' [] = [[]]"
    using assms(1) unfolding text_ok_def by (intro text_lib.spl_last) auto
  with cut assms show ?thesis by (simp only: not_False_eq_True)
qed

lemma loadPrimary_line:
  assumes E: "text_ok E" and dir: "getNetDir (log_trans s) = Ok dir"
    and f: "files s (primary_file dir) = Some (File (primary_line ip port))"
    and r: "os_read E (files s) (primary_file dir)"
    and ip: "set ip \<inter> {CHR ''|'', nl} = {}" and port: "set port \<inter> {CHR ''|'', nl} = {}"
  shows "loadPrimary E s = Ok (ip, port)"
proof -
  let ?l = "''IP: '' @ CHR ''|'' # ip @ CHR ''|'' # (tab # ''port: '') @ CHR ''|'' # port @ CHR ''|'' # []"
  have pl: "primary_line ip port = ?l @ nl # []"
    by (simp add: primary_line_def)
  have "nl \<notin> set ?l" using ip port by auto
  then have g: "getline (primary_line ip port, False) [] = (True, ?l, ([], False))"
    unfolding pl by (rule getline_line)
  have "split_any E ''|'' ?l = [''IP: '', ip, tab # ''port: '', port, []]"
    using ip port by (intro split_pipe [OF E]) auto
  with dir f r g show ?thesis
    by (simp add: loadPrimary_def file_text_def)
qed

section \<open>The daemon's rounds\<close>

definition keeps_txns :: "'w node \<Rightarrow> 'w node \<Rightarrow> bool" where
  "keeps_txns n n' \<longleftrightarrow> (om_ok (node_log n) \<longrightarrow> om_ok (node_log n') \<and> abs_log (node_log n') = abs_log (node_log n))
     \<and> (wf_log (node_log n) \<longrightarrow> wf_log (node_log n'))
     \<and> visible (files (lh n')) = visible (files (lh n))"

lemma keeps_trans [trans]: "keeps_txns a b \<Longrightarrow> keeps_txns b c \<Longrightarrow> keeps_txns a c"
  by (auto simp: keeps_txns_def)

lemma keeps_stays: "stays (lh n) (lh n') \<Longrightarrow> keeps_txns n n'"
  using stays_abs stays_wf unfolding keeps_txns_def by (metis stays_def)

lemma keeps_same: "lh n' = lh n \<Longrightarrow> keeps_txns n n'"
  by (simp add: keeps_txns_def)

lemma switchToPrimary_keeps: "switchToPrimary E n = Ok (b, n') \<Longrightarrow> keeps_txns n n'"
  using switchToPrimary_result [of E n b n'] wf_log_ok [of "node_log n"]
  by (auto simp: keeps_txns_def switchToPrimary_def serverData_ok split: if_splits)

lemma switchToBackup_keeps: "switchToBackup N n = Ok (b, n') \<Longrightarrow> keeps_txns n n'"
  using switchToBackup_result [of N n b n'] wf_log_ok [of "node_log n"]
  by (auto simp: keeps_txns_def switchToBackup_def Let_def serverData_ok split: if_splits)

lemma primary_found_keeps:
  assumes "primary_found k E N n = Ok n'" shows "keeps_txns n n'"
proof -
  from assms obtain ip port n2 where n2: "(if \<not> backup_did_sync (rm n) \<and> \<not> restarted (rm n) then
            bnd (integrityCheck k E N (upd_rm (\<lambda>r. r\<lparr>backup_did_sync := True\<rparr>) n)) (\<lambda>(b, n1). Ok n1)
          else
            bnd (sendReceive E N (genRequest2 E ''PING'' (ip @ ''|'' @ port)) (wld n)) (\<lambda>(reply, w).
              if reply = None then Stop Thrown else Ok (n\<lparr>wld := w\<rparr>))) = Ok n2"
    and n': "n' = close_node N n2"
    by (auto simp: primary_found_def simp del: bnd_eq_Ok Ok_eq_bnd elim!: bndE)
  have "stays (lh n) (lh n2)"
    using n2 manager_stays(3) [of k E N "upd_rm (\<lambda>r. r\<lparr>backup_did_sync := True\<rparr>) n"]
    by (auto split: if_splits)
  then show ?thesis by (intro keeps_stays) (simp add: n')
qed

lemma primary_lost_keeps:
  assumes "primary_lost E n = Ok n'" shows "keeps_txns n n'"
proof -
  from assms obtain n1 where n1: "(if 3 < tries (rm n) then
            bnd (switchToPrimary E n) (\<lambda>(b, n1). Ok (if b then upd_rm (\<lambda>r. r\<lparr>tries := 0\<rparr>) n1 else n1))
          else Ok n) = Ok n1" and n': "lh n' = lh n1"
    unfolding primary_lost_def by (rule bndE) (auto simp: Let_def split: if_splits)
  have "keeps_txns n n1"
    using n1 switchToPrimary_keeps [of E n]
    by (auto simp: keeps_same split: if_splits) (auto simp: keeps_txns_def)
  with n' show ?thesis by (simp add: keeps_txns_def)
qed

lemma rm_check_keeps:
  assumes "rm_check k E N n = Ok n'" shows "keeps_txns n n'"
proof -
  obtain good n1 where c: "connect_node E N (close_node N n) = (good, n1)" by fastforce
  have n1: "keeps_txns n n1" using connect_lh [OF c] by (intro keeps_same) simp
  have "keeps_txns n n'" if "backupOps k E N n = Ok n'"
    using that keeps_trans [OF n1 primary_found_keeps] keeps_trans [OF n1 primary_lost_keeps]
    by (simp add: backupOps_def c split: if_splits)
  moreover have "keeps_txns n n'" if "primaryOps k E N n = Ok n'"
    by (rule keeps_stays [OF manager_stays(2) [OF that]])
  ultimately show ?thesis
    using assms by (auto simp: rm_check_def split: if_splits)
qed

end
