(* ===== verification/Session_Facts.thy ===== *)
theory Session_Facts
  imports Session_Handler Role_Facts Log_Content
begin

text \<open>
  The session between its client and the components behind it: a command keeps the log well
  formed whatever it is, a commit on the primary is decided by the backup, and who has not
  authenticated changes nothing on a backup.
\<close>

section \<open>The primary's own commit\<close>

lemma commit_local_sim:
  assumes E: "files_ok E" and wf: "wf_log (log_trans s)" and k: "\<not> server_key k"
    and a: "abs_log (log_trans s) k = Some a" "phase a = Writing q"
    and ret: "commit_local E k s = Ok s'"
  shows "wf_log (log_trans s') \<and> abs_log (log_trans s') = (abs_log (log_trans s))(k \<mapsto> a\<lparr>phase := Committed q\<rparr>)
    \<and> (target a \<noteq> fileName \<longrightarrow>
        file_text (files s') (target a) = file_text (files s) (target a) @ txn_text a q)
    \<and> (\<forall>p. p \<noteq> target a \<longrightarrow> p \<noteq> fileName \<longrightarrow> files s' p = files s p)"
proof -
  obtain t where t: "om_find (log_trans s) k = Some t" and at: "a = abs_txn t"
    using a(1) k by (auto simp: abs_log_find)
  have wt: "wf_txn t" by (rule wf_log_txn [OF wf t k])
  then obtain st d where p: "om_find t (- 1) = Some (st, d)" and ws: "wf_status t (st, d)"
    using wf_txn_status [OF wt] by (metis prod.exhaust_sel)
  have st: "st = ''WRITING''" "atoi_val d = q"
    using a(2) at abs_phase [OF p] by (auto split: if_splits)
  with ws have q: "1 \<le> q" "in_int32 q" "stored_run t q"
    by (auto simp: wf_status_def)
  have d: "atoi d = Ok q" using st q by (simp add: atoi_def)
  from ret obtain s1 l1 where w: "writeFile E k s = Ok (True, s1)"
    and l1: "changeStatus (log_trans s1) k ''COMMITTED'' = Ok l1"
    and sv: "save E (s1\<lparr>log_trans := l1\<rparr>) = Ok s'"
    by (auto simp: commit_local_def split: if_splits)
  note wr = writeFile_run [OF E t wf_txn_base [OF wt] p d q(3) w]
  have "log_trans s1 = log_trans s" using wr by blast
  with l1 have l1': "l1 = with_status k (''COMMITTED'', d) t (log_trans s)"
    using changeStatus_eval [OF t p, of "''COMMITTED''"] by simp
  have "wf_status t (''COMMITTED'', d)"
    using st q by (simp add: wf_status_def statuses_def)
  then have "wf_log l1" unfolding l1' by (intro wf_with_status [OF wf wt k])
  moreover have "abs_log l1 = (abs_log (log_trans s))(k \<mapsto> a\<lparr>phase := Committed q\<rparr>)"
    using k st by (simp add: l1' at)
  moreover have "log_trans s' = l1" using save_log [OF sv] by simp
  ultimately show ?thesis
    using wr save_files [OF E sv] at by (auto simp: file_text_def)
qed

lemma commit_local_serves:
  assumes E: "files_ok E" and wf: "wf_log (log_trans s)" and k: "\<not> server_key k"
    and a: "abs_log (log_trans s) k = Some a" "phase a = Writing q"
    and ret: "commit_local E k s = Ok s'" and u: "unbroken (writes a) q" "1 \<le> q"
  shows "wf_log (log_trans s') \<and> serve (service_of s) (service_of s')"
proof -
  let ?m = "(abs_log (log_trans s))(k \<mapsto> a\<lparr>phase := Committed q\<rparr>)"
  note sim = commit_local_sim [OF E wf k a ret]
  have "visible (files s') p = visible (files s) p @ lands ?m p k" for p
    using sim by (cases "p = target a") (auto simp: visible_def lands_def own_file_def file_text_def)
  then have "service_of s' = moved k ?m (service_of s)"
    using sim a by (auto simp: service_of_def moved_def settled_def)
  moreover have "serve (service_of s) (moved k ?m (service_of s))"
    using serve.finishes [of "service_of s" k a q] a u by simp
  ultimately show ?thesis using sim by simp
qed

section \<open>Commands and the log\<close>

text \<open>
  What every operation keeps: the log stays well formed, and the service goes on by steps it
  may take.
\<close>

definition kept :: "lstate \<Rightarrow> lstate \<Rightarrow> bool" where
  "kept s s' \<longleftrightarrow> wf_log (log_trans s') \<and> serve\<^sup>*\<^sup>* (service_of s) (service_of s')"

lemma kept_trans: "kept a b \<Longrightarrow> kept b c \<Longrightarrow> kept a c"
  by (auto simp: kept_def)

lemma kept_same: "wf_log (log_trans s') \<Longrightarrow> service_of s' = service_of s \<Longrightarrow> kept s s'"
  by (simp add: kept_def)

lemma kept_refl: "wf_log (log_trans s) \<Longrightarrow> kept s s"
  by (simp add: kept_same)

lemma kept_step: "wf_log (log_trans s') \<Longrightarrow> serve (service_of s) (service_of s') \<Longrightarrow> kept s s'"
  by (simp add: kept_def r_into_rtranclp)

lemma kept_final: "kept s s' \<Longrightarrow> final_kept (abs_log (log_trans s)) (abs_log (log_trans s'))"
  using serves_final [of "service_of s" "service_of s'"] by (simp add: kept_def)

lemma kept_wf: "kept s s' \<Longrightarrow> wf_log (log_trans s')"
  by (simp add: kept_def)

text \<open>A request that does not name the server's own entries of the log as its transaction.\<close>

definition proper :: "env \<Rightarrow> int \<Rightarrow> string \<Rightarrow> bool" where
  "proper E i header \<longleftrightarrow> (i = 1 \<or> i = 3 \<or> i = 5 \<or> i = 6) \<longrightarrow> \<not> server_key (getTsn E header)"

lemma newTxn_kept:
  assumes "files_ok E" "random_ok E" "wf_log (log_trans s)" "newTxn E f s = Ok (rn, s')"
  shows "kept s s'"
  using assms(3,4) newTxn_sim [OF assms(2,3) _ assms(4)] newTxn_serves [OF assms]
  by (cases "posix_name E f") (auto simp: newTxn_def kept_def)

lemma backupServerData_wf:
  assumes "wf_log l" "\<not> backupRegistered l" "backupServerData E x l = Ok l'"
  shows "wf_log l' \<and> abs_log l' = abs_log l"
proof -
  from assms(2,3) obtain a b where l': "l' = om_put (- 1) [(0, (a, b))] l"
    by (auto simp: backupServerData_def backupRegistered_def Let_def)
  have "wf_log l'"
    using assms(1) unfolding wf_log_def l'
    by (auto simp: om_simps om_oks list_all_iff om.keys_put server_key_def split: option.splits)
  moreover have "abs_log l' = abs_log l"
    by (auto simp: l' abs_log_def om_simps server_key_def fun_eq_iff)
  ultimately show ?thesis ..
qed

lemma set_lh_node [simp]: "lh (set_lh s n) = s" "rm (set_lh s n) = rm n"
  by (simp_all add: set_lh_def)

lemma failed_Ok [simp]:
  "failed E mt h c t n ss = Ok (ex, err, n', ss') \<longleftrightarrow>
     \<not> ex \<and> genAnswerStr E mt h c t = Ok err \<and> n' = n \<and> ss' = ss"
  by (auto simp: failed_def)

text \<open>
  What every command leaves: a well-formed log; and where it reports \<open>committed\<close>, the
  transaction it names is about to be committed.
\<close>

definition good_outcome :: "env \<Rightarrow> string \<Rightarrow> 'w node \<Rightarrow> bool \<Rightarrow> string \<Rightarrow> 'w node \<Rightarrow> bool" where
  "good_outcome E header n ex err n' \<longleftrightarrow>
     kept (lh n) (lh n') \<and>
     (\<not> ex \<and> err = ''committed'' \<longrightarrow>
        \<not> server_key (getTsn E header) \<and> getRole (node_log n') = getRole (node_log n) \<and>
        committing (is_primary (node_log n)) (getTsn E header) (node_log n'))"

lemma good_plain: "kept (lh n) (lh n') \<Longrightarrow> ex \<or> err \<noteq> ''committed'' \<Longrightarrow> good_outcome E h n ex err n'"
  by (auto simp: good_outcome_def)

lemma do_abort_good:
  assumes "wf_log (node_log n)" "\<not> server_key (getTsn E h)" "do_abort E h x n ss = Ok (ex, err, n', ss')"
  shows "good_outcome E h n ex err n'"
proof -
  from assms(3) obtain ret error s1 where a: "abort_txn E h (lh n) = Ok (ret, error, s1)"
    and n': "lh n' = s1" "ret \<longrightarrow> ex" "\<not> ret \<longrightarrow> \<not> ex \<and> err = error"
    by (auto simp: do_abort_def split: if_splits dest!: enqueue_lh)
  obtain v where v: "spec_abort (getTsn E h) (abs_log (node_log n)) = (v, abs_log (log_trans s1))"
    "says E h v ret error" "wf_log (log_trans s1)"
    using abort_sim [OF assms(1,2) a] by blast
  then have "kept (lh n) s1" using abort_serves [OF assms(1,2) a] by (simp add: kept_step)
  with v n' show ?thesis
    by (intro good_plain) (auto simp: spec_abort_def says_def not_found_def
        split: option.splits phase.splits)
qed


lemma do_new_txn_good:
  assumes "files_ok E" "random_ok E" "wf_log (node_log n)" "do_new_txn E h x n ss = Ok (ex, err, n', ss')"
  shows "good_outcome E h n ex err n'"
proof -
  from assms(4) obtain rn s1 where a: "newTxn E x (lh n) = Ok (rn, s1)"
    and n': "lh n' = s1" "ex \<or> genAnswerStr E ''ERROR'' h ''205'' ''Invalid file name.'' = Ok err"
    by (auto simp: do_new_txn_def split: if_splits dest!: enqueue_lh)
  have "kept (lh n) s1" by (rule newTxn_kept [OF assms(1-3) a])
  with n' show ?thesis by (intro good_plain) auto
qed

lemma do_commit_good:
  assumes E: "text_ok E" "files_ok E" and wf: "wf_log (node_log n)" and k: "\<not> server_key (getTsn E h)"
    and run: "do_commit_cmd E h x n ss = Ok (ex, err, n', ss')"
  shows "good_outcome E h n ex err n'"
proof -
  from run obtain s1 where a: "commit E h (lh n) = Ok (ex, err, s1)" and n': "lh n' = s1"
    by (auto simp: do_commit_cmd_def split: if_splits dest!: enqueue_lh)
  have "kept (lh n) s1"
    using commit_sim [OF E(1) wf k a] commit_serves [OF E wf k a] by (auto intro: kept_step)
  moreover have "getRole (log_trans s1) = getRole (node_log n)"
    using only_at_role [OF commit_only [OF a]] k by (simp add: server_key_def)
  moreover have "err = ''committed'' \<Longrightarrow> committing (is_primary (node_log n)) (getTsn E h) (log_trans s1)"
    using commit_committing [OF E(1) wf k, of ex s1] a by simp
  ultimately show ?thesis using n' k by (simp add: good_outcome_def)
qed

lemma do_write_good:
  assumes E: "text_ok E" "files_ok E" and wf: "wf_log (node_log n)" and k: "\<not> server_key (getTsn E h)"
    and run: "do_write E h x n ss = Ok (ex, err, n', ss')"
  shows "good_outcome E h n ex err n'"
proof -
  from run obtain ret error s1 where a: "addLogEntry E h x (lh n) = Ok (ret, error, s1)"
    and n': "lh n' = s1" "ex = ret" "err = error"
    by (auto simp: do_write_def split: if_splits dest!: enqueue_lh)
  have "kept (lh n) s1"
    using write_sim [OF E(1) wf k a] write_serves [OF E wf k a] by (auto intro: kept_step)
  moreover have "getRole (log_trans s1) = getRole (node_log n)"
    using only_at_role [OF addLogEntry_only [OF E(1) a]] k by (simp add: server_key_def)
  moreover have "err = ''committed'' \<Longrightarrow> committing (is_primary (node_log n)) (getTsn E h) (log_trans s1)"
    using write_committing [OF E(1) wf k, of x ret s1] a n' by simp
  ultimately show ?thesis using n' k by (simp add: good_outcome_def)
qed

lemma do_make_txn_good:
  assumes "files_ok E" "wf_log (node_log n)" "\<not> server_key (getTsn E h)" "do_make_txn E h x n ss = Ok (ex, err, n', ss')"
  shows "good_outcome E h n ex err n'"
proof -
  from assms(4) obtain made s1 where m: "makeTxn E x (getTsn E h) (lh n) = Ok (made, s1)" "lh n' = s1" "ex"
    by (auto simp: do_make_txn_def)
  have "kept (lh n) s1"
    using makeTxn_sim [OF assms(2,3) m(1)] makeTxn_serves [OF assms(1-3) m(1)] by (simp add: kept_def)
  with m show ?thesis by (intro good_plain) auto
qed

lemma do_ping_good:
  assumes "wf_log (node_log n)" "do_ping E h x n ss = Ok (ex, err, n', ss')"
  shows "good_outcome E h n ex err n'"
  using assms backupServerData_wf [OF assms(1)]
  by (auto simp: do_ping_def intro!: good_plain kept_same split: if_splits)

lemma do_read_good:
  assumes "wf_log (node_log n)" "do_read E h x n ss = Ok (ex, err, n', ss')"
  shows "good_outcome E h n ex err n'"
proof -
  have "n' = n" "ex \<or> (\<exists>t. genAnswerStr E ''ERROR'' h ''206'' t = Ok err)"
    using assms(2) by (auto simp: do_read_def Let_def split: prod.splits if_splits)
  with assms(1) show ?thesis by (intro good_plain kept_same) auto
qed

lemma executed:
  assumes "executeCommand E N i h x n ss = Ok r"
  obtains auth where "known ss" "authorized i n ss = Ok auth"
    "(if \<not> auth then failed E ''AUTH_FAIL'' h ''321'' ''Not authorized'' n ss
       else if i < 1 then failed E ''ERROR'' h ''204'' ''Invalid method'' n ss
       else if i = 1 then do_abort E h x n ss
       else if i = 2 then do_new_txn E h x n ss
       else if i = 3 then do_commit_cmd E h x n ss
       else if i = 4 then do_read E h x n ss
       else if i = 5 then do_write E h x n ss
       else if i = 6 then do_make_txn E h x n ss
       else if i = 7 then do_ping E h x n ss
       else if i = 8 then Ok (True, [], n, doAuth (rem_ip ss) (rem_port ss) ss)
       else if i = 9 then bnd (switchToBackup N n) (\<lambda>(b, n1). Ok (True, [], n1, ss))
       else failed E ''ERROR'' h ''204'' ''Invalid method'' n ss) = Ok r"
  using assms unfolding executeCommand_def by (cases "known ss") (auto elim!: bndE)

lemma executeCommand_good:
  assumes E: "text_ok E" "random_ok E" "files_ok E" and wf: "wf_log (node_log n)" and p: "proper E i h"
    and run: "executeCommand E N i h x n ss = Ok (ex, err, n', ss')"
  shows "good_outcome E h n ex err n'"
proof -
  from run obtain auth where run: "(if \<not> auth then failed E ''AUTH_FAIL'' h ''321'' ''Not authorized'' n ss
       else if i < 1 then failed E ''ERROR'' h ''204'' ''Invalid method'' n ss
       else if i = 1 then do_abort E h x n ss
       else if i = 2 then do_new_txn E h x n ss
       else if i = 3 then do_commit_cmd E h x n ss
       else if i = 4 then do_read E h x n ss
       else if i = 5 then do_write E h x n ss
       else if i = 6 then do_make_txn E h x n ss
       else if i = 7 then do_ping E h x n ss
       else if i = 8 then Ok (True, [], n, doAuth (rem_ip ss) (rem_port ss) ss)
       else if i = 9 then bnd (switchToBackup N n) (\<lambda>(b, n1). Ok (True, [], n1, ss))
       else failed E ''ERROR'' h ''204'' ''Invalid method'' n ss) = Ok (ex, err, n', ss')"
    by (rule executed)
  have refused: ?thesis if "failed E mt h c t n ss = Ok (ex, err, n', ss')" "mt \<in> set answer_methods" for mt c t
    using that wf by (intro good_plain kept_same) auto
  have kill: ?thesis if "switchToBackup N n = Ok (b, n')" "ex" for b
    using that wf switchToBackup_keeps [of N n b n'] wf_log_ok [OF wf]
    by (intro good_plain kept_same) (auto simp: keeps_txns_def)
  consider "\<not> auth \<or> i < 1 \<or> 9 < i" | "auth" "i = 1" | "auth" "i = 2" | "auth" "i = 3" | "auth" "i = 4"
    | "auth" "i = 5" | "auth" "i = 6" | "auth" "i = 7" | "auth" "i = 8" | "auth" "i = 9"
    by linarith
  then show ?thesis
  proof cases
    case 1
    with run refused show ?thesis by (auto split: if_splits simp del: failed_Ok)
  next
    case 2
    with run p wf show ?thesis by (intro do_abort_good) (auto simp: proper_def)
  next
    case 3
    with run wf E show ?thesis by (intro do_new_txn_good) auto
  next
    case 4
    with run p wf E show ?thesis by (intro do_commit_good) (auto simp: proper_def)
  next
    case 5
    with run wf show ?thesis by (intro do_read_good) auto
  next
    case 6
    with run p wf E show ?thesis by (intro do_write_good) (auto simp: proper_def)
  next
    case 7
    with run p wf E show ?thesis by (intro do_make_txn_good) (auto simp: proper_def)
  next
    case 8
    with run wf show ?thesis by (intro do_ping_good) auto
  next
    case 9
    with run wf show ?thesis by (intro good_plain kept_same) auto
  next
    case 10
    with run kill show ?thesis by auto
  qed
qed

section \<open>The commit of the session\<close>

text \<open>
  On the primary: either the backup (or its absence) let the commit through, and then the
  file has the data and the answer is the acknowledgement, or the transaction, the files
  and the log are as they were and the answer is error 205.
\<close>

lemma doCommit_primary:
  assumes E: "files_ok E" and wf: "wf_log (node_log n)" and k: "\<not> server_key (getTsn E h)"
    and role: "is_primary (node_log n)"
    and a: "abs_log (node_log n) (getTsn E h) = Some a" "phase a = Writing q"
    and run: "doCommit j E N h n ss = Ok (n', ss')"
  obtains (through) ack seq n1 where
      "rm_commit j E N (commit_message E h seq) n = Ok (True, n1)" "getStatusData (node_log n) (getTsn E h) = Ok seq"
      "commit_local E (getTsn E h) (lh n1) = Ok (lh n')" "rm n' = rm n1" "wld n' = wld n1"
      "genAnswerStr E ''ACK'' h ''0'' ''Committed successfully.'' = Ok ack" "sent ss' = sent ss @ [ack]"
      "stays (lh n) (lh n1)"
  | (stopped) err seq where
      "rm_commit j E N (commit_message E h seq) n = Ok (False, n')" "getStatusData (node_log n) (getTsn E h) = Ok seq"
      "genAnswerStr E ''ERROR'' h ''205'' ''commit fail, i/o error'' = Ok err" "sent ss' = sent ss @ [err]"
      "stays (lh n) (lh n')"
proof -
  from run role obtain ack seq good n1 where ack: "genAnswerStr E ''ACK'' h ''0'' ''Committed successfully.'' = Ok ack"
    and seq: "getStatusData (node_log n) (getTsn E h) = Ok seq"
    and rm: "rm_commit j E N (commit_message E h seq) n = Ok (good, n1)"
    and rest: "(if good then bnd (commit_local E (getTsn E h) (lh n1)) (\<lambda>s1.
             bnd (sendACK ack ss) (\<lambda>ss1. Ok (n1\<lparr>lh := s1\<rparr>, ss1)))
           else bnd (answer E ''ERROR'' h ''205'' ''commit fail, i/o error'' ss) (\<lambda>ss1. Ok (n1, ss1))) = Ok (n', ss')"
    by (auto simp: doCommit_def simp del: bnd_eq_Ok Ok_eq_bnd elim!: bndE)
  show thesis
  proof (cases good)
    case True
    with rm have rm': "rm_commit j E N (commit_message E h seq) n = Ok (True, n1)" by simp
    from True rest show ?thesis
      by (intro through [OF rm' seq _ _ _ ack _ manager_stays(1) [OF rm]])
        (auto simp: sendACK_def split: if_splits)
  next
    case False
    with rest manager_stays(1) [OF rm] rm seq show ?thesis
      by (auto simp: answer_def sendACK_def split: if_splits intro!: stopped)
  qed
qed

lemma doCommit_kept:
  assumes E: "files_ok E" and wf: "wf_log (node_log n)" and k: "\<not> server_key (getTsn E h)"
    and c: "committing (is_primary (node_log n)) (getTsn E h) (node_log n)"
    and run: "doCommit j E N h n ss = Ok (n', ss')"
  shows "kept (lh n) (lh n')"
proof (cases "is_primary (node_log n)")
  case True
  with c obtain a q where a: "abs_log (node_log n) (getTsn E h) = Some a" "phase a = Writing q"
    by (auto simp: committing_def)
  from E wf k True a run show ?thesis
  proof (cases rule: doCommit_primary)
    case (through ack seq n1)
    have "wf_log (node_log n1)" "abs_log (node_log n1) = abs_log (node_log n)"
      using stays_wf [OF through(8) wf] stays_abs [OF through(8) wf_log_ok [OF wf]] .
    then show ?thesis
      using commit_local_serves [OF E _ k _ a(2) through(3)] c True a through(8)
      by (auto simp: kept_def committing_def service_of_def stays_def)
  next
    case (stopped err seq)
    show ?thesis
      using stays_wf [OF stopped(5) wf] stays_abs [OF stopped(5) wf_log_ok [OF wf]] stopped(5)
      by (intro kept_same) (simp_all add: service_of_def stays_def)
  qed
next
  case False
  with run have "n' = n" by (auto simp: doCommit_def split: if_splits)
  with wf show ?thesis by (simp add: kept_refl)
qed

section \<open>The whole packet\<close>

lemma respond_simps:
  "respond j E N h (True, err, n, ss) = Ok (n, ss)"
  "respond j E N h (False, ''committed'', n, ss) = doCommit j E N h n ss"
  "respond j E N h (False, ''incomplete'', n, ss) =
     bnd (sendACK_RESEND E (getTsn E h) (node_log n) ss) (\<lambda>ss1. Ok (n, ss1))"
  "err \<noteq> ''committed'' \<Longrightarrow> err \<noteq> ''incomplete'' \<Longrightarrow>
     respond j E N h (False, err, n, ss) = bnd (sendACK err ss) (\<lambda>ss1. Ok (n, ss1))"
  by (simp_all add: respond_def)

lemma respond_kept:
  assumes E: "files_ok E" and g: "good_outcome E h n ex err n1"
    and run: "respond j E N h (ex, err, n1, ss) = Ok (n', ss')"
  shows "kept (lh n) (lh n')"
proof -
  consider (ret) "ex" | (commit) "\<not> ex" "err = ''committed''" | (more) "\<not> ex" "err = ''incomplete''"
    | (refused) "\<not> ex" "err \<noteq> ''committed''" "err \<noteq> ''incomplete''"
    by blast
  then show ?thesis
  proof cases
    case commit
    with g have k: "kept (lh n) (lh n1)" and c: "\<not> server_key (getTsn E h)"
      "committing (is_primary (node_log n1)) (getTsn E h) (node_log n1)"
      by (simp_all add: good_outcome_def)
    from commit run have d: "doCommit j E N h n1 ss = Ok (n', ss')"
      by (simp add: respond_simps)
    have "wf_log (node_log n1)" using k by (simp add: kept_def)
    from doCommit_kept [OF E this c d] show ?thesis by (rule kept_trans [OF k])
  qed (use run g in \<open>auto simp: respond_simps good_outcome_def\<close>)
qed

lemma act_kept:
  assumes "text_ok E" "random_ok E" "files_ok E" "wf_log (node_log n)"
    and p: "\<And>i. parse E h = Ok i \<Longrightarrow> proper E i h"
    and run: "act j E N h x n ss = Ok (n', ss')"
  shows "kept (lh n) (lh n')"
proof -
  from run obtain i ex err n1 ss1 where "parse E h = Ok i"
    "executeCommand E N i h x n (start ss) = Ok (ex, err, n1, ss1)"
    "respond j E N h (ex, err, n1, ss1) = Ok (n', ss')"
    by (auto simp: act_def)
  with executeCommand_good [OF assms(1-4)] p respond_kept [OF assms(3)] show ?thesis by blast
qed

text \<open>A buffer whose packet, if it holds one, is proper.\<close>

definition proper_packet :: "env \<Rightarrow> string \<Rightarrow> bool" where
  "proper_packet E buf =
     (case getline (buf, False) [] of (g, line, st) \<Rightarrow>
      case skip_short (strip_cr line) st of
        None \<Rightarrow> True
      | Some (header, st1) \<Rightarrow>
          (case parse E header of Ok i \<Rightarrow> proper E i header | Stop e \<Rightarrow> True))"

lemma packet_body_kept:
  assumes "text_ok E" "random_ok E" "files_ok E" "wf_log (node_log n)"
    and p: "\<And>i. parse E h = Ok i \<Longrightarrow> proper E i h"
    and run: "packet_body j E N h x n ss = Ok (n', ss')"
  shows "kept (lh n) (lh n')"
proof -
  note a = act_kept [OF assms(1-4) p]
  consider "n' = n" | y ss1 where "act j E N h y n ss1 = Ok (n', ss')"
    using run by (auto simp: packet_body_def Let_def reject_def split: if_splits option.splits)
  then show ?thesis
    using a assms(4) by cases (auto intro: kept_refl)
qed

lemma read_packet_kept:
  assumes "text_ok E" "random_ok E" "files_ok E" "wf_log (node_log n)"
    and p: "proper_packet E (buf_b ss)"
    and run: "read_packet j E N n ss = Ok (n', ss')"
  shows "kept (lh n) (lh n')"
proof -
  obtain g line st where g: "getline (buf_b ss, False) [] = (g, line, st)" by (metis prod_cases3)
  show ?thesis
  proof (cases "skip_short (strip_cr line) st")
    case None
    with run g assms(4) show ?thesis by (auto simp: read_packet_def reject_def kept_refl)
  next
    case (Some hs)
    obtain h st1 where hs: "hs = (h, st1)" by (metis surj_pair)
    have p': "proper E i h" if "parse E h = Ok i" for i
      using p g Some hs that by (simp add: proper_packet_def)
    have "handle_packet j E N h st1 n ss = Ok (n', ss')"
      using run g Some hs by (simp add: read_packet_def)
    then show ?thesis
      using packet_body_kept [OF assms(1-4) p'] assms(4)
      by (auto simp: handle_packet_def reject_def kept_refl Let_def split: if_splits prod.splits)
  qed
qed

end
