(* ===== verification/Server_Facts.thy ===== *)
theory Server_Facts
  imports Server_Main Session_Facts
begin

text \<open>
  The server as a transition system: whatever order connections, packets and timers come in,
  the log stays well formed and what is committed stays committed.
\<close>

section \<open>Transition systems with a property that every step keeps\<close>

locale step_system =
  fixes step :: "'s \<Rightarrow> 's \<Rightarrow> bool"
    and ok :: "'s \<Rightarrow> bool"
    and keep :: "'s \<Rightarrow> 's \<Rightarrow> bool"
  assumes step_ok: "ok s \<Longrightarrow> step s t \<Longrightarrow> ok t \<and> keep s t"
    and keep_refl: "ok s \<Longrightarrow> keep s s"
    and keep_trans: "keep a b \<Longrightarrow> keep b c \<Longrightarrow> keep a c"
begin

lemma steps_keep: "step\<^sup>*\<^sup>* s t \<Longrightarrow> ok s \<Longrightarrow> ok t \<and> keep s t"
proof (induction rule: rtranclp_induct)
  case base
  then show ?case by (simp add: keep_refl)
next
  case (step t u)
  with step_ok keep_trans show ?case by blast
qed

lemma steps_ok: "step\<^sup>*\<^sup>* s t \<Longrightarrow> ok s \<Longrightarrow> ok t"
  using steps_keep by blast

end

section \<open>The timers\<close>

lemma tm_check_kept:
  assumes E: "files_ok E" and wf: "wf_log (log_trans s)" and run: "tm_check E t s = Ok (t', s')"
  shows "kept s s'"
proof -
  from run obtain s1 where s1: "(if timer_since t + 1 = 30 then timeouts E s else Ok s) = Ok s1"
    and sv: "save E s1 = Ok s'"
    by (auto simp: tm_check_def Let_def simp del: Ok_eq_bnd)
  have "kept s s1"
    using s1 timeouts_sim [OF wf] timeouts_serves [OF E wf] wf
    by (cases "timer_since t + 1 = 30") (auto intro: kept_step kept_refl)
  moreover have "kept s1 s'" if "wf_log (log_trans s1)"
    using that save_log [OF sv] save_visible [OF E sv] by (intro kept_same) (simp_all add: service_of_def)
  ultimately show ?thesis using kept_wf kept_trans by blast
qed

lemma rm_check_kept:
  assumes "wf_log (node_log n)" "rm_check k E N n = Ok n'" shows "kept (lh n) (lh n')"
  using rm_check_keeps [OF assms(2)] assms(1) wf_log_ok [OF assms(1)]
  by (auto simp: keeps_txns_def service_of_def intro: kept_same)

section \<open>Events\<close>

fun proper_event :: "env \<Rightarrow> 'w server \<Rightarrow> event \<Rightarrow> bool" where
  "proper_event E s (Arrived i error u tail up) \<longleftrightarrow> error \<or> proper_packet E (buf_b (live s ! i) @ u)"
| "proper_event E s e \<longleftrightarrow> True"

definition libs_ok :: "env \<Rightarrow> bool" where
  "libs_ok E \<longleftrightarrow> text_ok E \<and> random_ok E \<and> files_ok E"

lemma ref_libs_ok [simp]: "libs_ok ref_env"
  by (simp add: libs_ok_def)

abbreviation server_log :: "'w server \<Rightarrow> log" where
  "server_log s \<equiv> node_log (node s)"

lemma handle_read_kept:
  assumes "libs_ok E" "wf_log (node_log n)" "error \<or> proper_packet E (buf_b ss)"
    and "handle_read k E N error n ss = Ok (n', ss')"
  shows "kept (lh n) (lh n')"
proof (cases error)
  case True
  with assms(2,4) show ?thesis by (simp add: handle_read_def kept_refl)
next
  case False
  with assms(4) obtain ss1 where "read_packet k E N n (ss\<lparr>listening := False\<rparr>) = Ok (n', ss1)"
    by (auto simp: handle_read_def)
  with assms False show ?thesis
    using read_packet_kept [of E n "ss\<lparr>listening := False\<rparr>" k N n' ss1] by (simp add: libs_ok_def)
qed

lemma server_step_kept:
  assumes E: "libs_ok E" and wf: "wf_log (server_log s)" and p: "proper_event E s e"
    and run: "server_step k E N e s = Ok s'"
  shows "kept (lh (node s)) (lh (node s'))"
proof (cases e)
  case (Accepted error ip port)
  with run wf show ?thesis by (auto simp: handle_accept_def kept_refl split: option.splits)
next
  case (Arrived i error u tail up)
  let ?ss = "(live s ! i)\<lparr>buf_b := buf_b (live s ! i) @ u, incoming := tail, writable := up = There, known := up \<noteq> Gone\<rparr>"
  show ?thesis
  proof (cases "i < length (live s) \<and> listening (live s ! i)")
    case True
    with run Arrived obtain n ss where "handle_read k E N error (node s) ?ss = Ok (n, ss)" "node s' = n"
      by auto
    with handle_read_kept [OF E wf, of error ?ss k N n ss] p Arrived show ?thesis by simp
  next
    case False
    with run Arrived wf show ?thesis by (simp add: kept_refl)
  qed
next
  case Txn_timer
  with run E tm_check_kept [OF _ wf] show ?thesis by (auto simp: libs_ok_def)
next
  case Rep_timer
  with run rm_check_kept [OF wf] show ?thesis by auto
qed

text \<open>One event, with whatever fuel it needs.\<close>

inductive srv_step :: "env \<Rightarrow> 'w net \<Rightarrow> 'w server \<Rightarrow> 'w server \<Rightarrow> bool" for E N where
  event: "proper_event E s e \<Longrightarrow> server_step k E N e s = Ok s' \<Longrightarrow> srv_step E N s s'"

inductive_cases srv_stepE: "srv_step E N s s'"

definition srv_ok :: "env \<Rightarrow> 'w server \<Rightarrow> bool" where
  "srv_ok E s \<longleftrightarrow> libs_ok E \<and> wf_log (server_log s)"

definition srv_keep :: "'w server \<Rightarrow> 'w server \<Rightarrow> bool" where
  "srv_keep s s' \<longleftrightarrow> kept (lh (node s)) (lh (node s'))"

interpretation srv: step_system "srv_step E N" "srv_ok E" srv_keep for E N
proof
  show "srv_ok E s \<Longrightarrow> srv_step E N s t \<Longrightarrow> srv_ok E t \<and> srv_keep s t" for s t
  proof (elim srv_stepE)
    fix e k
    assume "srv_ok E s" "proper_event E s e" "server_step k E N e s = Ok t"
    then have "libs_ok E" "kept (lh (node s)) (lh (node t))"
      using server_step_kept [of E s e k N t] by (simp_all add: srv_ok_def)
    then show "srv_ok E t \<and> srv_keep s t"
      by (simp add: srv_ok_def srv_keep_def kept_def)
  qed
  show "srv_ok E s \<Longrightarrow> srv_keep s s" for s
    by (simp add: srv_ok_def srv_keep_def kept_refl)
  show "srv_keep a b \<Longrightarrow> srv_keep b c \<Longrightarrow> srv_keep a c" for a b c
    by (auto simp: srv_keep_def intro: kept_trans)
qed

text \<open>A list of events, each proper in the state it meets.\<close>

fun proper_run :: "nat \<Rightarrow> env \<Rightarrow> 'w net \<Rightarrow> event list \<Rightarrow> 'w server \<Rightarrow> bool" where
  "proper_run k E N [] s \<longleftrightarrow> True"
| "proper_run k E N (e # es) s \<longleftrightarrow> proper_event E s e \<and>
     (case server_step k E N e s of Ok s1 \<Rightarrow> proper_run k E N es s1 | Stop x \<Rightarrow> True)"

lemma run_server_steps:
  "run_server k E N es s = Ok s' \<Longrightarrow> proper_run k E N es s \<Longrightarrow> (srv_step E N)\<^sup>*\<^sup>* s s'"
proof (induction es arbitrary: s)
  case (Cons e es)
  then obtain s1 where s1: "server_step k E N e s = Ok s1" "run_server k E N es s1 = Ok s'" by auto
  with Cons.prems have p: "proper_event E s e" "proper_run k E N es s1" by simp_all
  from event [where N = N, OF p(1) s1(1)] Cons.IH [OF s1(2) p(2)] show ?case
    by (rule converse_rtranclp_into_rtranclp)
qed simp

section \<open>The start\<close>

text \<open>
  Whatever the log file held, if its transactions were well formed the server starts on a
  well-formed log that has them all.
\<close>

lemma Server_init_log:
  assumes "Server_init E ip port role dir d k w = Ok s" "LogHandler_init E d k = Ok s0"
  shows "server_log s = serverData ip (lex_str E port) role dir (log_trans s0)"
    "files (lh (node s)) = files s0"
  using assms by (auto simp: Server_init_def Let_def split: if_splits)

lemma Server_init_wf:
  assumes "Server_init E ip port role dir d k w = Ok s" "LogHandler_init E d k = Ok s0"
    and "wf_txns (log_trans s0)" "role = ''primary'' \<or> role = ''backup''"
  shows "wf_log (server_log s) \<and> abs_log (server_log s) = abs_log (log_trans s0)"
  using assms(3,4) Server_init_log(1) [OF assms(1,2)]
  by (simp add: wf_serverData serverData_abs wf_txns_def)

lemma fresh_start:
  assumes "files_ok E" "d fileName = None" "LogHandler_init E d k = Ok s0"
  shows "log_trans s0 = [] \<and> files s0 = d(fileName \<mapsto> File (oarchive E []))"
  using assms save_files [OF assms(1), of "\<lparr>log_trans = [], files = d, rng = k\<rparr>" s0]
  by (auto simp: LogHandler_init_def checkPath_def dest: save_log)

lemma wf_txns_empty [simp]: "wf_txns []"
  by (simp add: wf_txns_def)

end
