(* ===== verification/Log_Safety.thy ===== *)
theory Log_Safety
  imports Log_Content
begin

text \<open>
  On a well-formed log a request of at least three fields that names a transaction of its own
  never runs into undefined behaviour: the calls return, or throw out of the save where the
  log file cannot be opened.
\<close>

section \<open>Returning or throwing\<close>

definition defined :: "'a res \<Rightarrow> bool" where
  "defined m \<longleftrightarrow> is_ok m \<or> m = Stop Thrown"

lemma defined_simps [simp]:
  "defined (Ok a)" "defined (Stop e) \<longleftrightarrow> e = Thrown"
  by (simp_all add: defined_def is_ok_def)

lemma defined_bnd [intro]: "defined m \<Longrightarrow> (\<And>a. m = Ok a \<Longrightarrow> defined (f a)) \<Longrightarrow> defined (bnd m f)"
  by (cases m) auto

lemma defined_Ok: "m = Ok a \<Longrightarrow> defined m"
  by simp

lemma defined_save: "defined (save E s)"
  by (simp add: save_def split: option.split)

lemma defined_answer: "3 \<le> length (tokens E h) \<Longrightarrow> defined (genAnswerStr E mt h c e)"
  by (simp add: genAnswerStr_def Let_def)

lemma defined_refuse: "3 \<le> length (tokens E h) \<Longrightarrow> defined (refuse E h mt c e s)"
  unfolding refuse_def by (intro defined_bnd defined_answer) simp_all

lemma defined_change:
  "om_find l k = Some t \<Longrightarrow> om_find t (- 1) = Some (st, d) \<Longrightarrow> defined (changeStatus l k x)"
  "om_find l k = Some t \<Longrightarrow> om_find t (- 1) = Some (st, d) \<Longrightarrow> defined (changeStatusData l k x)"
  by (simp_all add: changeStatus_eval changeStatusData_eval)

section \<open>Commit\<close>

lemma defined_writeFile:
  assumes t: "om_find (log_trans s) k = Some t" "has_base t"
    and p: "om_find t (- 1) = Some (st, d)" "atoi d = Ok n"
    and n: "0 \<le> n" "n < 2147483647" "stored_run t n"
  shows "\<exists>b s'. writeFile E k s = Ok (b, s')"
proof -
  obtain z f where z: "om_find t 0 = Some (z, f)" using t(2) by (auto simp: has_base_iff)
  have ev: "getFileName (log_trans s) k = Ok f" "getStatusData (log_trans s) k = Ok n"
    using t(1) z p by (simp_all add: getFileName_def getStatusData_eval)
  have r: "seq_range n = Ok [1..n]" using n by (simp add: seq_range_def)
  show ?thesis
    by (auto simp: writeFile_def ev r Let_def stored_run_collect [OF t(1) n(3)] split: option.split)
qed

lemma commit_wait_defined:
  assumes "om_find (log_trans s) k = Some t" "om_find t (- 1) = Some (st, d)"
  shows "defined (commit_wait E k q s)"
  unfolding commit_wait_def
proof (intro defined_bnd defined_save)
  show "defined (changeStatus (log_trans s) k ''WAITING'')"
    by (rule defined_change [OF assms])
  fix l assume "changeStatus (log_trans s) k ''WAITING'' = Ok l"
  then have "l = with_status k (''WAITING'', d) t (log_trans s)"
    using changeStatus_eval [OF assms] by simp
  then show "defined (changeStatusData l k (lex_str E q))"
    by (intro defined_change(2) [of _ _ "om_put (- 1) (''WAITING'', d) t" "''WAITING''" d])
      (simp_all add: om_simps)
qed simp

lemma commit_ready_defined:
  assumes E: "text_ok E" and t: "om_find (log_trans s) k = Some t" "has_base t" "om_find t (- 1) = Some (st, d)"
    and k: "\<not> server_key k" and q: "0 \<le> q" "q < 2147483647" "stored_run t q"
    and h: "3 \<le> length (tokens E h)" and role: "getRole (log_trans s) = Ok role"
  shows "defined (commit_ready E h k q s)"
proof -
  let ?t2 = "om_put (- 1) (''WRITING'', lex_str E q) t"
  let ?w = "with_status k (''WRITING'', lex_str E q) t (log_trans s)"
  have at: "atoi (lex_str E q) = Ok q" using E q by (simp add: in_int32_def)
  have run2: "stored_run ?t2 q" using q(3) by (auto simp: stored_run_def list_all_iff om_simps)
  have wr: "\<exists>b s'. writeFile E k s2 = Ok (b, s')" if "log_trans s2 = ?w" for s2
    using that t(2) q(1,2) run2
    by (intro defined_writeFile [where t = ?t2 and st = "''WRITING''", OF _ _ _ at])
      (simp_all add: om_simps has_base_put)
  have up: "defined (changeStatus l k x)" if "l = ?w" for l x
    unfolding that by (intro defined_change(1) [of _ _ ?t2 "''WRITING''" "lex_str E q"]) (simp_all add: om_simps)
  have start: "bnd (changeStatus (log_trans s) k ''WRITING'') (\<lambda>l1.
     bnd (changeStatusData l1 k (lex_str E q)) f) = f ?w" for f :: "log \<Rightarrow> (bool \<times> string \<times> lstate) res"
    using t by (simp add: changeStatus_eval changeStatusData_eval om_simps)
  have tail: "defined (if written then
           bnd (changeStatus (log_trans s3) k ''COMMITTED'') (\<lambda>l3.
           bnd (save E (s3\<lparr>log_trans := l3\<rparr>)) (\<lambda>s4. Ok (False, ''committed'', s4)))
         else
           bnd (genAnswerStr E ''ERROR'' h ''205'' ''commit fail, i/o error'') (\<lambda>code.
           bnd (changeStatus (log_trans s3) k ''WAITING'') (\<lambda>l3.
           bnd (save E (s3\<lparr>log_trans := l3\<rparr>)) (\<lambda>s4. Ok (False, code, s4)))))"
    if "log_trans s3 = ?w" for written s3
    using up [OF that] defined_answer [OF h] defined_save
    by (cases written) (auto intro!: defined_bnd)
  have "defined (bnd (writeFile E k s2) (\<lambda>(written, s3). if written then
           bnd (changeStatus (log_trans s3) k ''COMMITTED'') (\<lambda>l3.
           bnd (save E (s3\<lparr>log_trans := l3\<rparr>)) (\<lambda>s4. Ok (False, ''committed'', s4)))
         else
           bnd (genAnswerStr E ''ERROR'' h ''205'' ''commit fail, i/o error'') (\<lambda>code.
           bnd (changeStatus (log_trans s3) k ''WAITING'') (\<lambda>l3.
           bnd (save E (s3\<lparr>log_trans := l3\<rparr>)) (\<lambda>s4. Ok (False, code, s4))))))"
    if s2: "log_trans s2 = ?w" for s2
  proof -
    obtain b s3 where w: "writeFile E k s2 = Ok (b, s3)" using wr [OF s2] by blast
    with writeFile_log [OF w] s2 tail [of s3 b] show ?thesis by simp
  qed
  moreover have "getRole ?w = Ok role" using role k by simp
  ultimately show ?thesis
    unfolding commit_ready_def start
    by (intro defined_bnd defined_save) (auto dest!: save_log)
qed

lemma commit_defined:
  assumes E: "text_ok E" and wf: "wf_log (log_trans s)" and k: "\<not> server_key (getTsn E h)"
    and h: "3 \<le> length (tokens E h)" and q: "getSeq E h < 2147483647"
  shows "defined (commit E h s)"
proof (cases "om_find (log_trans s) (getTsn E h)")
  case None
  with h show ?thesis by (simp add: commit_def defined_refuse)
next
  case (Some t)
  have wt: "wf_txn t" by (rule wf_log_txn [OF wf Some k])
  then obtain st d where p: "om_find t (- 1) = Some (st, d)" and ws: "wf_status t (st, d)"
    using wf_txn_status [OF wt] by (metis prod.exhaust_sel)
  obtain role where role: "getRole (log_trans s) = Ok role" using wf_log_role [OF wf] by blast
  have ready: "defined (commit_ready E h (getTsn E h) (getSeq E h) s)"
    if "1 \<le> getSeq E h" "missing t (getSeq E h) = []"
    using that missing_unbroken [OF wf_txn_base [OF wt]] unbroken_stored_run
    by (intro commit_ready_defined [OF E Some wf_txn_base [OF wt] p k _ q _ h role]) auto
  show ?thesis
    using ready defined_refuse [OF h] commit_wait_defined [OF Some p]
    by (simp add: commit_unfold [OF Some wf_txn_base [OF wt] p wf_status_int32 [OF ws]])
qed

section \<open>Write and abort\<close>

lemma addLogEntry_defined:
  assumes E: "text_ok E" and wf: "wf_log (log_trans s)" and k: "\<not> server_key (getTsn E h)"
    and h: "3 \<le> length (tokens E h)"
    and n: "\<And>a n. abs_log (log_trans s) (getTsn E h) = Some a \<Longrightarrow> phase a = Waiting n \<Longrightarrow> n < 2147483647"
  shows "defined (addLogEntry E h x s)"
proof (cases "om_find (log_trans s) (getTsn E h)")
  case None
  with h show ?thesis by (simp add: addLogEntry_def Let_def defined_refuse)
next
  case (Some t)
  let ?k = "getTsn E h" and ?q = "getSeq E h"
  let ?t1 = "om_insert ?q (h, x) t"
  let ?l1 = "om_put ?k ?t1 (log_trans s)"
  have wt: "wf_txn t" by (rule wf_log_txn [OF wf Some k])
  then obtain st d where p: "om_find t (- 1) = Some (st, d)" and ws: "wf_status t (st, d)"
    using wf_txn_status [OF wt] by (metis prod.exhaust_sel)
  have d: "in_int32 (atoi_val d)" by (rule wf_status_int32 [OF ws])
  have ok: "om_ok t" using wt by (simp add: wf_txn_def has_base_def)
  have "defined (store_entry E h x st (if st = ''WAITING'' then atoi_val d else 0) t s)" if q: "1 \<le> ?q"
  proof (cases "st = ''WAITING''")
    case False
    have "om_find ?t1 (- 1) = Some (st, d)" using p ok q by (simp add: om_simps)
    with False show ?thesis
      by (simp add: store_entry_def Let_def om_simps changeStatus_eval)
  next
    case True
    have wf1: "wf_log ?l1" by (intro wf_log_put [OF wf _ k] wf_txn_insert [OF wt q])
    have "phase (abs_txn t) = Waiting (atoi_val d)" using abs_phase [OF p] True by simp
    then have "atoi_val d < 2147483647" using n [of "abs_txn t"] Some k by (simp add: abs_log_find)
    then have "defined (commit E (fake_header E ?k (atoi_val d)) (s\<lparr>log_trans := ?l1\<rparr>))"
      using E wf1 k d by (intro commit_defined) (simp_all add: getTsn_in32)
    moreover have "canCommit ?l1 ?k (atoi_val d) [] =
        Ok (missing ?t1 (atoi_val d) = [] \<and> atoi_val d \<noteq> 0, missing ?t1 (atoi_val d))"
      using wf_txn_base [OF wf_txn_insert [OF wt q]] by (subst canCommit_eval) (simp_all add: om_simps)
    ultimately show ?thesis using True by (simp add: store_entry_def Let_def)
  qed
  with defined_refuse [OF h] show ?thesis
    by (simp add: addLogEntry_unfold [OF Some p d])
qed

lemma abort_defined:
  assumes wf: "wf_log (log_trans s)" and k: "\<not> server_key (getTsn E h)" and h: "3 \<le> length (tokens E h)"
  shows "defined (abort_txn E h s)"
proof (cases "om_find (log_trans s) (getTsn E h)")
  case None
  with h show ?thesis by (simp add: abort_txn_def Let_def defined_refuse)
next
  case (Some t)
  obtain p where "om_find t (- 1) = Some p" using wf_txn_status [OF wf_log_txn [OF wf Some k]] by blast
  then have "getStatus (log_trans s) (getTsn E h) = Ok (fst p)"
    using getStatus_eval [OF Some, of "fst p" "snd p"] by simp
  with Some defined_refuse [OF h] show ?thesis by (simp add: abort_txn_def Let_def)
qed

end
