(* ===== verification/Packets.thy ===== *)
theory Packets
  imports Session_Handler Replication_Facts
begin

text \<open>
  The wire format: what the packets a client builds become in the session that reads them,
  and what an answer becomes in the client that waits for it.
\<close>

section \<open>The fields of a packet's header\<close>

definition header_line :: "string \<Rightarrow> string \<Rightarrow> string \<Rightarrow> string \<Rightarrow> string" where
  "header_line a b c d = a @ '' '' @ b @ '' '' @ c @ '' '' @ d"

lemma tokens_header:
  assumes "text_ok E" "plain a" "plain b" "plain c" "plain d"
  shows "tokens E (header_line a b c d) = [a, b, c, d]"
proof -
  have "header_line a b c d = a @ CHR '' '' # (b @ CHR '' '' # (c @ CHR '' '' # d))"
    by (simp add: header_line_def)
  then show ?thesis
    by (simp only: tokens_blank [OF assms(1,2)] tokens_blank [OF assms(1,3)]
        tokens_blank [OF assms(1,4)] tokens_last [OF assms(1,5)])
qed

lemma plain_line: "plain s \<Longrightarrow> nl \<notin> set s \<and> cr \<notin> set s"
  by (auto simp: plain_def)

lemma header_line_no_nl:
  "plain a \<Longrightarrow> plain b \<Longrightarrow> plain c \<Longrightarrow> plain d \<Longrightarrow>
     nl \<notin> set (header_line a b c d) \<and> cr \<notin> set (header_line a b c d)"
  by (simp add: header_line_def plain_line)

text \<open>A size field is at least as long as the zero.\<close>

lemma header_line_len:
  assumes "text_ok E" "in_int32 n" "8 \<le> length (header_line a b c ''0'')"
  shows "8 \<le> length (header_line a b c (lex_str E n))"
proof -
  have "lex_str E n = decimal n"
    using assms(1,2) unfolding text_ok_def by (rule text_lib.lstr_decimal)
  then have "lex_str E n \<noteq> []" by simp
  then have "Suc 0 \<le> length (lex_str E n)" by (cases "lex_str E n") auto
  with assms(3) show ?thesis by (simp add: header_line_def)
qed

lemma strip_cr_id: "cr \<notin> set s \<Longrightarrow> strip_cr (s @ [cr]) = s"
  by (auto simp: strip_cr_def filter_id_conv)

lemma crlf_eq: "crlf = [cr, nl]"
  by (simp add: crlf_def)

text \<open>A method whose name the table knows.\<close>

definition meth :: "string \<Rightarrow> int" where
  "meth m = (case map_of method_map m of None \<Rightarrow> 0 | Some n \<Rightarrow> n)"

lemma header_fields:
  assumes "text_ok E" "plain a" "plain b" "plain c" "plain d"
  shows "parse E (header_line a b c d) = Ok (meth a)" "validHeader E (header_line a b c d)"
    "getBytes E (header_line a b c d) = atoi d"
    "getTsn E (header_line a b c d) = (case lex_int E b of Some n \<Rightarrow> n | None \<Rightarrow> - 100)"
    "getSeq E (header_line a b c d) = (case lex_int E c of Some n \<Rightarrow> n | None \<Rightarrow> - 100)"
  using tokens_header [OF assms]
  by (simp_all add: parse_def meth_def validHeader_def getBytes_def getTsn_def getSeq_def Let_def)

section \<open>Reading a packet\<close>

lemma skip_short_long: "8 \<le> length h \<Longrightarrow> skip_short h st = Some (h, st)"
  by (subst skip_short.simps) simp

text \<open>A header line, a blank line and one line behind it.\<close>

lemma read_packet_lines:
  assumes E: "text_ok E" and h: "plain a" "plain b" "plain c" "plain d"
    and len: "8 \<le> length (header_line a b c d)"
    and x: "nl \<notin> set x" and buf: "buf_b ss = header_line a b c d @ crlf @ crlf @ x @ nl # rest"
  shows "read_packet k E N n ss = packet_body k E N (header_line a b c d) x n (ss\<lparr>buf_b := rest\<rparr>)"
proof -
  let ?h = "header_line a b c d"
  note no = header_line_no_nl [OF h]
  have b: "buf_b ss = (?h @ [cr]) @ nl # ([cr] @ nl # (x @ nl # rest))"
    by (simp add: buf crlf_eq)
  have nlcr: "nl \<noteq> cr" by simp
  have g1: "getline (buf_b ss, False) [] = (True, ?h @ [cr], ([cr] @ nl # (x @ nl # rest), False))"
    unfolding b using no nlcr by (intro getline_line) auto
  have g2: "getline ([cr] @ nl # (x @ nl # rest), False) [] = (True, [cr], (x @ nl # rest, False))"
    using nlcr by (intro getline_line) auto
  have g3: "getline (x @ nl # rest, False) cur = (True, x, (rest, False))" for cur
    by (rule getline_line [OF x])
  have v: "validHeader E ?h" by (rule header_fields(2) [OF E h])
  show ?thesis
    using v by (simp add: read_packet_def g1 handle_packet_def strip_cr_id no skip_short_long [OF len]
        g2 [simplified] g3)
qed

text \<open>A packet with data: the command runs on exactly that data.\<close>

lemma packet_with_data:
  assumes E: "text_ok E" and h: "plain a" "plain b" "plain c"
    and i: "carries_data (meth a)" and x: "nl \<notin> set x" "length x < 2147483647"
    and len: "8 \<le> length (header_line a b c (lex_str E (int (length x) + 1)))"
    and buf: "buf_b ss = header_line a b c (lex_str E (int (length x) + 1)) @ crlf @ crlf @ x @ nl # rest"
  shows "read_packet k E N n ss =
    act k E N (header_line a b c (lex_str E (int (length x) + 1))) x n (ss\<lparr>buf_b := rest\<rparr>)"
proof -
  let ?n = "int (length x) + 1"
  have n: "in_int32 ?n" using x(2) by (simp add: in_int32_def)
  then have d: "plain (lex_str E ?n)" by (rule lex_str_plain [OF E])
  note f = header_fields [OF E h d]
  have "getBytes E (header_line a b c (lex_str E ?n)) = Ok ?n"
    using E n by (simp add: f)
  moreover from this have "dataAttached E (header_line a b c (lex_str E ?n)) = Ok True"
    using i by (simp add: dataAttached_def f(1))
  moreover have "int_of_size (length x) = int (length x)"
    using x(2) by simp
  ultimately show ?thesis
    by (simp add: read_packet_lines [OF E h d len x(1) buf] packet_body_def)
qed

text \<open>A packet without data: a method that needs some is refused.\<close>

lemma zero_field [simp]: "plain ''0''" "atoi ''0'' = Ok 0"
  by (simp_all add: plain_def atoi_def atoi_val_def is_space_def is_digit_def digit_val_def in_int32_def)

lemma packet_without_data:
  assumes E: "text_ok E" and h: "plain a" "plain b" "plain c"
    and len: "8 \<le> length (header_line a b c ''0'')"
    and buf: "buf_b ss = header_line a b c ''0'' @ crlf @ crlf @ crlf @ rest"
  shows "read_packet k E N n ss =
    (if carries_data (meth a)
     then reject E (header_line a b c ''0'') ''Method requires data.'' n (ss\<lparr>buf_b := rest\<rparr>)
     else act k E N (header_line a b c ''0'') '' '' n (ss\<lparr>buf_b := rest\<rparr>))"
proof -
  note f = header_fields [OF E h zero_field(1)]
  have b: "buf_b ss = header_line a b c ''0'' @ crlf @ crlf @ [cr] @ nl # rest"
    by (simp add: buf crlf_eq)
  have no: "nl \<notin> set [cr]" by simp
  show ?thesis
    by (simp add: read_packet_lines [OF E h zero_field(1) len no b] packet_body_def
        dataAttached_def needsData_def f)
qed

section \<open>The packets of the client\<close>

lemma genEcho_shape:
  assumes "tokens E h = a # b # c # ds"
  shows "genEcho E h x = Ok
    (if length x < 2 then header_line a b c ''0'' @ crlf @ crlf @ crlf
     else header_line a b c (lex_str E (int_of_size (length x) + 1)) @ crlf @ crlf @ x @ [nl])"
  using assms by (simp add: genEcho_def header_line_def)

text \<open>
  An echoed packet that carries data of two characters or more arrives as it was; shorter
  data is dropped by the client, and the method that needs it is refused.
\<close>

lemma echo_arrives:
  assumes E: "text_ok E" and t: "tokens E h = a # b # c # ds" and h: "plain a" "plain b" "plain c"
    and i: "carries_data (meth a)" and x: "nl \<notin> set x" "2 \<le> length x" "length x < 2147483647"
    and len: "8 \<le> length (header_line a b c (lex_str E (int (length x) + 1)))"
    and g: "genEcho E h x = Ok pkt" and buf: "buf_b ss = pkt @ rest"
  shows "read_packet k E N n ss =
    act k E N (header_line a b c (lex_str E (int (length x) + 1))) x n (ss\<lparr>buf_b := rest\<rparr>)"
  using genEcho_shape [OF t, of x] x g buf
  by (intro packet_with_data [OF E h i x(1,3) len]) auto

lemma echo_empty:
  assumes E: "text_ok E" and t: "tokens E h = a # b # c # ds" and h: "plain a" "plain b" "plain c"
    and len: "8 \<le> length (header_line a b c ''0'')" and x: "length x < 2"
    and g: "genEcho E h x = Ok pkt" and buf: "buf_b ss = pkt @ rest"
  shows "read_packet k E N n ss =
    (if carries_data (meth a)
     then reject E (header_line a b c ''0'') ''Method requires data.'' n (ss\<lparr>buf_b := rest\<rparr>)
     else act k E N (header_line a b c ''0'') '' '' n (ss\<lparr>buf_b := rest\<rparr>))"
  using genEcho_shape [OF t, of x] x g buf
  by (intro packet_without_data [OF E h len]) auto

section \<open>Answers\<close>

lemma genAnswerStr_shape:
  assumes "tokens E h = a # b # c # ds"
  shows "genAnswerStr E mt h code e = Ok
    (if e = '' '' then header_line mt b c code @ '' 0'' @ crlf @ crlf @ crlf
     else header_line mt b c code @ '' '' @ lex_str E (int_of_size (length e)) @ crlf @ crlf @ e @ crlf)"
  using assms by (simp add: genAnswerStr_def Let_def header_line_def)

text \<open>Every answer is a header of five fields, a blank line and a line of text.\<close>

lemma genAnswerStr_parts:
  assumes E: "text_ok E" and t: "tokens E h = a # b # c # ds" and e: "length e < 2147483647"
    and g: "genAnswerStr E mt h code e = Ok ans"
  shows "\<exists>m u. in_int32 m \<and> ans = header_line mt b c code @ '' '' @ lex_str E m @ crlf @ crlf @ u @ crlf"
proof (cases "e = '' ''")
  case True
  have "decimal 0 = ''0''" by code_simp
  then have z: "lex_str E 0 = ''0''"
    using text_lib.lstr_decimal [OF E [unfolded text_ok_def], of 0] by simp
  show ?thesis
    using genAnswerStr_shape [OF t, of mt code e] g True z by (intro exI [of _ 0] exI [of _ "[]"]) simp
next
  case False
  have "in_int32 (int (length e))" using e by (simp add: in_int32_def)
  then show ?thesis
    using genAnswerStr_shape [OF t, of mt code e] g False e
    by (intro exI [of _ "int (length e)"] exI [of _ e]) simp
qed

lemma split_blank:
  assumes "text_ok E" "plain p"
  shows "split_any E '' '' (p @ CHR '' '' # t) = p # split_any E '' '' t"
  using assms(2) by (intro text_lib.spl_cut [OF assms(1) [unfolded text_ok_def]]) (auto simp: plain_def)

text \<open>
  An answer that the network delivers whole, with others behind it or not, is received, and
  its fields are what the manager reads in it.
\<close>

lemma answers_received:
  assumes E: "text_ok E" and t: "tokens E h = a # b # c # ds"
    and p: "plain mt" "plain b" "plain c" "plain code" and e: "length e < 2147483647"
    and g: "genAnswerStr E mt h code e = Ok ans"
    and w: "net_write N s w = (True, w1)" and r: "net_read_until N (crlf @ crlf) [] w1 = (Some (ans @ y), w2)"
    and more: "\<And>u. net_read_until N crlf (u @ crlf @ y) w2 = (Some (u @ crlf @ y), w2)"
  shows "\<exists>result. sendReceive E N s w = Ok (Some result, w2)
    \<and> take 4 (split_any E '' '' result) = [mt, b, c, code]"
proof -
  from genAnswerStr_parts [OF E t e g] obtain m u where m: "in_int32 m"
    and ans: "ans = header_line mt b c code @ '' '' @ lex_str E m @ crlf @ crlf @ u @ crlf" by blast
  let ?h = "header_line mt b c code @ '' '' @ lex_str E m @ [cr]"
  have pm: "plain (lex_str E m)" by (rule lex_str_plain [OF E m])
  have no: "nl \<notin> set ?h" using header_line_no_nl [OF p] plain_line [OF pm] by simp
  have nlcr: "nl \<noteq> cr" by simp
  have a: "ans @ y = ?h @ nl # ([cr] @ nl # (u @ crlf @ y))" by (simp add: ans crlf_def)
  have g1: "getline (ans @ y, False) [] = (True, ?h, ([cr] @ nl # (u @ crlf @ y), False))"
    unfolding a by (rule getline_line [OF no])
  have g2: "getline ([cr] @ nl # (u @ crlf @ y), False) [] = (True, [cr], (u @ crlf @ y, False))"
    using nlcr by (intro getline_line) auto
  have hs: "?h = mt @ CHR '' '' # (b @ CHR '' '' # (c @ CHR '' '' # (code @ CHR '' '' # (lex_str E m @ [cr]))))"
    by (simp add: header_line_def)
  have "tokens E (lex_str E m @ [cr]) = [lex_str E m @ [cr]]"
    using pm text_lib.spl_last [OF E [unfolded text_ok_def], of "lex_str E m @ [cr]" ws]
    by (auto simp: tokens_def plain_def)
  then have tk: "tokens E ?h = [mt, b, c, code, lex_str E m @ [cr]]"
    unfolding hs by (simp only: tokens_blank [OF E p(1)] tokens_blank [OF E p(2)] tokens_blank [OF E p(3)]
        tokens_blank [OF E p(4)])
  have "lex_str E m = decimal m" using E m unfolding text_ok_def by (rule text_lib.lstr_decimal)
  then have "atoi (lex_str E m @ [cr]) = Ok m"
    using atoi_val_decimal_append [of "[cr]" m] m by (simp add: atoi_def is_digit_def)
  with tk have n: "getBytesResponse E ?h = Ok m" by (simp add: getBytesResponse_def Let_def)
  obtain g3 dat st3 where g3: "getline (u @ crlf @ y, False) [cr] = (g3, dat, st3)" by (metis prod_cases3)
  have "sendReceive E N s w = Ok (Some (?h @ [tab, tab, tab] @ dat), w2)"
    using w r n g1 g2 g3 more by (simp add: sendReceive_def Let_def)
  moreover have "take 4 (split_any E '' '' (?h @ z)) = [mt, b, c, code]" for z
  proof -
    have "?h @ z = mt @ CHR '' '' # (b @ CHR '' '' # (c @ CHR '' '' # (code @ CHR '' '' # (lex_str E m @ [cr] @ z))))"
      by (simp add: header_line_def)
    then show ?thesis
      by (simp only: split_blank [OF E p(1)] split_blank [OF E p(2)] split_blank [OF E p(3)] split_blank [OF E p(4)]) simp
  qed
  ultimately show ?thesis by blast
qed

lemmas answer_received = answers_received [where y = "[]", simplified]

lemma genAnswerStr_Ok_shape:
  assumes "genAnswerStr E mt h code e = Ok s"
  shows "\<exists>rest. s = mt @ '' '' @ rest"
  using assms by (auto simp: genAnswerStr_def Let_def split: if_splits)


end
