(* ===== verification/Demo.thy ===== *)
theory Demo
  imports Server_Facts Log_Safety Packets
begin

text \<open>
  Concrete servers on which the properties are evaluated: a log with one open transaction of
  two writes for the file \<open>notes\<close>, on either role, and two networks.
\<close>

definition demo_txn :: "string \<Rightarrow> string \<Rightarrow> txn" where
  "demo_txn status n =
     [(- 1, (status, n)), (0, (''NEW_TXN'', ''notes'')), (1, (''WRITE 7 1 3'', ''ab'')),
      (2, (''WRITE 7 2 3'', ''cd''))]"

definition demo_log :: "string \<Rightarrow> string \<Rightarrow> string \<Rightarrow> log" where
  "demo_log role status n =
     serverData ''127.0.0.1'' ''8080'' role ''/net'' [(7, demo_txn status n)]"

definition demo_disk :: disk where
  "demo_disk = [''/net/primary.txt'' \<mapsto> File (primary_line ''127.0.0.1'' ''8080''), ''/net'' \<mapsto> Dir,
     ''notes'' \<mapsto> File (''old'' @ [nl])]"

definition demo :: "string \<Rightarrow> string \<Rightarrow> string \<Rightarrow> lstate" where
  "demo role status n = \<lparr>log_trans = demo_log role status n, files = demo_disk, rng = 0\<rparr>"

text \<open>A network that never connects, and one that answers from a list of replies.\<close>

definition dead_net :: "unit net" where
  "dead_net = \<lparr>net_connect = (\<lambda>ip port w. (Some False, w)), net_write = (\<lambda>s w. (False, w)),
     net_read_until = (\<lambda>d b w. (None, w)), net_close = (\<lambda>w. w)\<rparr>"

definition script_net :: "string list net" where
  "script_net = \<lparr>net_connect = (\<lambda>ip port w. (Some True, w)), net_write = (\<lambda>s w. (True, w)),
     net_read_until = (\<lambda>d b w. case w of [] \<Rightarrow> (None, []) | r # rs \<Rightarrow> (Some (b @ r), rs)),
     net_close = (\<lambda>w. w)\<rparr>"

definition demo_rm :: "bool \<Rightarrow> (string \<times> string) list \<Rightarrow> rmstate" where
  "demo_rm up q = \<lparr>prim_ip = ''127.0.0.1'', prim_port = ''8080'', alive = up, triedConnect = True,
     cl = Client_init ''0.0.0.0'' ''0'', syncQueue = q, tries = 0, show_warning = True,
     backup_did_sync = False, restarted = False\<rparr>"

definition demo_node :: "bool \<Rightarrow> (string \<times> string) list \<Rightarrow> 'w \<Rightarrow> lstate \<Rightarrow> 'w node" where
  "demo_node up q w s = \<lparr>lh = s, rm = demo_rm up q, wld = w\<rparr>"

definition demo_session :: "string \<Rightarrow> session" where
  "demo_session buf = (start (Session_init ''10.0.0.1'' 5000))\<lparr>buf_b := buf\<rparr>"

definition ack_reply :: string where
  "ack_reply = ''ACK 7 2 0 0'' @ crlf @ crlf @ crlf"

definition packet :: "string \<Rightarrow> string" where
  "packet h = h @ crlf @ crlf @ crlf"

text \<open>A client connects, commits transaction 7 twice, and the timers go off.\<close>

definition demo_events :: "event list" where
  "demo_events = [Accepted False ''10.0.0.8'' 4000, Arrived 0 False (packet ''COMMIT 7 2 0'') [] There,
     Txn_timer, Arrived 0 False (packet ''COMMIT 7 2 0'') [] There, Rep_timer]"

end
