(* ===== verification/Log_Properties.thy ===== *)
theory Log_Properties
  imports Demo
begin

text \<open>
  The properties of \<open>LogHandler\<close> and of the header grammar, each with an evaluation on a
  concrete server.
\<close>

section \<open>Requests on a transaction\<close>

text \<open>C10: On a well-formed log \<open>commit\<close> implements the abstract commit: it refuses a
  committed, expired or differently pending transaction and a number below one with the
  answer the abstract operation names, waits where a write is missing, marks the transaction
  as being written on the primary and commits it on a backup; the log stays well formed.\<close>

theorem commit_refines:
  assumes "text_ok E" and "wf_log (log_trans s)" and "\<not> server_key (getTsn E h)"
    and "commit E h s = Ok (r, c, s')"
  shows "\<exists>v io. spec_commit (is_primary (log_trans s)) io (getTsn E h) (getSeq E h)
       (abs_log (log_trans s)) = (v, abs_log (log_trans s')) \<and> says E h v r c \<and> wf_log (log_trans s')"
  by (rule commit_sim [OF assms])

lemma demo_wf:
  "wf_log (log_trans (demo ''primary'' ''ACTIVE'' ''0''))" "wf_log (log_trans (demo ''backup'' ''ACTIVE'' ''0''))"
  "wf_log (log_trans (demo ''primary'' ''WRITING'' ''2''))" "wf_log (log_trans (demo ''primary'' ''EXPIRED'' ''0''))"
  "wf_log (log_trans (demo ''primary'' ''COMMITTED'' ''2''))" "wf_log (log_trans (demo ''backup'' ''WAITING'' ''3''))"
  by code_simp+

lemma demo_keys:
  "\<not> server_key (getTsn ref_env ''COMMIT 7 2 0'')" "\<not> server_key (getTsn ref_env ''WRITE 7 3 3'')"
  "\<not> server_key (getTsn ref_env ''ABORT 7 0 0'')" "\<not> server_key 7" "\<not> server_key 9"
  by code_simp+

lemma commit_refines_witness:
  "\<exists>r c s'. commit ref_env ''COMMIT 7 2 0'' (demo ''backup'' ''ACTIVE'' ''0'') = Ok (r, c, s') \<and>
     wf_log (log_trans s')"
proof -
  have "is_ok (commit ref_env ''COMMIT 7 2 0'' (demo ''backup'' ''ACTIVE'' ''0''))" by code_simp
  then obtain r c s' where "commit ref_env ''COMMIT 7 2 0'' (demo ''backup'' ''ACTIVE'' ''0'') = Ok (r, c, s')"
    by (auto simp: is_ok_ex)
  with commit_refines [OF ref_text_ok demo_wf(2) demo_keys(1) this] show ?thesis by blast
qed

text \<open>C11: On a well-formed log a write implements the abstract write: a number below one, an
  unknown, committed or expired transaction, a number already taken and one above the pending
  commit are refused; otherwise exactly the data is stored under its number, an idle
  transaction becomes active, and one that waited commits once nothing is missing.\<close>

theorem write_refines:
  assumes "text_ok E" and "wf_log (log_trans s)" and "\<not> server_key (getTsn E h)"
    and "addLogEntry E h x s = Ok (r, c, s')"
  shows "\<exists>v io. spec_write (is_primary (log_trans s)) io (getTsn E h) (getSeq E h) x
       (abs_log (log_trans s)) = (v, abs_log (log_trans s')) \<and> says E h v r c \<and> wf_log (log_trans s')"
  by (rule write_sim [OF assms])

lemma write_refines_witness:
  "\<exists>r c s'. addLogEntry ref_env ''WRITE 7 3 3'' ''ef'' (demo ''backup'' ''WAITING'' ''3'') = Ok (r, c, s') \<and>
     wf_log (log_trans s')"
proof -
  have "is_ok (addLogEntry ref_env ''WRITE 7 3 3'' ''ef'' (demo ''backup'' ''WAITING'' ''3''))" by code_simp
  then obtain r c s' where
    "addLogEntry ref_env ''WRITE 7 3 3'' ''ef'' (demo ''backup'' ''WAITING'' ''3'') = Ok (r, c, s')"
    by (auto simp: is_ok_ex)
  with write_refines [OF ref_text_ok demo_wf(6) demo_keys(2) this] show ?thesis by blast
qed

text \<open>C23: On a well-formed log an abort implements the abstract abort: the transaction is
  gone, unless it is unknown, committed or expired, which is refused and changes nothing.\<close>

theorem abort_refines:
  assumes "wf_log (log_trans s)" and "\<not> server_key (getTsn E h)" and "abort_txn E h s = Ok (r, c, s')"
  shows "\<exists>v. spec_abort (getTsn E h) (abs_log (log_trans s)) = (v, abs_log (log_trans s'))
     \<and> says E h v r c \<and> wf_log (log_trans s')"
  by (rule abort_sim [OF assms])

lemma abort_refines_witness:
  "\<exists>r c s'. abort_txn ref_env ''ABORT 7 0 0'' (demo ''primary'' ''ACTIVE'' ''0'') = Ok (r, c, s') \<and>
     wf_log (log_trans s')"
proof -
  have "is_ok (abort_txn ref_env ''ABORT 7 0 0'' (demo ''primary'' ''ACTIVE'' ''0''))" by code_simp
  then obtain r c s' where "abort_txn ref_env ''ABORT 7 0 0'' (demo ''primary'' ''ACTIVE'' ''0'') = Ok (r, c, s')"
    by (auto simp: is_ok_ex)
  with abort_refines [OF demo_wf(1) demo_keys(3) this] show ?thesis by blast
qed

text \<open>A commit that reports success on a backup appends to the transaction's file, behind
  what was there, every write up to the committed number in order, each on its line, and no
  other file but the log is written.\<close>

lemma commit_appends:
  assumes "text_ok E" and "files_ok E" and "wf_log (log_trans s)" and "\<not> server_key (getTsn E h)"
    and "abs_log (log_trans s) (getTsn E h) = Some a" and "target a \<noteq> fileName"
    and "getRole (log_trans s) = Ok role" and "role \<noteq> ''primary''"
    and "commit E h s = Ok (r, ''committed'', s')"
  shows "file_text (files s') (target a) = file_text (files s) (target a) @ txn_text a (getSeq E h)
    \<and> (\<forall>p. p \<noteq> target a \<and> p \<noteq> fileName \<longrightarrow> files s' p = files s p)"
  using commit_files [OF assms] by blast

lemma demo_abs:
  "\<exists>a. abs_log (log_trans (demo ''backup'' ''ACTIVE'' ''0'')) 7 = Some a \<and> target a = ''notes''"
proof -
  have "om_find (log_trans (demo ''backup'' ''ACTIVE'' ''0'')) 7 = Some (demo_txn ''ACTIVE'' ''0'')"
    by code_simp
  moreover have "target (abs_txn (demo_txn ''ACTIVE'' ''0'')) = ''notes''"
    by (simp add: abs_txn_def demo_txn_def)
  ultimately show ?thesis by (simp add: abs_log_find demo_keys)
qed

lemma commit_appends_witness:
  "\<exists>a s'. commit ref_env ''COMMIT 7 2 0'' (demo ''backup'' ''ACTIVE'' ''0'') = Ok (False, ''committed'', s') \<and>
     file_text (files s') ''notes'' = ''old'' @ [nl] @ txn_text a 2"
proof -
  let ?s = "demo ''backup'' ''ACTIVE'' ''0''"
  have "case commit ref_env ''COMMIT 7 2 0'' ?s of Ok (r, c, s') \<Rightarrow> \<not> r \<and> c = ''committed'' | Stop e \<Rightarrow> False"
    by code_simp
  then obtain s' where run: "commit ref_env ''COMMIT 7 2 0'' ?s = Ok (False, ''committed'', s')"
    by (auto split: res.splits)
  have g: "getTsn ref_env ''COMMIT 7 2 0'' = 7" by code_simp
  obtain a where a: "abs_log (log_trans ?s) (getTsn ref_env ''COMMIT 7 2 0'') = Some a" "target a = ''notes''"
    using demo_abs unfolding g by blast
  have r: "getRole (log_trans ?s) = Ok ''backup''" by code_simp
  have t: "target a \<noteq> fileName" by (simp add: a fileName_def)
  have "file_text (files ?s) ''notes'' = ''old'' @ [nl]" "getSeq ref_env ''COMMIT 7 2 0'' = 2"
    by code_simp+
  with commit_appends [OF ref_text_ok ref_files_ok demo_wf(2) demo_keys(1) a(1) t r _ run] a run
  show ?thesis by auto
qed


text \<open>C17: \<open>canCommit\<close> collects, in ascending order, exactly the numbers from one up to the
  larger of the asked number and the last write that have no write, and says yes exactly when
  there are none and the number is not zero. A later write with a gap before it therefore
  blocks the commit of an earlier number.\<close>

theorem canCommit_missing:
  assumes "om_find l tsn = Some t" and "wf_txn t"
  shows "\<exists>b ms. canCommit l tsn n [] = Ok (b, ms) \<and> sorted_wrt (<) ms
     \<and> set ms = {i. 1 \<le> i \<and> (i \<le> n \<or> (\<exists>j. writes (abs_txn t) j \<noteq> None \<and> i \<le> j)) \<and> writes (abs_txn t) i = None}
     \<and> b = (unbroken (writes (abs_txn t)) n \<and> n \<noteq> 0)"
proof -
  have base: "has_base t" by (rule wf_txn_base [OF assms(2)])
  have "(i \<le> n \<or> (\<exists>j. writes (abs_txn t) j \<noteq> None \<and> i \<le> j)) \<longleftrightarrow> i \<le> max n (max_seq t)" if "1 \<le> i" for i
    by (rule missing_reach [OF base that])
  then have "set (missing t n) =
      {i. 1 \<le> i \<and> (i \<le> n \<or> (\<exists>j. writes (abs_txn t) j \<noteq> None \<and> i \<le> j)) \<and> writes (abs_txn t) i = None}"
    by (auto simp: set_missing writes_abs)
  moreover have "sorted_wrt (<) (missing t n)"
    unfolding missing_def by (intro sorted_wrt_filter sorted_wrt_upto)
  ultimately show ?thesis
    using canCommit_eval [OF assms(1) base, of n "[]"] missing_unbroken [OF base, of n] by auto
qed

lemma canCommit_missing_witness:
  "\<exists>t b ms. om_find (log_trans (demo ''backup'' ''WAITING'' ''3'')) 7 = Some t \<and>
     canCommit (log_trans (demo ''backup'' ''WAITING'' ''3'')) 7 4 [] = Ok (b, ms) \<and> sorted_wrt (<) ms \<and> ms = [3, 4]"
proof -
  have t: "om_find (log_trans (demo ''backup'' ''WAITING'' ''3'')) 7 = Some (demo_txn ''WAITING'' ''3'')"
    by code_simp
  have "canCommit (log_trans (demo ''backup'' ''WAITING'' ''3'')) 7 4 [] = Ok (False, [3, 4])"
    by code_simp
  with canCommit_missing [OF t wf_log_txn [OF demo_wf(6) t demo_keys(4)], of 4] t show ?thesis by auto
qed

section \<open>Undefined behaviour\<close>

text \<open>A commit of a transaction of its own, below the largest \<open>int\<close>, never runs into
  undefined behaviour on a well-formed log: it returns, or throws where the log cannot be
  saved.\<close>

lemma commit_is_defined:
  assumes "text_ok E" and "wf_log (log_trans s)" and "\<not> server_key (getTsn E h)"
    and "validHeader E h" and "getSeq E h < 2147483647"
  shows "is_ok (commit E h s) \<or> commit E h s = Stop Thrown"
  using commit_defined [OF assms(1-3) _ assms(5)] assms(4) by (simp add: validHeader_def defined_def)

text \<open>A write on a well-formed log never runs into undefined behaviour either, whatever
  number it carries and whatever it completes.\<close>

lemma write_is_defined:
  assumes "text_ok E" and "wf_log (log_trans s)" and "\<not> server_key (getTsn E h)" and "validHeader E h"
    and "\<And>a n. abs_log (log_trans s) (getTsn E h) = Some a \<Longrightarrow> phase a = Waiting n \<Longrightarrow> n < 2147483647"
  shows "is_ok (addLogEntry E h x s) \<or> addLogEntry E h x s = Stop Thrown"
  using addLogEntry_defined [where x = x, OF assms(1-3) _ assms(5)] assms(4)
  by (simp add: validHeader_def defined_def)

text \<open>C25: No request on a transaction of its own runs into undefined behaviour on a well-formed
  log, on the primary as on the backup: a commit of a number below the largest \<open>int\<close>, a write
  whatever number it carries and whatever commit it completes, and an abort return, or throw
  where the log cannot be saved.\<close>

theorem log_calls_defined:
  assumes "text_ok E" and "wf_log (log_trans s)" and "\<not> server_key (getTsn E h)" and "validHeader E h"
    and "\<And>a n. abs_log (log_trans s) (getTsn E h) = Some a \<Longrightarrow> phase a = Waiting n \<Longrightarrow> n < 2147483647"
  shows "(getSeq E h < 2147483647 \<longrightarrow> is_ok (commit E h s) \<or> commit E h s = Stop Thrown)
    \<and> (is_ok (addLogEntry E h x s) \<or> addLogEntry E h x s = Stop Thrown)
    \<and> (is_ok (abort_txn E h s) \<or> abort_txn E h s = Stop Thrown)"
  using commit_is_defined [OF assms(1-4)] write_is_defined [OF assms] abort_defined [OF assms(2,3)] assms(4)
  by (simp add: validHeader_def defined_def)

lemma log_calls_defined_witness:
  "is_ok (addLogEntry ref_env ''WRITE 7 3 3'' ''ef'' (demo ''backup'' ''WAITING'' ''3''))
     \<or> addLogEntry ref_env ''WRITE 7 3 3'' ''ef'' (demo ''backup'' ''WAITING'' ''3'') = Stop Thrown"
proof -
  let ?s = "demo ''backup'' ''WAITING'' ''3''"
  have v: "validHeader ref_env ''WRITE 7 3 3''" and g: "getTsn ref_env ''WRITE 7 3 3'' = 7" by code_simp+
  have t: "om_find (log_trans ?s) 7 = Some (demo_txn ''WAITING'' ''3'')" by code_simp
  have "atoi_val ''3'' = 3" by code_simp
  then have "phase (abs_txn (demo_txn ''WAITING'' ''3'')) = Waiting 3"
    by (simp add: abs_txn_def demo_txn_def)
  with t have "abs_log (log_trans ?s) (getTsn ref_env ''WRITE 7 3 3'') = Some a \<Longrightarrow> phase a = Waiting n \<Longrightarrow>
      n < 2147483647" for a n
    by (simp add: g abs_log_find demo_keys)
  with log_calls_defined [OF ref_text_ok demo_wf(6) demo_keys(2) v] show ?thesis by blast
qed

text \<open>C26: The deletion of an expired transaction is undefined behaviour: \<open>timeouts\<close> erases the
  entry its loop variable stands on and then increments that variable. It happens exactly
  when some transaction is expired, or waits with its age at the end.\<close>

theorem timeouts_erase_undefined:
  assumes "wf_log (log_trans s)"
  shows "timeouts E s = Stop Undefined \<longleftrightarrow>
     (\<exists>k a. 0 \<le> k \<and> abs_log (log_trans s) k = Some a \<and>
        (phase a = Expired \<or> (\<exists>n. phase a = Waiting n) \<and> age a = Old))"
proof -
  have "reaps (om_keys (log_trans s)) (abs_log (log_trans s)) \<longleftrightarrow>
      (\<exists>k a. 0 \<le> k \<and> abs_log (log_trans s) k = Some a \<and> reaped a)"
    using abs_log_keys [of "log_trans s"]
    by (fastforce simp: reaps_def list_ex_iff split: option.splits)
  moreover have "reaped a \<longleftrightarrow> phase a = Expired \<or> (\<exists>n. phase a = Waiting n) \<and> age a = Old" for a
    by (cases "phase a") (auto simp: reaped_def)
  ultimately show ?thesis
    by (simp add: timeouts_undefined [OF assms])
qed

lemma timeouts_erase_undefined_witness:
  "timeouts ref_env (demo ''primary'' ''EXPIRED'' ''0'') = Stop Undefined"
proof -
  have t: "om_find (log_trans (demo ''primary'' ''EXPIRED'' ''0'')) 7 = Some (demo_txn ''EXPIRED'' ''0'')"
    by code_simp
  have "phase (abs_txn (demo_txn ''EXPIRED'' ''0'')) = Expired"
    by (simp add: abs_txn_def demo_txn_def)
  with t show ?thesis
    by (subst timeouts_erase_undefined [OF demo_wf(4)])
      (intro exI [of _ 7] exI [of _ "abs_txn (demo_txn ''EXPIRED'' ''0'')"],
        simp add: abs_log_find demo_keys)
qed

text \<open>C27: Where nothing is due for deletion one round of \<open>timeouts\<close> ages every transaction by
  one: active to flagged, flagged to expired, a waiting one by its second mark; committed and
  writing ones stay, and the log stays well formed.\<close>

theorem timeouts_age:
  assumes "wf_log (log_trans s)" and "timeouts E s = Ok s'"
  shows "abs_log (log_trans s') =
      (\<lambda>k. if 0 \<le> k then map_option tick (abs_log (log_trans s) k) else abs_log (log_trans s) k)
    \<and> wf_log (log_trans s')"
  using timeouts_sim [OF assms] by (simp add: tick_store_all)

lemma timeouts_age_witness:
  "\<exists>s'. timeouts ref_env (demo ''primary'' ''ACTIVE'' ''0'') = Ok s' \<and> wf_log (log_trans s')"
proof -
  have "is_ok (timeouts ref_env (demo ''primary'' ''ACTIVE'' ''0''))" by code_simp
  then obtain s' where "timeouts ref_env (demo ''primary'' ''ACTIVE'' ''0'') = Ok s'"
    by (auto simp: is_ok_ex)
  with timeouts_age [OF demo_wf(1) this] show ?thesis by blast
qed

end
