(* ===== verification/Backup_Facts.thy ===== *)
theory Backup_Facts
  imports Session_Facts Packets
begin

text \<open>
  A server that is not primary: its role is its own until its daemon changes it, its
  sessions only add answers, and an acknowledged commit is in its log.
\<close>

section \<open>What a handler does to its session\<close>

text \<open>Behind a packet the read buffer stays, and answers are added at the end.\<close>

definition answers_only :: "session \<Rightarrow> session \<Rightarrow> bool" where
  "answers_only ss ss' \<longleftrightarrow> buf_b ss' = buf_b ss \<and> rem_ip ss' = rem_ip ss \<and> rem_port ss' = rem_port ss \<and> known ss' = known ss
     \<and> (\<exists>as. sent ss' = sent ss @ as)"

named_theorems answered_by

lemma answers_only_refl [simp]: "answers_only ss ss"
  by (simp add: answers_only_def)

lemma answers_only_trans: "answers_only a b \<Longrightarrow> answers_only b c \<Longrightarrow> answers_only a c"
  by (auto simp: answers_only_def)

lemma sendACK_only [answered_by]: "sendACK a ss = Ok ss' \<Longrightarrow> answers_only ss ss'"
  by (auto simp: sendACK_def answers_only_def split: if_splits)

lemma answer_only [answered_by]: "answer E mt h c t ss = Ok ss' \<Longrightarrow> answers_only ss ss'"
  by (auto simp: answer_def dest: sendACK_only)

lemma resend_only: "resend_loop E k qs ss = Ok ss' \<Longrightarrow> answers_only ss ss'"
  by (induction qs arbitrary: ss) (auto dest!: answer_only dest: answers_only_trans)

lemma sendACK_RESEND_only [answered_by]: "sendACK_RESEND E k l ss = Ok ss' \<Longrightarrow> answers_only ss ss'"
  by (auto simp: sendACK_RESEND_def dest: resend_only)

lemma command_only [answered_by]:
  "do_abort E h x n ss = Ok (ex, err, n', ss') \<Longrightarrow> answers_only ss ss'"
  "do_new_txn E h x n ss = Ok (ex, err, n', ss') \<Longrightarrow> answers_only ss ss'"
  "do_commit_cmd E h x n ss = Ok (ex, err, n', ss') \<Longrightarrow> answers_only ss ss'"
  "do_read E h x n ss = Ok (ex, err, n', ss') \<Longrightarrow> answers_only ss ss'"
  "do_write E h x n ss = Ok (ex, err, n', ss') \<Longrightarrow> answers_only ss ss'"
  "do_make_txn E h x n ss = Ok (ex, err, n', ss') \<Longrightarrow> answers_only ss ss'"
  "do_ping E h x n ss = Ok (ex, err, n', ss') \<Longrightarrow> answers_only ss ss'"
  by (auto simp: do_abort_def do_new_txn_def do_commit_cmd_def do_read_def do_write_def
      do_make_txn_def do_ping_def Let_def split: if_splits prod.splits dest!: answer_only sendACK_only)

lemma doAuth_only: "answers_only ss (doAuth ip p ss)"
  by (simp add: doAuth_def answers_only_def)

lemma executeCommand_only:
  assumes "executeCommand E N i h x n ss = Ok (ex, err, n', ss')" shows "answers_only ss ss'"
  using assms doAuth_only
  by (auto simp: executeCommand_def split: if_splits dest: answered_by)

lemma doCommit_only: "doCommit k E N h n ss = Ok (n', ss') \<Longrightarrow> answers_only ss ss'"
  by (auto simp: doCommit_def split: if_splits dest: answered_by)

lemma respond_only: "respond k E N h (ex, err, n, ss) = Ok (n', ss') \<Longrightarrow> answers_only ss ss'"
  by (auto simp: respond_def split: if_splits dest: answered_by doCommit_only)

lemma start_only: "answers_only ss (start ss)"
  by (simp add: start_def answers_only_def)

lemma act_only:
  assumes "act k E N h x n ss = Ok (n', ss')" shows "answers_only ss ss'"
proof -
  from assms obtain i ex err n1 ss1 where e: "executeCommand E N i h x n (start ss) = Ok (ex, err, n1, ss1)"
    and r: "respond k E N h (ex, err, n1, ss1) = Ok (n', ss')"
    by (auto simp: act_def)
  from answers_only_trans [OF start_only executeCommand_only [OF e]] respond_only [OF r]
  show ?thesis by (rule answers_only_trans)
qed

lemma reject_only: "reject E h t n ss = Ok (n', ss') \<Longrightarrow> n' = n \<and> answers_only ss ss'"
  using start_only answers_only_trans by (auto simp: reject_def dest!: answer_only)

section \<open>The role\<close>

text \<open>No request changes the role of a backup: only its daemon does.\<close>

lemma abort_only: "abort_txn E h s = Ok (r, c, s') \<Longrightarrow> om_ok (log_trans s) \<Longrightarrow> only_at (getTsn E h) (log_trans s) (log_trans s')"
  by (auto simp: abort_txn_def Let_def only_at_def om_simps split: if_splits)

lemma open_txn_only: "only_at k l (open_txn k f l)"
  by (simp add: open_txn_def Let_def)

lemma makeTxn_only: "makeTxn E f k s = Ok (b, s') \<Longrightarrow> only_at k (log_trans s) (log_trans s')"
  using open_txn_only by (auto simp: makeTxn_def split: if_splits dest!: save_Ok)

lemma newTxn_role:
  assumes "random_ok E" "newTxn E f s = Ok (rn, s')"
  shows "getRole (log_trans s') = getRole (log_trans s)"
proof (cases "posix_name E f")
  case True
  with assms(2) obtain r k where d: "draw_tsn E (log_trans s) (rng s) = Some (r, k)"
    and s': "log_trans s' = open_txn r f (log_trans s)"
    by (auto simp: newTxn_def split: option.splits dest!: save_Ok)
  have "1 \<le> r" using draw_tsn_result [OF d] assms(1) by (auto simp: random_ok_def)
  then show ?thesis
    unfolding s' by (intro only_at_role [OF open_txn_only]) simp
qed (use assms in \<open>auto simp: newTxn_def\<close>)

lemma ping_role:
  assumes "backupServerData E x l = Ok l'" shows "getRole l' = getRole l"
  using assms by (auto simp: backupServerData_def Let_def getRole_def entry_def om_simps)

lemma executeCommand_role:
  assumes E: "text_ok E" "random_ok E" and ok: "om_ok (node_log n)" and p: "proper E i h"
    and role: "getRole (node_log n) = Ok ''backup''"
    and run: "executeCommand E N i h x n ss = Ok (ex, err, n', ss')"
  shows "getRole (node_log n') = Ok ''backup''"
proof -
  have k: "i = 1 \<or> i = 3 \<or> i = 5 \<or> i = 6 \<Longrightarrow> getTsn E h \<noteq> 0"
    using p by (auto simp: proper_def server_key_def)
  consider "n' = n" | "i = 1" "do_abort E h x n ss = Ok (ex, err, n', ss')"
    | "do_new_txn E h x n ss = Ok (ex, err, n', ss')"
    | "i = 3" "do_commit_cmd E h x n ss = Ok (ex, err, n', ss')"
    | "i = 5" "do_write E h x n ss = Ok (ex, err, n', ss')"
    | "i = 6" "do_make_txn E h x n ss = Ok (ex, err, n', ss')"
    | "do_ping E h x n ss = Ok (ex, err, n', ss')"
    using run role by (auto simp: executeCommand_def do_read_def Let_def switchToBackup_def
        split: if_splits prod.splits)
  then show ?thesis
  proof cases
    case 2
    then obtain r c s1 where a: "abort_txn E h (lh n) = Ok (r, c, s1)" "lh n' = s1"
      by (auto simp: do_abort_def split: if_splits dest!: enqueue_lh)
    with only_at_role [OF abort_only [OF a(1) ok]] k 2(1) role show ?thesis by simp
  next
    case 3
    then obtain rn s1 where "newTxn E x (lh n) = Ok (rn, s1)" "lh n' = s1"
      by (auto simp: do_new_txn_def split: if_splits dest!: enqueue_lh)
    with newTxn_role [OF E(2), of x "lh n"] role show ?thesis by simp
  next
    case 4
    then obtain s1 where a: "commit E h (lh n) = Ok (ex, err, s1)" "lh n' = s1"
      by (auto simp: do_commit_cmd_def split: if_splits dest!: enqueue_lh)
    with only_at_role [OF commit_only [OF a(1)]] k 4(1) role show ?thesis by simp
  next
    case 5
    then obtain s1 where a: "addLogEntry E h x (lh n) = Ok (ex, err, s1)" "lh n' = s1"
      by (auto simp: do_write_def split: if_splits dest!: enqueue_lh)
    with only_at_role [OF addLogEntry_only [OF E(1) a(1)]] k 5(1) role show ?thesis by simp
  next
    case 6
    then obtain b s1 where a: "makeTxn E x (getTsn E h) (lh n) = Ok (b, s1)" "lh n' = s1"
      by (auto simp: do_make_txn_def)
    with only_at_role [OF makeTxn_only [OF a(1)]] k 6(1) role show ?thesis by simp
  next
    case 7
    with role ping_role [of E x "node_log n"] show ?thesis
      by (auto simp: do_ping_def split: if_splits)
  qed (use role in simp)
qed

lemma respond_backup:
  assumes "getRole (node_log n) = Ok ''backup''" "respond k E N h (ex, err, n, ss) = Ok (n', ss')"
  shows "n' = n"
  using assms by (auto simp: respond_def doCommit_def split: if_splits)

lemma act_role:
  assumes E: "text_ok E" "random_ok E" and ok: "om_ok (node_log n)"
    and p: "\<And>i. parse E h = Ok i \<Longrightarrow> proper E i h"
    and role: "getRole (node_log n) = Ok ''backup''" and run: "act k E N h x n ss = Ok (n', ss')"
  shows "getRole (node_log n') = Ok ''backup''"
proof -
  from run obtain i ex err n1 ss1 where i: "parse E h = Ok i"
    "executeCommand E N i h x n (start ss) = Ok (ex, err, n1, ss1)"
    "respond k E N h (ex, err, n1, ss1) = Ok (n', ss')"
    by (auto simp: act_def)
  from executeCommand_role [OF E ok p [OF i(1)] role i(2)] have "getRole (node_log n1) = Ok ''backup''" .
  with respond_backup [OF this i(3)] show ?thesis by simp
qed

section \<open>An acknowledged commit\<close>

definition has_commit :: "int \<Rightarrow> int \<Rightarrow> log \<Rightarrow> bool" where
  "has_commit k q l \<longleftrightarrow> (case abs_log l k of Some a \<Rightarrow> phase a = Committed q | None \<Rightarrow> False)"

lemma has_commit_iff: "has_commit k q l \<longleftrightarrow> (\<exists>a. abs_log l k = Some a \<and> phase a = Committed q)"
  by (simp add: has_commit_def split: option.split)

lemma kept_has_commit: "kept s s' \<Longrightarrow> has_commit k q (log_trans s) \<Longrightarrow> has_commit k q (log_trans s')"
  by (metis has_commit_iff kept_final final_kept_def)

lemma commit_txn_ACK:
  "commit_txn prim io q a = (Refuse ''ACK'' c e, a') \<Longrightarrow> phase a = Committed q \<and> a' = a"
  by (auto simp: commit_txn_def try_commit_def Let_def split: phase.splits if_splits)

lemma spec_commit_ACK:
  assumes "spec_commit prim io k q m = (Refuse ''ACK'' c e, m')"
  shows "\<exists>a. m' k = Some a \<and> phase a = Committed q"
  using assms
  by (auto simp: spec_commit_def on_txn_def not_found_def dest!: commit_txn_ACK
      split: option.splits prod.splits)

lemma spec_commit_now:
  assumes "spec_commit False io k q m = (Commit_now, m')"
  shows "\<exists>a. m' k = Some a \<and> phase a = Committed q"
proof -
  from assms obtain a a' where c: "commit_txn False io q a = (Commit_now, a')" and m': "m' = m(k \<mapsto> a')"
    unfolding spec_commit_def using on_txn_now by blast
  from try_commit_now [OF commit_txn_now [OF c]] m' show ?thesis by simp
qed

lemma resend_first:
  assumes "resend_loop E k qs ss = Ok ss'"
  shows "sent ss' = sent ss \<or> (\<exists>r as. sent ss' = sent ss @ (''ACK_RESEND'' @ '' '' @ r) # as)"
proof (cases qs)
  case (Cons q rest)
  let ?ok = "\<lambda>a. genAnswerStr E ''ACK_RESEND'' (''empty'' @ [tab] @ iToS E k @ [tab] @ iToS E q @ [tab])
      ''0'' '' '' = Ok a"
  from Cons assms obtain ss1 where "answer E ''ACK_RESEND'' (''empty'' @ [tab] @ iToS E k @ [tab] @ iToS E q @ [tab])
      ''0'' '' '' ss = Ok ss1" "resend_loop E k rest ss1 = Ok ss'"
    by (auto elim!: bndE simp del: bnd_eq_Ok)
  then obtain a where a: "?ok a" "sent ss1 = sent ss @ [a]" "resend_loop E k rest ss1 = Ok ss'"
    by (auto simp: answer_def sendACK_def split: if_splits)
  from genAnswerStr_Ok_shape [OF a(1)] resend_only [OF a(3)] a(2) show ?thesis
    by (auto simp: answers_only_def)
qed (use assms in simp)

lemma commit_reply_kind:
  assumes E: "text_ok E" and wf: "wf_log (node_log n)" and role: "getRole (node_log n) = Ok ''backup''"
    and k: "\<not> server_key (getTsn E h)" and i: "parse E h = Ok 3" and run: "act j E N h x n ss = Ok (n', ss')"
  shows "sent ss' = sent ss \<or> (\<exists>mt r as. sent ss' = sent ss @ (mt @ '' '' @ r) # as
    \<and> mt \<in> set answer_methods \<and> (mt = ''ACK'' \<longrightarrow> has_commit (getTsn E h) (getSeq E h) (node_log n')))"
proof -
  let ?t = "getTsn E h" and ?q = "getSeq E h"
  have sends: "\<exists>mt r as. sent ss2 = sent ss @ (mt @ '' '' @ r) # as
      \<and> mt \<in> set answer_methods \<and> (mt = ''ACK'' \<longrightarrow> P)"
    if "genAnswerStr E mt h' c e = Ok a" "sendACK a ss1 = Ok ss2" "sent ss1 = sent ss"
      "mt \<in> set answer_methods" "mt = ''ACK'' \<Longrightarrow> P" for mt h' c e a ss1 ss2 P
  proof -
    note a = that
    obtain r where "a = mt @ '' '' @ r" using genAnswerStr_Ok_shape [OF a(1)] by blast
    with a(2,3) have "sent ss2 = sent ss @ (mt @ '' '' @ r) # []"
      by (auto simp: sendACK_def split: if_splits)
    with a(4,5) show ?thesis by blast
  qed
  from run i obtain ex err n1 ss1 where x: "executeCommand E N 3 h x n (start ss) = Ok (ex, err, n1, ss1)"
    and r: "respond j E N h (ex, err, n1, ss1) = Ok (n', ss')"
    by (auto simp: act_def)
  consider (refused) "genAnswerStr E ''AUTH_FAIL'' h ''321'' ''Not authorized'' = Ok err" "\<not> ex" "ss1 = start ss"
    | (run) "do_commit_cmd E h x n (start ss) = Ok (ex, err, n1, ss1)"
    using x by (auto simp: executeCommand_def split: if_splits)
  then show ?thesis
  proof cases
    case refused
    have "sendACK err ss1 = Ok ss'"
      using r refused genAnswerStr_code [OF refused(1)] by (auto simp: respond_simps)
    from sends [OF refused(1) this _ answer_methods_mem(4)] refused(3) show ?thesis
      by (simp add: start_def)
  next
    case run
    then obtain s1 where a: "commit E h (lh n) = Ok (ex, err, s1)" and n1: "lh n1 = s1" and ss1: "ss1 = start ss"
      by (auto simp: do_commit_cmd_def split: if_splits dest!: enqueue_lh)
    have sent1: "sent ss1 = sent ss" by (simp add: ss1 start_def)
    have np: "\<not> is_primary (node_log n)" using role by simp
    obtain v io where v: "spec_commit False io ?t ?q (abs_log (node_log n)) = (v, abs_log (log_trans s1))"
      and says: "says E h v ex err"
      using commit_sim [OF E wf k a] np by auto
    have role1: "getRole (node_log n1) = Ok ''backup''"
      using only_at_role [OF commit_only [OF a]] k role n1 by (simp add: server_key_def)
    have n': "n' = n1" by (rule respond_backup [OF role1 r])
    show ?thesis
    proof (cases v)
      case Done
      with says r sent1 show ?thesis by (auto simp: says_def respond_simps)
    next
      case (Refuse mt c e)
      with says have g: "\<not> ex" "genAnswerStr E mt h c e = Ok err" by (simp_all add: says_def)
      have mt: "mt \<in> set answer_methods" using v Refuse spec_commit_methods by blast
      have s: "sendACK err ss1 = Ok ss'"
        using r g genAnswerStr_code [OF g(2) mt] by (auto simp: respond_simps)
      have held: "has_commit ?t ?q (node_log n')" if "mt = ''ACK''"
        using spec_commit_ACK [of False io ?t ?q "abs_log (node_log n)" c e] v Refuse n1 n' that
        by (simp add: has_commit_iff)
      from sends [OF g(2) s sent1 mt held] show ?thesis by (rule disjI2)
    next
      case Commit_now
      with says r have d: "doCommit j E N h n1 ss1 = Ok (n', ss')" by (simp add: says_def respond_simps)
      have held: "has_commit ?t ?q (node_log n')"
        using spec_commit_now [of io ?t ?q "abs_log (node_log n)"] v Commit_now n1 n'
        by (simp add: has_commit_iff)
      obtain ack where ack: "genAnswerStr E ''ACK'' h ''0'' ''Committed successfully.'' = Ok ack"
        "sendACK ack ss1 = Ok ss'"
        using d role1 by (auto simp: doCommit_def)
      from sends [OF ack sent1 answer_methods_mem(1) held] show ?thesis by (rule disjI2)
    next
      case Incomplete
      with says r obtain ss2 qs where "resend_loop E ?t qs ss1 = Ok ss'"
        by (auto simp: says_def respond_simps sendACK_RESEND_def)
      from resend_first [OF this] show ?thesis
      proof
        assume "\<exists>r as. sent ss' = sent ss1 @ (''ACK_RESEND'' @ '' '' @ r) # as"
        then obtain r as where "sent ss' = sent ss @ (''ACK_RESEND'' @ '' '' @ r) # as"
          using sent1 by auto
        moreover have "''ACK_RESEND'' \<noteq> ''ACK''" by simp
        ultimately show ?thesis using answer_methods_mem(5) by blast
      qed (use sent1 in simp)
    next
      case Io_failure
      with says obtain h' where g: "\<not> ex" "genAnswerStr E ''ERROR'' h' ''205'' ''commit fail, i/o error'' = Ok err"
        by (auto simp: says_def)
      have "sendACK err ss1 = Ok ss'"
        using r g genAnswerStr_code [OF g(2)] by (auto simp: respond_simps)
      from sends [OF g(2) this sent1 answer_methods_mem(2)] show ?thesis by simp
    qed
  qed
qed

text \<open>
  What an authenticated session makes of a commit: it answers once, with the
  acknowledgement where the log committed and with the log's own answer where it refused.
\<close>

lemma commit_act:
  assumes k: "\<not> server_key (getTsn E h)" and role: "getRole (node_log n) = Ok ''backup''"
    and i: "parse E h = Ok 3" and auth: "isAuth (rem_ip ss) (rem_port ss) ss" and w: "writable ss" "known ss"
    and c: "commit E h (lh n) = Ok (False, code, s1)"
    and a: "if code = ''committed'' then genAnswerStr E ''ACK'' h ''0'' ''Committed successfully.'' = Ok a
      else code \<noteq> ''incomplete'' \<and> a = code"
  shows "act j E N h x n ss = Ok (set_lh s1 n, (start ss)\<lparr>sent := sent ss @ [a]\<rparr>)"
proof -
  have e: "executeCommand E N 3 h x n (start ss) = Ok (False, code, set_lh s1 n, start ss)"
    using auth w(2) c by (simp add: executeCommand_def authorized_def isAuth_def start_def do_commit_cmd_def)
  have role1: "getRole (node_log (set_lh s1 n)) = Ok ''backup''"
    using only_at_role [OF commit_only [OF c]] k role by (simp add: server_key_def)
  have "respond j E N h (False, code, set_lh s1 n, start ss) =
      Ok (set_lh s1 n, (start ss)\<lparr>sent := sent ss @ [a]\<rparr>)"
  proof (cases "code = ''committed''")
    case True
    with a w(1) role1 show ?thesis
      by (simp add: respond_simps doCommit_def sendACK_def start_def)
  next
    case False
    with a w(1) show ?thesis by (simp add: respond_simps sendACK_def start_def)
  qed
  with e i show ?thesis by (simp add: act_def)
qed

end
