(* ===== verification/Backup_Progress.thy ===== *)
theory Backup_Progress
  imports Backup_Facts Log_Safety
begin

text \<open>
  What a backup whose disk can be written does for certain: its calls return, a commit that has
  its data goes through, and the log takes exactly the step of the abstract operation without
  an i/o failure.
\<close>

section \<open>A disk that can be written\<close>

text \<open>An open for writing succeeds on every path that is no directory.\<close>

definition sink_opens :: "env \<Rightarrow> bool" where
  "sink_opens E \<longleftrightarrow> (\<forall>app p u d. d p \<noteq> Some Dir \<longrightarrow> fd_sink E app p u d \<noteq> None)"

lemma ref_sink_opens: "sink_opens ref_env"
  by (auto simp: sink_opens_def ref_sink_def split: option.splits fentry.splits)

text \<open>The log's file and the files \<open>F\<close> are no directories.\<close>

definition can_write :: "env \<Rightarrow> string list \<Rightarrow> lstate \<Rightarrow> bool" where
  "can_write E F s \<longleftrightarrow> files_ok E \<and> sink_opens E \<and> list_all (\<lambda>g. files s g \<noteq> Some Dir) (fileName # F)"

lemma can_write_upd [simp]:
  "can_write E F (s\<lparr>log_trans := l\<rparr>) = can_write E F s" "can_write E F (s\<lparr>rng := k\<rparr>) = can_write E F s"
  by (simp_all add: can_write_def)

lemma save_works:
  assumes "can_write E F s" shows "\<exists>s'. save E s = Ok s' \<and> log_trans s' = log_trans s \<and> can_write E F s'"
proof -
  obtain d where d: "fd_sink E False fileName (oarchive E (log_trans s)) (files s) = Some d"
    using assms unfolding can_write_def sink_opens_def list.pred_inject by blast
  then have "d = (files s)(fileName \<mapsto> File (oarchive E (log_trans s)))"
    using assms file_lib.sink_new unfolding can_write_def files_ok_def by blast
  with assms d show ?thesis by (auto simp: save_def can_write_def list_all_iff)
qed

lemma writeFile_works:
  assumes cw: "can_write E F s" "f \<in> set F" and f: "getFileName (log_trans s) k = Ok f"
    and w: "writeFile E k s = Ok (b, s')"
  shows "b \<and> can_write E F s'"
proof -
  let ?d = "created E (files s) f"
  obtain u where "(case fd_sink E True f u ?d of
      Some d2 \<Rightarrow> Ok (True, s\<lparr>files := d2\<rparr>) | None \<Rightarrow> Ok (False, s\<lparr>files := ?d\<rparr>)) = Ok (b, s')"
    using w by (auto simp: writeFile_def f Let_def)
  moreover have c: "?d f \<noteq> Some Dir" "list_all (\<lambda>g. ?d g \<noteq> Some Dir) (fileName # F)"
    using cw by (auto simp: created_def can_write_def list_all_iff split: option.split fentry.split)
  moreover obtain d2 where d2: "fd_sink E True f u ?d = Some d2"
    using c(1) cw unfolding can_write_def sink_opens_def by blast
  moreover have "d2 = ?d(f \<mapsto> File (file_text ?d f @ u))"
    using d2 cw file_lib.sink_app unfolding can_write_def files_ok_def by blast
  ultimately show ?thesis using cw by (auto simp: can_write_def list_all_iff split: if_splits)
qed

section \<open>The operations\<close>

lemma commit_wait_works:
  assumes "can_write E F s" "om_find (log_trans s) k = Some t" "om_find t (- 1) = Some (st, d)"
  shows "\<exists>s'. commit_wait E k q s = Ok (False, ''incomplete'', s') \<and> can_write E F s'"
proof -
  let ?w = "with_status k (''WAITING'', lex_str E q) t (log_trans s)"
  obtain s' where "save E (s\<lparr>log_trans := ?w\<rparr>) = Ok s'" "can_write E F s'"
    using save_works [of E F "s\<lparr>log_trans := ?w\<rparr>"] assms(1) by auto
  with assms(2,3) show ?thesis
    by (simp add: commit_wait_def changeStatus_eval changeStatusData_eval om_simps)
qed

lemma commit_ready_works:
  assumes E: "text_ok E" and cw: "can_write E F s" and t: "om_find (log_trans s) k = Some t" "has_base t"
    "om_find t (- 1) = Some (st, d)" "om_find t 0 = Some (z, f)"
    and fF: "f \<in> set F" and k: "\<not> server_key k" and q: "1 \<le> q" "q < 2147483647" "stored_run t q"
    and role: "getRole (log_trans s) = Ok ''backup''"
  shows "\<exists>s'. commit_ready E h k q s = Ok (False, ''committed'', s') \<and> can_write E F s'"
proof -
  let ?t2 = "om_put (- 1) (''WRITING'', lex_str E q) t"
  let ?w = "with_status k (''WRITING'', lex_str E q) t (log_trans s)"
  have at: "atoi (lex_str E q) = Ok q" using E q by (simp add: in_int32_def)
  obtain s2 where s2: "save E (s\<lparr>log_trans := ?w\<rparr>) = Ok s2" "log_trans s2 = ?w" "can_write E F s2"
    using save_works [of E F "s\<lparr>log_trans := ?w\<rparr>"] cw by auto
  have r2: "getRole (log_trans s2) = Ok ''backup''" using role k s2(2) by simp
  have run2: "stored_run ?t2 q" using q(3) by (auto simp: stored_run_def list_all_iff om_simps)
  obtain b s3 where wr: "writeFile E k s2 = Ok (b, s3)"
    using defined_writeFile [of s2 k ?t2 "''WRITING''" "lex_str E q" q E] s2(2) t(2) at q run2
    by (auto simp: om_simps has_base_put)
  have fn: "getFileName (log_trans s2) k = Ok f"
    using s2(2) t by (simp add: getFileName_def entry_def om_simps)
  have b: "b" "can_write E F s3" using writeFile_works [OF s2(3) fF fn wr] by auto
  have l3: "log_trans s3 = ?w" using writeFile_log [OF wr] s2(2) by simp
  let ?c = "with_status k (''COMMITTED'', lex_str E q) t (log_trans s)"
  have up: "changeStatus (log_trans s3) k ''COMMITTED'' = Ok ?c"
    unfolding l3 by (subst changeStatus_eval [where t = ?t2]) (simp_all add: om_simps)
  obtain s4 where "save E (s3\<lparr>log_trans := ?c\<rparr>) = Ok s4" "can_write E F s4"
    using save_works [of E F "s3\<lparr>log_trans := ?c\<rparr>"] b(2) by auto
  with t s2(1) r2 wr b(1) up show ?thesis
    by (simp add: commit_ready_def changeStatus_eval changeStatusData_eval om_simps)
qed


text \<open>A commit of a transaction that is still open: it goes through, or waits for its data.\<close>

definition pending :: "int \<Rightarrow> atxn \<Rightarrow> bool" where
  "pending q a \<longleftrightarrow> phase a = Active \<or> phase a = Flagged \<or> phase a = Waiting q"

lemma commit_works:
  assumes E: "text_ok E" and wf: "wf_log (log_trans s)" and k: "\<not> server_key (getTsn E h)"
    and role: "getRole (log_trans s) = Ok ''backup''"
    and a: "abs_log (log_trans s) (getTsn E h) = Some a" "pending (getSeq E h) a" and cw: "can_write E F s" "target a \<in> set F"
    and q: "1 \<le> getSeq E h" "getSeq E h < 2147483647"
  shows "\<exists>s'. commit E h s = Ok (False, if unbroken (writes a) (getSeq E h) then ''committed'' else ''incomplete'', s')
    \<and> can_write E F s'
    \<and> abs_log (log_trans s') = (abs_log (log_trans s))(getTsn E h \<mapsto>
        a\<lparr>phase := if unbroken (writes a) (getSeq E h) then Committed (getSeq E h) else Waiting (getSeq E h)\<rparr>)"
proof -
  let ?k = "getTsn E h" and ?q = "getSeq E h"
  obtain t where t: "om_find (log_trans s) ?k = Some t" and at: "a = abs_txn t"
    using a(1) k by (auto simp: abs_log_find)
  have wt: "wf_txn t" by (rule wf_log_txn [OF wf t k])
  note base = wf_txn_base [OF wt]
  obtain st d where p: "om_find t (- 1) = Some (st, d)" and ws: "wf_status t (st, d)"
    using wf_txn_status [OF wt] by (metis prod.exhaust_sel)
  obtain z f where z: "om_find t 0 = Some (z, f)" using base by (auto simp: has_base_iff)
  then have f: "target a = f" by (simp add: at abs_txn_def)
  have "st = ''ACTIVE'' \<or> st = ''FLAG'' \<or> st = ''WAITING'' \<and> atoi_val d = ?q"
    using ws a(2) by (cases rule: status_cases) (auto simp: at pending_def abs_phase [OF p])
  then have run: "commit E h s = (if missing t ?q = [] then commit_ready E h ?k ?q s else commit_wait E ?k ?q s)"
    using commit_unfold [OF t base p wf_status_int32 [OF ws]] q(1) by auto
  have ub: "missing t ?q = [] \<longleftrightarrow> unbroken (writes a) ?q" unfolding at by (rule missing_unbroken [OF base])
  obtain s' where s': "commit E h s = Ok (False, if unbroken (writes a) ?q then ''committed'' else ''incomplete'', s')"
    "can_write E F s'"
    using commit_ready_works [OF E cw(1) t base p z cw(2) [unfolded f] k q _ role] unbroken_stored_run [of t ?q]
      commit_wait_works [OF cw(1) t p]
    by (cases "unbroken (writes a) ?q") (auto simp: run ub at)
  obtain v io where v: "spec_commit (is_primary (log_trans s)) io ?k ?q (abs_log (log_trans s)) = (v, abs_log (log_trans s'))"
    and says: "says E h v False (if unbroken (writes a) ?q then ''committed'' else ''incomplete'')"
    using commit_sim [OF E wf k s'(1)] by blast
  have "spec_commit False io ?k ?q (abs_log (log_trans s)) =
      (let (v, a') = try_commit False io ?q a in (v, (abs_log (log_trans s))(?k \<mapsto> a')))"
    using a by (auto simp: spec_commit_def on_txn_def commit_txn_def pending_def)
  then have "abs_log (log_trans s') = (abs_log (log_trans s))(?k \<mapsto>
      a\<lparr>phase := if unbroken (writes a) ?q then Committed ?q else Waiting ?q\<rparr>)"
    using v says role q(1) by (auto simp: try_commit_def says_def split: if_splits)
  with s' show ?thesis by blast
qed


text \<open>
  A write for a transaction whose commit is waiting, or through: it is stored, completes the
  commit, or is refused, and in each case the session has one answer to send.
\<close>

definition one_answer :: "env \<Rightarrow> string \<Rightarrow> bool \<Rightarrow> string \<Rightarrow> bool" where
  "one_answer E h r c \<longleftrightarrow> r \<and> c = [] \<or> \<not> r \<and> (c = ''committed'' \<or>
     (\<exists>mt no e. genAnswerStr E mt h no e = Ok c \<and> mt \<in> set answer_methods \<and> plain mt \<and> plain no
        \<and> length e < 2147483647))"

lemma write_works:
  assumes E: "text_ok E" and wf: "wf_log (log_trans s)" and k: "\<not> server_key (getTsn E h)"
    and role: "getRole (log_trans s) = Ok ''backup''" and h: "3 \<le> length (tokens E h)"
    and a: "abs_log (log_trans s) (getTsn E h) = Some a" "phase a = Waiting n \<or> phase a = Committed n"
    and cw: "can_write E F s" "target a \<in> set F" and q: "1 \<le> getSeq E h" and n: "n < 2147483647"
  shows "\<exists>r c s'. addLogEntry E h x s = Ok (r, c, s') \<and> can_write E F s' \<and> one_answer E h r c
    \<and> abs_log (log_trans s') = (abs_log (log_trans s))(getTsn E h \<mapsto> snd (write_txn False True (getSeq E h) x a))"
proof -
  let ?k = "getTsn E h" and ?q = "getSeq E h"
  let ?a' = "a\<lparr>writes := (writes a)(?q \<mapsto> x)\<rparr>"
  obtain t where t: "om_find (log_trans s) ?k = Some t" and at: "a = abs_txn t"
    using a(1) k by (auto simp: abs_log_find)
  have wt: "wf_txn t" by (rule wf_log_txn [OF wf t k])
  obtain st d where p: "om_find t (- 1) = Some (st, d)" and ws: "wf_status t (st, d)"
    using wf_txn_status [OF wt] by (metis prod.exhaust_sel)
  have st: "st = ''WAITING'' \<and> phase a = Waiting n \<or> st = ''COMMITTED'' \<and> phase a = Committed n" "atoi_val d = n"
    using ws a(2) by (cases rule: status_cases; auto simp: at abs_phase [OF p])+
  note unf = addLogEntry_unfold [OF t p wf_status_int32 [OF ws], of x]
  have ref: "\<exists>c. refuse E h mt no e s = Ok (False, c, s)" for mt no e
    using genAnswerStr_defined h by (metis refuse_Ok)
  have old: "writes a ?q = None \<longleftrightarrow> om_find t ?q = None" using q by (simp add: at writes_abs)
  let ?t1 = "om_insert ?q (h, x) t"
  let ?s1 = "s\<lparr>log_trans := om_put ?k ?t1 (log_trans s)\<rparr>"
  show ?thesis
  proof (cases "st = ''WAITING'' \<and> om_find t ?q = None \<and> ?q \<le> n")
    case True
    have ok: "om_ok t" using wt by (simp add: wf_txn_def has_base_def)
    have wt1: "wf_txn ?t1" by (rule wf_txn_insert [OF wt q])
    have a1: "abs_txn ?t1 = ?a'" using abs_txn_write [OF ok q] True at by simp
    have wf1: "wf_log (log_trans ?s1)" using wf_log_put [OF wf wt1 k] by simp
    have i: "in_int32 n" "1 \<le> n" using wf_status_int32 [OF ws] st(2) q True by auto
    have can: "canCommit (log_trans ?s1) ?k n [] = Ok (unbroken (writes ?a') n, missing ?t1 n)"
      using i canCommit_eval [of "log_trans ?s1" ?k ?t1 n "[]"] wf_txn_base [OF wt1] missing_unbroken [OF wf_txn_base [OF wt1], of n] a1
      by (simp add: om_simps)
    have run: "addLogEntry E h x s = (if unbroken (writes ?a') n then commit E (fake_header E ?k n) ?s1 else Ok (True, [], ?s1))"
      using True q can st(2) by (simp add: unf store_entry_def Let_def)
    have spec: "write_txn False True ?q x a = (if unbroken (writes ?a') n then (Commit_now, ?a'\<lparr>phase := Committed n\<rparr>) else (Done, ?a'))"
      using True st old i by (auto simp: write_txn_def try_commit_def Let_def)
    show ?thesis
    proof (cases "unbroken (writes ?a') n")
      case ub: True
      have f: "getTsn E (fake_header E ?k n) = ?k" "getSeq E (fake_header E ?k n) = n"
        using E i by (simp_all add: getTsn_in32)
      have al: "abs_log (log_trans ?s1) (getTsn E (fake_header E ?k n)) = Some ?a'"
        using k by (simp add: f a1)
      have pd: "pending (getSeq E (fake_header E ?k n)) ?a'" using st True by (auto simp: pending_def f)
      have k1: "\<not> server_key (getTsn E (fake_header E ?k n))" using k f by simp
      have role1: "getRole (log_trans ?s1) = Ok ''backup''" using role k by simp
      have cw1: "can_write E F ?s1" "target ?a' \<in> set F" using cw by simp_all
      have n1: "1 \<le> getSeq E (fake_header E ?k n)" "getSeq E (fake_header E ?k n) < 2147483647"
        using f i n by simp_all
      from commit_works [OF E wf1 k1 role1 al pd cw1 n1] ub run f k spec show ?thesis
        by (auto simp: one_answer_def)
    qed (use run cw(1) spec k a1 in \<open>auto simp: one_answer_def\<close>)
  next
    case False
    have same: "(abs_log (log_trans s))(?k \<mapsto> a) = abs_log (log_trans s)" using a(1) by (simp add: fun_upd_idem)
    have "snd (write_txn False True ?q x a) = a" using False st old by (auto simp: write_txn_def Let_def)
    moreover have "\<exists>c. addLogEntry E h x s = Ok (False, c, s) \<and> one_answer E h False c"
    proof -
      have one: "\<exists>c. refuse E h mt no e s = Ok (False, c, s) \<and> one_answer E h False c"
        if "mt \<in> set answer_methods" "plain mt" "plain no" "length e < 2147483647" for mt no e
        using that ref [of mt no e] by (auto simp: one_answer_def)
      have "addLogEntry E h x s = refuse E h ''ERROR'' ''202'' ''Transaction was previously committed'' s
        \<or> addLogEntry E h x s = refuse E h ''WARNING'' ''301'' ''SeqNum for current tsnID already received, ignored'' s
        \<or> addLogEntry E h x s = refuse E h ''ERROR'' ''202''
            ''Sequence number for write is higher than pending commit. Ignored.'' s"
        unfolding unf using False st q by auto
      then show ?thesis
        using one [of "''ERROR''" "''202''"] one [of "''WARNING''" "''301''"] by (elim disjE) (simp_all add: plain_def)
    qed
    ultimately show ?thesis using cw(1) same by auto
  qed
qed

section \<open>The requests for missing writes\<close>

definition ask :: "env \<Rightarrow> int \<Rightarrow> int \<Rightarrow> string" where
  "ask E k i = header_line ''ACK_RESEND'' (lex_str E k) (lex_str E i) ''0'' @ '' 0'' @ crlf @ crlf @ crlf"

lemma resend_all:
  assumes E: "text_ok E" and k: "in_int32 k" and qs: "\<forall>i \<in> set qs. in_int32 i" and w: "writable ss"
  shows "resend_loop E k qs ss = Ok (ss\<lparr>sent := sent ss @ map (ask E k) qs\<rparr>)"
  using qs w
proof (induction qs arbitrary: ss)
  case (Cons i qs)
  have i: "in_int32 i" using Cons.prems(1) by simp
  let ?h = "''empty'' @ tab # lex_str E k @ tab # lex_str E i @ tab # []"
  have "tokens E ?h = [''empty'', lex_str E k, lex_str E i, []]"
    using tokens_tab [OF E, of "''empty''"] tokens_tab [OF E lex_str_plain [OF E k]]
      tokens_tab [OF E lex_str_plain [OF E i]] tokens_Nil [OF E] by (simp add: plain_def)
  note shape = genAnswerStr_shape [OF this, of "''ACK_RESEND''" "''0''" "'' ''"]
  from Cons.IH [of "ss\<lparr>sent := sent ss @ [ask E k i]\<rparr>"] Cons.prems shape
  show ?case by (simp add: answer_def sendACK_def iToS_def ask_def)
qed simp

lemma resend_missing:
  assumes "text_ok E" and "wf_log l" and "in_int32 k" and "\<not> server_key k"
    and "abs_log l k = Some a" and "phase a = Waiting q"
    and "\<And>j. writes a j \<noteq> None \<Longrightarrow> in_int32 j"
  shows "\<exists>ms. (\<forall>ss. writable ss \<longrightarrow> sendACK_RESEND E k l ss = Ok (ss\<lparr>sent := sent ss @ map (ask E k) (rev ms)\<rparr>))
    \<and> sorted_wrt (<) ms
    \<and> set ms = {i. 1 \<le> i \<and> (i \<le> q \<or> (\<exists>j. writes a j \<noteq> None \<and> i \<le> j)) \<and> writes a i = None}"
proof -
  obtain t where t: "om_find l k = Some t" and at: "a = abs_txn t"
    using assms(4,5) by (auto simp: abs_log_find)
  note wt = wf_log_txn [OF assms(2) t assms(4)]
  obtain st d where p: "om_find t (- 1) = Some (st, d)" and ws: "wf_status t (st, d)"
    using wf_txn_status [OF wt] by (metis prod.exhaust_sel)
  have q: "st = ''WAITING''" "atoi_val d = q" "in_int32 q"
    using assms(6) at abs_phase [OF p] wf_status_int32 [OF ws] by (auto split: if_splits)
  then have n: "getStatusData l k = Ok q"
    using getStatusData_eval [OF t p] by (simp add: atoi_def)
  have base: "has_base t" by (rule wf_txn_base [OF wt])
  let ?ms = "missing t q"
  have c: "canCommit l k q [] = Ok (?ms = [] \<and> q \<noteq> 0, ?ms)"
    using canCommit_eval [OF t base, of q "[]"] by simp
  have set: "set ?ms = {i. 1 \<le> i \<and> (i \<le> q \<or> (\<exists>j. writes a j \<noteq> None \<and> i \<le> j)) \<and> writes a i = None}"
    using missing_reach [OF base] by (auto simp: set_missing writes_abs at)
  have "in_int32 i" if i: "i \<in> set ?ms" for i
  proof -
    from i set obtain "1 \<le> i" "i \<le> q \<or> (\<exists>j. writes a j \<noteq> None \<and> i \<le> j)" by auto
    with q(3) assms(7) show ?thesis by (force simp: in_int32_def)
  qed
  then have "\<forall>i \<in> set (rev ?ms). in_int32 i" by simp
  from resend_all [OF assms(1,3) this] n c
  have "writable ss \<Longrightarrow> sendACK_RESEND E k l ss = Ok (ss\<lparr>sent := sent ss @ map (ask E k) (rev ?ms)\<rparr>)" for ss
    by (auto simp: sendACK_RESEND_def)
  moreover have "sorted_wrt (<) ?ms"
    unfolding missing_def by (intro sorted_wrt_filter sorted_wrt_upto)
  ultimately show ?thesis using set by blast
qed

end
