(* ===== verification/Request_Order.thy ===== *)
theory Request_Order
  imports Backup_Progress
begin

text \<open>
  The requests on one transaction in any order: on a backup whose disk can be written the
  outcome depends only on which writes came and whether a commit did, not on their order nor
  on how often they were repeated.
\<close>

section \<open>Requests\<close>

datatype request = Put string string | Fin string

fun request_one :: "env \<Rightarrow> request \<Rightarrow> lstate \<Rightarrow> lstate res" where
  "request_one E (Put h x) s = bnd (addLogEntry E h x s) (\<lambda>(r, c, s1). Ok s1)"
| "request_one E (Fin h) s = bnd (commit E h s) (\<lambda>(r, c, s1). Ok s1)"

fun request_all :: "env \<Rightarrow> request list \<Rightarrow> lstate \<Rightarrow> lstate res" where
  "request_all E [] s = Ok s"
| "request_all E (r # rs) s = bnd (request_one E r s) (request_all E rs)"

text \<open>A write among the first \<open>n\<close> of transaction \<open>k\<close>, with the data \<open>d\<close> has for it, or its commit.\<close>

fun request_for :: "env \<Rightarrow> int \<Rightarrow> int \<Rightarrow> (int \<Rightarrow> string) \<Rightarrow> request \<Rightarrow> bool" where
  "request_for E k n d (Put h x) \<longleftrightarrow> 3 \<le> length (tokens E h) \<and> getTsn E h = k
     \<and> 1 \<le> getSeq E h \<and> getSeq E h \<le> n \<and> x = d (getSeq E h)"
| "request_for E k n d (Fin h) \<longleftrightarrow> 3 \<le> length (tokens E h) \<and> getTsn E h = k \<and> getSeq E h = n"

fun put_number :: "env \<Rightarrow> request \<Rightarrow> int list" where
  "put_number E (Put h x) = [getSeq E h]"
| "put_number E (Fin h) = []"

fun is_fin :: "request \<Rightarrow> bool" where
  "is_fin (Put h x) = False"
| "is_fin (Fin h) = True"

definition came :: "env \<Rightarrow> request list \<Rightarrow> int \<Rightarrow> bool" where
  "came E rs q \<longleftrightarrow> q \<in> set (concat (map (put_number E) rs))"

definition all_came :: "env \<Rightarrow> int \<Rightarrow> request list \<Rightarrow> bool" where
  "all_came E n rs \<longleftrightarrow> list_all (came E rs) [1..n]"

definition seen_phase :: "env \<Rightarrow> int \<Rightarrow> request list \<Rightarrow> phase" where
  "seen_phase E n rs =
     (if \<not> list_ex is_fin rs then Active else if all_came E n rs then Committed n else Waiting n)"

definition seen_txn :: "env \<Rightarrow> int \<Rightarrow> (int \<Rightarrow> string) \<Rightarrow> string \<Rightarrow> request list \<Rightarrow> atxn" where
  "seen_txn E n d f rs = \<lparr>phase = seen_phase E n rs, age = Fresh, target = f,
     writes = (\<lambda>q. if came E rs q then Some (d q) else None)\<rparr>"

lemma seen_sel [simp]:
  "phase (seen_txn E n d f rs) = seen_phase E n rs" "target (seen_txn E n d f rs) = f"
  "writes (seen_txn E n d f rs) q = (if came E rs q then Some (d q) else None)"
  by (simp_all add: seen_txn_def)

lemma seen_empty: "seen_txn E n d f [] = fresh_txn f"
  by (simp add: seen_txn_def seen_phase_def came_def fresh_txn_def)

lemma came_snoc: "came E (rs @ [r]) q \<longleftrightarrow> came E rs q \<or> q \<in> set (put_number E r)"
  by (auto simp: came_def)

lemma came_within: "\<forall>r \<in> set rs. request_for E k n d r \<Longrightarrow> came E rs q \<Longrightarrow> 1 \<le> q \<and> q \<le> n"
proof -
  have "request_for E k n d r \<Longrightarrow> q \<in> set (put_number E r) \<Longrightarrow> 1 \<le> q \<and> q \<le> n" for r
    by (cases r) auto
  then show "\<forall>r \<in> set rs. request_for E k n d r \<Longrightarrow> came E rs q \<Longrightarrow> 1 \<le> q \<and> q \<le> n"
    by (auto simp: came_def)
qed

lemma unbroken_came:
  assumes "\<And>q. P q \<Longrightarrow> 1 \<le> q \<and> q \<le> n"
  shows "unbroken (\<lambda>q. if P q then Some (d q) else None) n \<longleftrightarrow> (\<forall>q. 1 \<le> q \<and> q \<le> n \<longrightarrow> P q)"
proof -
  have "unbroken (\<lambda>q. if P q then Some (d q) else None) n \<longleftrightarrow>
      (\<forall>i. 1 \<le> i \<and> (i \<le> n \<or> (\<exists>j. P j \<and> i \<le> j)) \<longrightarrow> P i)"
    by (simp add: unbroken_def) blast
  also have "\<dots> \<longleftrightarrow> (\<forall>q. 1 \<le> q \<and> q \<le> n \<longrightarrow> P q)"
    using assms order_trans by blast
  finally show ?thesis .
qed

lemma all_came_iff: "all_came E n rs \<longleftrightarrow> (\<forall>q. 1 \<le> q \<and> q \<le> n \<longrightarrow> came E rs q)"
  by (auto simp: all_came_def list_all_iff)

section \<open>One request\<close>

lemma write_active_works:
  assumes E: "text_ok E" and wf: "wf_log (log_trans s)" and k: "\<not> server_key (getTsn E h)"
    and h: "3 \<le> length (tokens E h)"
    and a: "abs_log (log_trans s) (getTsn E h) = Some a" "phase a = Active" and cw: "can_write E F s"
    and q: "1 \<le> getSeq E h"
  shows "\<exists>r c s'. addLogEntry E h x s = Ok (r, c, s') \<and> can_write E F s'
    \<and> abs_log (log_trans s') = (abs_log (log_trans s))(getTsn E h \<mapsto> snd (write_txn False True (getSeq E h) x a))"
proof -
  let ?k = "getTsn E h" and ?q = "getSeq E h"
  obtain t where t: "om_find (log_trans s) ?k = Some t" and at: "a = abs_txn t"
    using a(1) k by (auto simp: abs_log_find)
  have wt: "wf_txn t" by (rule wf_log_txn [OF wf t k])
  obtain st d where p: "om_find t (- 1) = Some (st, d)" and ws: "wf_status t (st, d)"
    using wf_txn_status [OF wt] by (metis prod.exhaust_sel)
  have st: "st = ''ACTIVE''"
    using ws a(2) by (cases rule: status_cases) (auto simp: at abs_phase [OF p])
  have ok: "om_ok t" using wt by (simp add: wf_txn_def has_base_def)
  have p1: "om_find (om_insert ?q (h, x) t) (- 1) = Some (st, d)" using p ok q by (simp add: om_simps)
  note unf = addLogEntry_unfold [OF t p wf_status_int32 [OF ws], of x]
  have ref: "\<exists>c. refuse E h mt no e s = Ok (False, c, s)" for mt no e
    using genAnswerStr_defined h by (metis refuse_Ok)
  have "\<exists>r c s'. addLogEntry E h x s = Ok (r, c, s') \<and> can_write E F s'"
  proof (cases "om_find t ?q = None")
    case True
    with unf q st p1 cw show ?thesis
      by (auto simp: store_entry_def Let_def om_simps changeStatus_eval)
  next
    case False
    with unf q st ref [of "''WARNING''" "''301''"] cw show ?thesis by auto
  qed
  then obtain r c s' where s': "addLogEntry E h x s = Ok (r, c, s')" "can_write E F s'" by blast
  obtain v io where "spec_write (is_primary (log_trans s)) io ?k ?q x (abs_log (log_trans s))
      = (v, abs_log (log_trans s'))"
    using write_sim [OF E wf k s'(1)] by blast
  with a q have "abs_log (log_trans s') = (abs_log (log_trans s))(?k \<mapsto> snd (write_txn False True ?q x a))"
    by (auto simp: spec_write_def on_txn_def write_txn_def Let_def split: if_splits)
  with s' show ?thesis by blast
qed

lemma commit_again_works:
  assumes E: "text_ok E" and wf: "wf_log (log_trans s)" and k: "\<not> server_key (getTsn E h)"
    and h: "3 \<le> length (tokens E h)"
    and a: "abs_log (log_trans s) (getTsn E h) = Some a" "phase a = Committed (getSeq E h)"
  shows "\<exists>c. commit E h s = Ok (False, c, s)"
proof -
  obtain t where t: "om_find (log_trans s) (getTsn E h) = Some t" and at: "a = abs_txn t"
    using a(1) k by (auto simp: abs_log_find)
  have wt: "wf_txn t" by (rule wf_log_txn [OF wf t k])
  obtain st d where p: "om_find t (- 1) = Some (st, d)" and ws: "wf_status t (st, d)"
    using wf_txn_status [OF wt] by (metis prod.exhaust_sel)
  have "st = ''COMMITTED'' \<and> atoi_val d = getSeq E h"
    using ws a(2) by (cases rule: status_cases) (auto simp: at abs_phase [OF p])
  with commit_unfold [OF t wf_txn_base [OF wt] p wf_status_int32 [OF ws]]
  have "commit E h s = refuse E h ''ACK'' ''0'' ''Already committed'' s" by simp
  moreover obtain c where "genAnswerStr E ''ACK'' h ''0'' ''Already committed'' = Ok c"
    using genAnswerStr_defined h by blast
  ultimately show ?thesis by simp
qed

text \<open>The abstract write and commit on what was seen so far.\<close>

lemma seen_same:
  assumes "\<And>q. came E rs' q = came E rs q" "list_ex is_fin rs' = list_ex is_fin rs"
  shows "seen_txn E n d f rs' = seen_txn E n d f rs"
proof -
  have "came E rs' = came E rs" using assms(1) by (rule ext)
  with assms(2) show ?thesis by (simp add: seen_txn_def seen_phase_def all_came_def)
qed

lemma write_seen:
  assumes rs: "\<forall>r \<in> set rs. request_for E k n d r" and r: "request_for E k n d (Put h x)" and n: "1 \<le> n"
  shows "snd (write_txn False True (getSeq E h) x (seen_txn E n d f rs)) = seen_txn E n d f (rs @ [Put h x])"
proof -
  let ?q = "getSeq E h" and ?rs = "rs @ [Put h x]"
  have c: "came E (rs @ [Put h y]) i \<longleftrightarrow> came E rs i \<or> i = ?q" for i y by (auto simp: came_snoc)
  have fin: "list_ex is_fin ?rs = list_ex is_fin rs" by simp
  have q: "1 \<le> ?q" "?q \<le> n" "x = d ?q" using r by simp_all
  show ?thesis
  proof (cases "came E rs ?q")
    case True
    then have "snd (write_txn False True ?q x (seen_txn E n d f rs)) = seen_txn E n d f rs"
      using q by (auto simp: write_txn_def Let_def seen_phase_def)
    moreover have "seen_txn E n d f ?rs = seen_txn E n d f rs"
      using True c fin by (intro seen_same) auto
    ultimately show ?thesis by simp
  next
    case new: False
    let ?a = "(seen_txn E n d f rs)\<lparr>writes := (writes (seen_txn E n d f rs))(?q \<mapsto> x)\<rparr>"
    have w: "writes ?a = (\<lambda>i. if came E ?rs i then Some (d i) else None)"
      using q by (auto simp: c fun_eq_iff)
    have "\<forall>r \<in> set ?rs. request_for E k n d r" using rs r by (simp del: request_for.simps)
    note in1 = came_within [OF this]
    have ub: "unbroken (writes ?a) n \<longleftrightarrow> all_came E n ?rs"
      unfolding w using unbroken_came [OF in1] by (simp add: all_came_iff)
    have seen: "seen_txn E n d f ?rs = ?a\<lparr>phase := seen_phase E n ?rs\<rparr>"
      using w by (simp add: seen_txn_def)
    have before: "\<not> all_came E n rs" using new q by (auto simp: all_came_iff)
    have none: "writes (seen_txn E n d f rs) ?q = None" using new by simp
    show ?thesis
    proof (cases "list_ex is_fin rs")
      case False
      then show ?thesis
        using none unfolding seen by (simp add: write_txn_def Let_def seen_phase_def fin)
    next
      case True
      with before have ph: "phase (seen_txn E n d f rs) = Waiting n" by (simp add: seen_phase_def)
      have "snd (write_txn False True ?q x (seen_txn E n d f rs)) =
          (if unbroken (writes ?a) n then ?a\<lparr>phase := Committed n\<rparr> else ?a)"
        using none q n unfolding write_txn_def ph by (simp add: try_commit_def Let_def)
      moreover have "?a = ?a\<lparr>phase := Waiting n\<rparr>"
        using ph by (intro atxn.equality) simp_all
      ultimately show ?thesis
        using True unfolding seen seen_phase_def ub fin by (simp split: if_splits)
    qed
  qed
qed

lemma seen_fin:
  assumes rs: "\<forall>r \<in> set rs. request_for E k n d r"
  shows "seen_txn E n d f (rs @ [Fin h]) =
    (if list_ex is_fin rs \<and> all_came E n rs then seen_txn E n d f rs
     else (seen_txn E n d f rs)\<lparr>phase :=
       if unbroken (writes (seen_txn E n d f rs)) n then Committed n else Waiting n\<rparr>)"
proof -
  have c: "came E (rs @ [Fin h]) = came E rs" by (auto simp: came_snoc fun_eq_iff)
  have "unbroken (writes (seen_txn E n d f rs)) n \<longleftrightarrow> all_came E n rs"
    using unbroken_came [OF came_within [OF rs]] by (simp add: seen_txn_def all_came_iff)
  then show ?thesis by (simp add: seen_txn_def seen_phase_def all_came_def c)
qed

section \<open>All requests\<close>

text \<open>A backup in good order on which the transaction is as the requests so far say.\<close>

definition on_track :: "env \<Rightarrow> int \<Rightarrow> int \<Rightarrow> (int \<Rightarrow> string) \<Rightarrow> string \<Rightarrow> request list \<Rightarrow> lstate \<Rightarrow> bool" where
  "on_track E k n d f rs s \<longleftrightarrow> wf_log (log_trans s) \<and> getRole (log_trans s) = Ok ''backup'' \<and> can_write E [f] s
     \<and> abs_log (log_trans s) k = Some (seen_txn E n d f rs)"

lemma request_step:
  assumes E: "text_ok E" and k: "\<not> server_key k" and n: "1 \<le> n" "n < 2147483647"
    and tr: "on_track E k n d f rs s" and rs: "\<forall>r \<in> set rs. request_for E k n d r" and r: "request_for E k n d r"
  shows "\<exists>s'. request_one E r s = Ok s' \<and> on_track E k n d f (rs @ [r]) s'
    \<and> (\<forall>j. j \<noteq> k \<longrightarrow> abs_log (log_trans s') j = abs_log (log_trans s) j)
    \<and> serve\<^sup>*\<^sup>* (service_of s) (service_of s')"
proof -
  let ?a = "seen_txn E n d f rs"
  have wf: "wf_log (log_trans s)" and role: "getRole (log_trans s) = Ok ''backup''"
    and cw: "can_write E [f] s" "target ?a \<in> set [f]" and a: "abs_log (log_trans s) k = Some ?a"
    using tr by (simp_all add: on_track_def)
  have F: "files_ok E" using cw(1) by (simp add: can_write_def)
  show ?thesis
  proof (cases r)
    case (Put h x)
    with r have h: "3 \<le> length (tokens E h)" "getTsn E h = k" "1 \<le> getSeq E h" by simp_all
    have k': "\<not> server_key (getTsn E h)" and a': "abs_log (log_trans s) (getTsn E h) = Some ?a"
      using k a h by simp_all
    have "\<exists>v c s'. addLogEntry E h x s = Ok (v, c, s') \<and> can_write E [f] s'
      \<and> abs_log (log_trans s') = (abs_log (log_trans s))(getTsn E h \<mapsto> snd (write_txn False True (getSeq E h) x ?a))"
    proof (cases "list_ex is_fin rs")
      case True
      then have "phase ?a = Waiting n \<or> phase ?a = Committed n" by (simp add: seen_phase_def)
      with write_works [OF E wf k' role h(1) a' _ cw h(3) n(2)] show ?thesis by blast
    next
      case False
      then have "phase ?a = Active" by (simp add: seen_phase_def)
      from write_active_works [OF E wf k' h(1) a' this cw(1) h(3)] show ?thesis by blast
    qed
    then obtain v c s' where s': "addLogEntry E h x s = Ok (v, c, s')" "can_write E [f] s'"
      and m: "abs_log (log_trans s') = (abs_log (log_trans s))(k \<mapsto> seen_txn E n d f (rs @ [r]))"
      using write_seen [OF rs _ n(1), of h x f] r h(2) Put by auto
    have "wf_log (log_trans s')" using write_sim [OF E wf k' s'(1)] by blast
    moreover have "getRole (log_trans s') = Ok ''backup''"
      using only_at_role [OF addLogEntry_only [OF E s'(1)]] k' role by (simp add: server_key_def)
    moreover have "serve (service_of s) (service_of s')" by (rule write_serves [OF E F wf k' s'(1)])
    ultimately show ?thesis using s' m by (auto simp: Put on_track_def)
  next
    case (Fin h)
    with r have h: "3 \<le> length (tokens E h)" "getTsn E h = k" "getSeq E h = n" by simp_all
    have k': "\<not> server_key (getTsn E h)" and a': "abs_log (log_trans s) (getTsn E h) = Some ?a"
      using k a h by simp_all
    have "\<exists>c s'. commit E h s = Ok (False, c, s') \<and> can_write E [f] s'
      \<and> abs_log (log_trans s') = (abs_log (log_trans s))(k \<mapsto> seen_txn E n d f (rs @ [r]))"
    proof (cases "list_ex is_fin rs \<and> all_came E n rs")
      case True
      then have "phase ?a = Committed (getSeq E h)" using h by (simp add: seen_phase_def)
      from commit_again_works [OF E wf k' h(1) a' this] seen_fin [OF rs, of f h] True cw(1) a Fin show ?thesis
        by (auto simp: fun_upd_idem)
    next
      case False
      then have "pending (getSeq E h) ?a" using h by (auto simp: pending_def seen_phase_def)
      from commit_works [OF E wf k' role a' this cw] h n obtain c s' where
        s': "commit E h s = Ok (False, c, s')" "can_write E [f] s'"
        and m: "abs_log (log_trans s') = (abs_log (log_trans s))(k \<mapsto>
          ?a\<lparr>phase := if unbroken (writes ?a) n then Committed n else Waiting n\<rparr>)"
        by auto
      have "?a\<lparr>phase := if unbroken (writes ?a) n then Committed n else Waiting n\<rparr> = seen_txn E n d f (rs @ [r])"
        using seen_fin [OF rs, of f h] False Fin by simp
      with s' m show ?thesis by auto
    qed
    then obtain c s' where s': "commit E h s = Ok (False, c, s')" "can_write E [f] s'"
      and m: "abs_log (log_trans s') = (abs_log (log_trans s))(k \<mapsto> seen_txn E n d f (rs @ [r]))"
      by blast
    have "wf_log (log_trans s')" using commit_sim [OF E wf k' s'(1)] by blast
    moreover have "getRole (log_trans s') = Ok ''backup''"
      using only_at_role [OF commit_only [OF s'(1)]] k' role by (simp add: server_key_def)
    moreover have "serve (service_of s) (service_of s')" by (rule commit_serves [OF E F wf k' s'(1)])
    ultimately show ?thesis using s' m by (auto simp: Fin on_track_def)
  qed
qed

lemma request_run:
  assumes E: "text_ok E" and k: "\<not> server_key k" and n: "1 \<le> n" "n < 2147483647"
    and "on_track E k n d f rs s" "\<forall>r \<in> set (rs @ ts). request_for E k n d r"
  shows "\<exists>s'. request_all E ts s = Ok s' \<and> on_track E k n d f (rs @ ts) s'
    \<and> (\<forall>j. j \<noteq> k \<longrightarrow> abs_log (log_trans s') j = abs_log (log_trans s) j)
    \<and> serve\<^sup>*\<^sup>* (service_of s) (service_of s')"
  using assms(5,6)
proof (induction ts arbitrary: rs s)
  case (Cons r ts)
  then obtain s1 where s1: "request_one E r s = Ok s1" "on_track E k n d f (rs @ [r]) s1"
    "\<forall>j. j \<noteq> k \<longrightarrow> abs_log (log_trans s1) j = abs_log (log_trans s) j"
    "serve\<^sup>*\<^sup>* (service_of s) (service_of s1)"
    using request_step [OF E k n, of d f rs s r] by auto
  have "\<forall>r \<in> set ((rs @ [r]) @ ts). request_for E k n d r" using Cons.prems(2) by simp
  from Cons.IH [OF s1(2) this] obtain s' where s': "request_all E ts s1 = Ok s'" "on_track E k n d f (rs @ r # ts) s'"
    "\<forall>j. j \<noteq> k \<longrightarrow> abs_log (log_trans s') j = abs_log (log_trans s1) j"
    "serve\<^sup>*\<^sup>* (service_of s1) (service_of s')"
    by auto
  with s1 show ?case by (auto intro: rtranclp_trans)
qed simp

text \<open>What the files gain: the text of this transaction if it got through, nothing otherwise.\<close>

lemma one_lands:
  assumes "serve\<^sup>*\<^sup>* v w" "\<And>j. j \<noteq> k \<Longrightarrow> held w j = held v j" "\<not> settled (held v) k"
  shows "texts w p = texts v p @ (if settled (held w) k then lands (held w) p k else [])"
proof -
  obtain ks where ks: "adds ks v w" using serves_adds [OF assms(1)] by blast
  have "settled (held w) j \<and> \<not> settled (held v) j \<longleftrightarrow> j = k \<and> settled (held w) k" for j
    using assms(2) [of j] assms(3) by (cases "j = k") (simp_all add: settled_def)
  with ks have "distinct ks" "set ks = {j. j = k \<and> settled (held w) k}"
    and t: "texts w p = texts v p @ concat (map (lands (held w) p) ks)"
    by (simp_all add: adds_def)
  then have d: "distinct ks" "set ks = (if settled (held w) k then {k} else {})" by simp_all
  have "ks = (if settled (held w) k then [k] else [])"
  proof (cases "settled (held w) k")
    case True
    with d distinct_card [OF d(1)] have "length ks = 1" by simp
    then obtain x where "ks = [x]" by (cases ks) auto
    with d True show ?thesis by simp
  qed (use d in simp)
  with t show ?thesis by simp
qed

lemma seen_lands:
  assumes "\<not> own_file p"
  shows "(if is_committed (seen_phase E n rs) then lands (m(k \<mapsto> seen_txn E n d f rs)) p k else []) =
    (if list_ex is_fin rs \<and> all_came E n rs \<and> p = f then concat (map (\<lambda>q. d q @ [nl]) [1..n]) else [])"
proof -
  have "txn_text (seen_txn E n d f rs) n = concat (map (\<lambda>q. d q @ [nl]) [1..n])" if "all_came E n rs"
    using that unfolding txn_text_def by (intro arg_cong [of _ _ concat] map_cong) (auto simp: all_came_iff)
  then show ?thesis using assms by (auto simp: seen_phase_def lands_def)
qed

end
