(* ===== verification/Lifecycle_Properties.thy ===== *)
theory Lifecycle_Properties
  imports Log_Properties Request_Order
begin

text \<open>
  The properties of \<open>LogHandler\<close> around a transaction's requests: its creation, the restart
  of the server, the files, and the header grammar.
\<close>

section \<open>Creation\<close>

text \<open>C34: A new transaction gets a number from 1 to 100000 that no transaction of the log
  has, is active, empty and bound to the requested file; every other transaction stays as it
  is and the log stays well formed. Nothing happens for a name that is not portable.\<close>

theorem newTxn_creates:
  assumes "random_ok E" and "wf_log (log_trans s)" and "newTxn E f s = Ok (rn, s')"
  shows "if posix_name E f
     then 1 \<le> rn \<and> rn \<le> 100000 \<and> abs_log (log_trans s) rn = None
       \<and> abs_log (log_trans s') = (abs_log (log_trans s))(rn \<mapsto> fresh_txn f) \<and> wf_log (log_trans s')
     else rn = 0 \<and> s' = s"
  using newTxn_sim [OF assms(1,2) _ assms(3)] assms(3) by (auto simp: newTxn_def)

lemma newTxn_creates_witness:
  "\<exists>rn s'. newTxn ref_env ''memo'' (demo ''primary'' ''ACTIVE'' ''0'') = Ok (rn, s') \<and> 1 \<le> rn \<and>
     abs_log (log_trans s') rn = Some (fresh_txn ''memo'')"
proof -
  have "is_ok (newTxn ref_env ''memo'' (demo ''primary'' ''ACTIVE'' ''0''))" by code_simp
  then obtain rn s' where run: "newTxn ref_env ''memo'' (demo ''primary'' ''ACTIVE'' ''0'') = Ok (rn, s')"
    by (auto simp: is_ok_ex)
  have "posix_name ref_env ''memo''" by code_simp
  with newTxn_creates [OF ref_random_ok demo_wf(1) run] run show ?thesis by auto
qed

text \<open>C35: The search for a free number ends exactly when the generator ever offers one: with
  a free number among its values the call returns or throws in the save, and when every value
  it gives is taken the call never returns.\<close>

theorem newTxn_termination:
  assumes "posix_name E f"
  shows "newTxn E f s = Stop Diverged \<longleftrightarrow>
     (\<forall>j. om_find (log_trans s) (uniform E 100000 (rng s + j)) \<noteq> None)"
proof -
  have "draw_tsn E (log_trans s) (rng s) = None \<longleftrightarrow>
      (\<forall>j. om_find (log_trans s) (uniform E 100000 (rng s + j)) \<noteq> None)"
  proof
    assume "draw_tsn E (log_trans s) (rng s) = None"
    then show "\<forall>j. om_find (log_trans s) (uniform E 100000 (rng s + j)) \<noteq> None"
      using draw_tsn_returns [of "log_trans s" E "rng s"] by fastforce
  next
    assume all: "\<forall>j. om_find (log_trans s) (uniform E 100000 (rng s + j)) \<noteq> None"
    show "draw_tsn E (log_trans s) (rng s) = None"
    proof (cases "draw_tsn E (log_trans s) (rng s)")
      case (Some r)
      then obtain rn k where r: "draw_tsn E (log_trans s) (rng s) = Some (rn, k)" by (cases r) auto
      from draw_tsn_result [OF r] have k: "rng s < k" "om_find (log_trans s) (uniform E 100000 (k - 1)) = None"
        by auto
      then have "k - 1 = rng s + (k - 1 - rng s)" by simp
      with k(2) all show ?thesis by metis
    qed
  qed
  with assms show ?thesis
    by (auto simp: newTxn_def bnd_eq_Stop save_def split: option.splits)
qed

lemma newTxn_termination_witness:
  "newTxn ref_env ''memo'' (demo ''primary'' ''ACTIVE'' ''0'') \<noteq> Stop Diverged"
proof -
  have name: "posix_name ref_env ''memo''" by code_simp
  have "om_find (log_trans (demo ''primary'' ''ACTIVE'' ''0''))
      (uniform ref_env 100000 (rng (demo ''primary'' ''ACTIVE'' ''0'') + 0)) = None"
    by code_simp
  then show ?thesis by (subst newTxn_termination [OF name]) blast
qed

text \<open>\<open>MAKE_TXN\<close> on the backup creates the transaction under the primary's number when
  that number is free, and does nothing when it is taken, so that a packet that comes twice
  does no harm.\<close>

lemma makeTxn_creates:
  assumes "wf_log (log_trans s)" and "\<not> server_key k" and "makeTxn E f k s = Ok (b, s')"
  shows "b = (abs_log (log_trans s) k = None) \<and> wf_log (log_trans s') \<and>
     abs_log (log_trans s') = (if b then (abs_log (log_trans s))(k \<mapsto> fresh_txn f) else abs_log (log_trans s))"
  using makeTxn_sim [OF assms] by blast

lemma makeTxn_creates_witness:
  "\<exists>s'. makeTxn ref_env ''memo'' 9 (demo ''backup'' ''ACTIVE'' ''0'') = Ok (True, s') \<and>
     abs_log (log_trans s') 9 = Some (fresh_txn ''memo'')"
proof -
  have "case makeTxn ref_env ''memo'' 9 (demo ''backup'' ''ACTIVE'' ''0'') of Ok (b, s') \<Rightarrow> b | Stop e \<Rightarrow> False"
    by code_simp
  then obtain s' where run: "makeTxn ref_env ''memo'' 9 (demo ''backup'' ''ACTIVE'' ''0'') = Ok (True, s')"
    by (auto split: res.splits)
  from makeTxn_creates [OF demo_wf(2) demo_keys(5) run] run show ?thesis by auto
qed

section \<open>Reading files\<close>

text \<open>A read returns the whole text of a file that opens, with a newline put behind a
  last line that lacks one, and reports failure for an empty file as for one that does not
  open.\<close>

lemma readFile_returns:
  "readFile E p s =
     (let u = (if os_read E (files s) p then file_text (files s) p else [])
      in (u \<noteq> [], if u = [] \<or> last u = nl then u else u @ [nl]))"
  using readFile_text [of E s p] readFile_missing [of E s p] by (auto simp: closed_def Let_def)

section \<open>The header grammar\<close>

text \<open>A packet that echoes or requests a known method is numbered as the method table
  says, and a header the program accepts has its four fields read back as they were written.\<close>

lemma header_roundtrip:
  assumes "text_ok E" and "plain m" and "in_int32 k" and "in_int32 q" and "in_int32 n"
  shows "validHeader E (header_line m (lex_str E k) (lex_str E q) (lex_str E n)) \<and>
     parse E (header_line m (lex_str E k) (lex_str E q) (lex_str E n)) = Ok (meth m) \<and>
     getTsn E (header_line m (lex_str E k) (lex_str E q) (lex_str E n)) = k \<and>
     getSeq E (header_line m (lex_str E k) (lex_str E q) (lex_str E n)) = q \<and>
     getBytes E (header_line m (lex_str E k) (lex_str E q) (lex_str E n)) = Ok n"
  using header_fields [OF assms(1,2), of "lex_str E k" "lex_str E q" "lex_str E n"] assms by simp

lemma header_roundtrip_witness:
  "getTsn ref_env (header_line ''WRITE'' (lex_str ref_env 7) (lex_str ref_env 2) (lex_str ref_env 3)) = 7"
  using header_roundtrip [OF ref_text_ok, of "''WRITE''" 7 2 3] by (simp add: plain_def in_int32_def)

section \<open>The server's own entries\<close>

text \<open>C40: Nothing keeps a client from naming the server's own entry: \<open>ABORT\<close> of transaction 0
  on any well-formed log removes the server's data, and the next question for the role is
  undefined behaviour.\<close>

theorem abort_zero_breaks:
  assumes "wf_log (log_trans s)" and "getTsn E h = 0"
  shows "\<exists>s'. abort_txn E h s = Ok (True, [], s') \<and> getRole (log_trans s') = Stop Undefined"
proof -
  obtain t r d where t: "om_find (log_trans s) 0 = Some t" "om_find t (- 1) = Some (r, d)"
    and r: "r \<in> {''primary'', ''backup''}"
    using wf_log_role [OF assms(1)] by blast
  have "om_find (om_erase 0 (log_trans s)) 0 = None"
    using wf_log_ok [OF assms(1)] by (simp add: om_simps)
  then have "getRole (om_erase 0 (log_trans s)) = Stop Undefined"
    by (simp add: getRole_def entry_def)
  with t r show ?thesis
    by (auto simp: abort_txn_def Let_def assms(2) getStatus_eval [OF t])
qed

lemma abort_zero_breaks_witness:
  "\<exists>s'. abort_txn ref_env ''ABORT 0 0 0'' (demo ''primary'' ''ACTIVE'' ''0'') = Ok (True, [], s') \<and>
     getRole (log_trans s') = Stop Undefined"
proof -
  have "getTsn ref_env ''ABORT 0 0 0'' = 0" by code_simp
  from abort_zero_breaks [OF demo_wf(1) this] show ?thesis .
qed

section \<open>Requests in any order\<close>

text \<open>C9: On a backup whose disk can be written, the requests on a fresh transaction may come in
  any order and be repeated: every one of them returns, and what they leave depends only on
  which writes came and whether the commit did. Once all the writes up to its number and the
  commit have come the transaction is committed and its file has gained the data in the order
  of the numbers; before that no file has gained anything. Nothing else changes.\<close>

theorem requests_in_any_order:
  assumes "text_ok E" and "wf_log (log_trans s)" and "getRole (log_trans s) = Ok ''backup''"
    and "can_write E [f] s" and "\<not> server_key k" and "abs_log (log_trans s) k = Some (fresh_txn f)"
    and "1 \<le> n" and "n < 2147483647" and "\<forall>r \<in> set rs. request_for E k n d r"
  shows "\<exists>s'. request_all E rs s = Ok s'
    \<and> abs_log (log_trans s') = (abs_log (log_trans s))(k \<mapsto> seen_txn E n d f rs)
    \<and> (\<forall>p. \<not> own_file p \<longrightarrow> file_text (files s') p = file_text (files s) p @
         (if list_ex is_fin rs \<and> all_came E n rs \<and> p = f then concat (map (\<lambda>q. d q @ [nl]) [1..n]) else []))"
proof -
  have "on_track E k n d f [] s" using assms(2-4,6) by (simp add: on_track_def seen_empty)
  from request_run [OF assms(1,5,7,8) this, of rs] assms(9) obtain s' where s': "request_all E rs s = Ok s'"
    "on_track E k n d f rs s'" "\<forall>j. j \<noteq> k \<longrightarrow> abs_log (log_trans s') j = abs_log (log_trans s) j"
    "serve\<^sup>*\<^sup>* (service_of s) (service_of s')"
    by auto
  have m: "abs_log (log_trans s') = (abs_log (log_trans s))(k \<mapsto> seen_txn E n d f rs)"
    using s'(2,3) by (auto simp: on_track_def)
  have "\<not> settled (held (service_of s)) k" using assms(6) by (simp add: settled_def fresh_txn_def)
  from one_lands [OF s'(4) _ this] s'(3) m
  have "visible (files s') p = visible (files s) p @ (if is_committed (seen_phase E n rs)
      then lands ((abs_log (log_trans s))(k \<mapsto> seen_txn E n d f rs)) p k else [])" for p
    by (simp add: settled_def)
  note v = this
  have "file_text (files s') p = file_text (files s) p @
      (if list_ex is_fin rs \<and> all_came E n rs \<and> p = f then concat (map (\<lambda>q. d q @ [nl]) [1..n]) else [])"
    if "\<not> own_file p" for p
    using v [of p] that unfolding seen_lands [OF that] by (simp add: visible_def)
  with s'(1) m show ?thesis by blast
qed

definition memo_state :: lstate where
  "memo_state = (demo ''backup'' ''ACTIVE'' ''0'')\<lparr>log_trans :=
     open_txn 9 ''memo'' (log_trans (demo ''backup'' ''ACTIVE'' ''0''))\<rparr>"

definition memo_requests :: "request list" where
  "memo_requests = [Put ''WRITE 9 2 3'' ''cd'', Fin ''COMMIT 9 2 0'', Put ''WRITE 9 2 3'' ''cd'',
     Put ''WRITE 9 1 3'' ''ab'', Fin ''COMMIT 9 2 0'']"

lemma requests_in_any_order_witness:
  "\<exists>s'. request_all ref_env memo_requests memo_state = Ok s' \<and>
     file_text (files s') ''memo'' = ''ab'' @ [nl] @ ''cd'' @ [nl]"
proof -
  let ?d = "\<lambda>q :: int. if q = 1 then ''ab'' else ''cd''"
  have wf: "wf_log (log_trans memo_state)" and r: "getRole (log_trans memo_state) = Ok ''backup''"
    and all: "list_all (request_for ref_env 9 2 ?d) memo_requests"
    and fin: "list_ex is_fin memo_requests" "all_came ref_env 2 memo_requests"
    and tx: "\<not> own_file ''memo''" "file_text (files memo_state) ''memo'' = ''''"
    and dir: "files memo_state ''memo'' \<noteq> Some Dir" "files memo_state fileName \<noteq> Some Dir"
    and t: "om_find (log_trans memo_state) 9 = Some [(- 1, (''ACTIVE'', ''0'')), (0, (''NEW_TXN'', ''memo''))]"
    by code_simp+
  have cw: "can_write ref_env [''memo''] memo_state"
    using dir by (simp add: can_write_def ref_sink_opens)
  have "abs_log (log_trans memo_state) 9 = Some (fresh_txn ''memo'')"
    using t abs_fresh [of "''memo''"] demo_keys(5) by (simp add: abs_log_find)
  with requests_in_any_order [OF ref_text_ok wf r cw demo_keys(5) this, of 2 memo_requests ?d] all fin tx
  obtain s' where "request_all ref_env memo_requests memo_state = Ok s'"
    "file_text (files s') ''memo'' = concat (map (\<lambda>q. ?d q @ [nl]) [1..2])"
    by (auto simp: list_all_iff)
  moreover have "[1..2 :: int] = [1, 2]" by code_simp
  ultimately show ?thesis by auto
qed

section \<open>A full disk\<close>

text \<open>The result of the writes is not looked at: on a disk that opens the file and stores nothing of
  the data, which \<open>files_ok\<close> excludes, a backup commits and says so, and the file is as it was.\<close>

definition full_env :: env where
  "full_env = ref_env\<lparr>fd_sink := \<lambda>app p s d. ref_sink app p (if p = fileName then s else []) d\<rparr>"

lemma short_write_commits:
  "case commit full_env ''COMMIT 7 2 0'' (demo ''backup'' ''ACTIVE'' ''0'') of
     Ok (r, code, s') \<Rightarrow> code = ''committed'' \<and> om_find (log_trans s') 7 = Some (demo_txn ''COMMITTED'' ''2'')
       \<and> file_text (files s') ''notes'' = file_text (files (demo ''backup'' ''ACTIVE'' ''0'')) ''notes''
   | Stop e \<Rightarrow> False"
  by code_simp

end
