(* ===== verification/Replica.thy ===== *)
theory Replica
  imports Replication_Facts Log_Content
begin

text \<open>
  What the primary's replication manager relies on in the server behind its connection, as an
  interface: a world of the network is \<open>sound\<close> when the server there is in order, \<open>ready\<close>
  when its connection is too, \<open>holds\<close> a commit when that server has it, and is \<open>stale\<close> when a
  reply was left unread, so that a later read may take it for its own. The lemmas about
  \<open>commit\<close> and \<open>integrityCheck\<close> are proved from it alone.
\<close>

section \<open>The messages of the manager\<close>

definition commit_header :: "env \<Rightarrow> int \<Rightarrow> int \<Rightarrow> string" where
  "commit_header E t q = ''COMMIT '' @ iToS E t @ '' '' @ iToS E q @ '' 0''"

definition make_header :: "env \<Rightarrow> int \<Rightarrow> string" where
  "make_header E t = ''MAKE_TXN '' @ iToS E t @ '' -1 0''"

lemma commit_header_fields:
  assumes "text_ok E" "in_int32 t" "in_int32 q"
  shows "tokens E (commit_header E t q) = [''COMMIT'', lex_str E t, lex_str E q, ''0'']"
    "getTsn E (commit_header E t q) = t" "getSeq E (commit_header E t q) = q"
proof -
  have p: "plain ''COMMIT''" "plain ''0''" by (simp_all add: plain_def)
  have "commit_header E t q = ''COMMIT'' @ CHR '' '' # (lex_str E t @ CHR '' '' # (lex_str E q @ CHR '' '' # ''0''))"
    by (simp add: commit_header_def iToS_def)
  then show t: "tokens E (commit_header E t q) = [''COMMIT'', lex_str E t, lex_str E q, ''0'']"
    by (simp only: tokens_blank [OF assms(1) p(1)] tokens_last [OF assms(1) p(2)]
        tokens_blank [OF assms(1) lex_str_plain [OF assms(1,2)]] tokens_blank [OF assms(1) lex_str_plain [OF assms(1,3)]])
  show "getTsn E (commit_header E t q) = t" "getSeq E (commit_header E t q) = q"
    using assms by (simp_all add: getTsn_def getSeq_def t)
qed

text \<open>A log all of whose transactions can be sent: numbers in range and packets that \<open>fit\<close>.\<close>

definition sendable :: "(string \<times> string \<Rightarrow> bool) \<Rightarrow> env \<Rightarrow> log \<Rightarrow> bool" where
  "sendable fit E l \<longleftrightarrow> list_all (\<lambda>k. server_key k \<or> in_int32 k \<and>
     (case om_find l k of
        None \<Rightarrow> True
      | Some t \<Rightarrow>
          (case om_find t 0 of Some p \<Rightarrow> fit (make_header E k, snd p) | None \<Rightarrow> True) \<and>
          list_all (\<lambda>q. q < 1 \<or> (case om_find t q of Some p \<Rightarrow> fit p | None \<Rightarrow> True)) (om_keys t))) (om_keys l)"

lemma sendable_txn:
  assumes "sendable fit E l" "\<not> server_key k" "om_find l k = Some t"
  shows "in_int32 k" "om_find t 0 = Some p \<Longrightarrow> fit (make_header E k, snd p)"
    "1 \<le> q \<Longrightarrow> om_find t q = Some p \<Longrightarrow> fit p"
proof -
  have "k \<in> set (om_keys l)" using assms(3) by (simp add: om.keys_iff)
  with assms(1) have "server_key k \<or> in_int32 k \<and>
     (case om_find l k of
        None \<Rightarrow> True
      | Some t \<Rightarrow>
          (case om_find t 0 of Some p \<Rightarrow> fit (make_header E k, snd p) | None \<Rightarrow> True) \<and>
          list_all (\<lambda>q. q < 1 \<or> (case om_find t q of Some p \<Rightarrow> fit p | None \<Rightarrow> True)) (om_keys t))"
    unfolding sendable_def list_all_iff by blast
  with assms(2,3) have a: "in_int32 k" "case om_find t 0 of Some p \<Rightarrow> fit (make_header E k, snd p) | None \<Rightarrow> True"
    "\<forall>q \<in> set (om_keys t). q < 1 \<or> (case om_find t q of Some p \<Rightarrow> fit p | None \<Rightarrow> True)"
    by (simp_all add: list_all_iff)
  then show "in_int32 k" "om_find t 0 = Some p \<Longrightarrow> fit (make_header E k, snd p)" by auto
  assume q: "1 \<le> q" "om_find t q = Some p"
  then have "q \<in> set (om_keys t)" by (simp add: om.keys_iff)
  with a(3) q show "fit p" by fastforce
qed

lemma sendable_stays:
  assumes "stays s s'" "om_ok (log_trans s)" "sendable fit E (log_trans s)"
  shows "sendable fit E (log_trans s')"
proof -
  have f: "om_find (log_trans s') k = om_find (log_trans s) k" if "\<not> server_key k" for k
    using that by (intro stays_find [OF assms(1,2)]) (simp add: server_key_def)
  have "server_key k \<or> in_int32 k \<and>
     (case om_find (log_trans s') k of
        None \<Rightarrow> True
      | Some t \<Rightarrow>
          (case om_find t 0 of Some p \<Rightarrow> fit (make_header E k, snd p) | None \<Rightarrow> True) \<and>
          list_all (\<lambda>q. q < 1 \<or> (case om_find t q of Some p \<Rightarrow> fit p | None \<Rightarrow> True)) (om_keys t))"
    if "k \<in> set (om_keys (log_trans s'))" for k
  proof (cases "server_key k")
    case False
    with f that have "k \<in> set (om_keys (log_trans s))" by (simp add: om.keys_iff)
    with False assms(3) f [OF False] show ?thesis unfolding sendable_def list_all_iff by auto
  qed simp
  then show ?thesis unfolding sendable_def list_all_iff by blast
qed

text \<open>The commits of the log, as the integrity check asks for them.\<close>

lemma getCommits_loop_mem:
  "getCommits_loop E l ks hs = Ok hs' \<Longrightarrow> h \<in> set hs' \<Longrightarrow> h \<in> set hs \<or>
     (\<exists>k n. k \<in> set ks \<and> 0 \<le> k \<and> getStatus l k = Ok ''COMMITTED'' \<and> getStatusData l k = Ok n
        \<and> h = commit_header E k n)"
proof (induction E l ks hs rule: getCommits_loop.induct)
  case (2 E l k ks hs)
  show ?case
  proof (cases "is_txn l k \<and> getStatus l k = Ok ''COMMITTED''")
    case True
    then obtain n where n: "getStatusData l k = Ok n"
      "getCommits_loop E l ks (hs @ [commit_header E k n]) = Ok hs'"
      using "2.prems"(1) by (auto simp: commit_header_def elim!: bndE)
    with "2.IH"(1) True "2.prems"(2) show ?thesis by (auto simp: commit_header_def)
  next
    case False
    then have "getCommits_loop E l ks hs = Ok hs'"
      using "2.prems"(1) by (auto split: if_splits elim!: bndE simp del: bnd_eq_Ok Ok_eq_bnd)
    moreover have ?thesis if "is_txn l k" "getStatus l k = Ok st" "st \<noteq> ''COMMITTED''" for st
      using "2.IH"(2) [OF that(1,2,3)] calculation "2.prems"(2) by auto
    moreover have ?thesis if "\<not> is_txn l k"
      using "2.IH"(3) [OF that] calculation "2.prems"(2) by auto
    ultimately show ?thesis
      using False "2.prems"(1) by (cases "is_txn l k"; cases "getStatus l k") auto
  qed
qed simp

section \<open>The interface\<close>

locale replica =
  fixes E :: env
    and N :: "'w net"
    and sound :: "'w \<Rightarrow> bool"
    and ready :: "'w \<Rightarrow> bool"
    and fit :: "string \<times> string \<Rightarrow> bool"
    and holds :: "'w \<Rightarrow> int \<Rightarrow> int \<Rightarrow> bool"
    and stale :: "'w \<Rightarrow> bool"
  assumes env: "sound w \<Longrightarrow> text_ok E"
    and ready_sound: "ready w \<Longrightarrow> sound w"
    and connected: "sound w \<Longrightarrow> connectSocket E N c w = (b, c', w') \<Longrightarrow>
      sound w' \<and> (b \<longrightarrow> ready w') \<and> (\<forall>t q. holds w t q \<longrightarrow> holds w' t q)"
    and exchanged: "ready w \<Longrightarrow> fit (h, d) \<Longrightarrow> genEcho E h d = Ok pkt \<Longrightarrow>
      sendReceive E N pkt w = Ok (r, w') \<Longrightarrow>
      sound w' \<and> (r \<noteq> None \<longrightarrow> ready w') \<and> (\<forall>t q. holds w t q \<longrightarrow> holds w' t q)"
    and acknowledged: "ready w \<Longrightarrow> \<not> server_key t \<Longrightarrow> in_int32 t \<Longrightarrow> in_int32 q \<Longrightarrow>
      genEcho E (commit_header E t q) '' '' = Ok pkt \<Longrightarrow>
      sendReceive E N pkt w = Ok (Some result, w') \<Longrightarrow> vec_at (split_any E '' '' result) 0 = Ok ''ACK'' \<Longrightarrow> holds w' t q \<or> stale w'"
    and fit_commit: "sound w \<Longrightarrow> \<not> server_key t \<Longrightarrow> in_int32 t \<Longrightarrow> in_int32 q \<Longrightarrow> fit (commit_header E t q, '' '')"
begin

text \<open>A primary in order: what it has queued and stored can be sent, and its connection works.\<close>

definition in_order :: "'w node \<Rightarrow> bool" where
  "in_order n \<longleftrightarrow> om_ok (node_log n) \<and> is_primary (node_log n) \<and> sendable fit E (node_log n) \<and>
     list_all fit (syncQueue (rm n)) \<and> sound (wld n) \<and> (alive (rm n) \<longrightarrow> ready (wld n))"

definition advances :: "'w node \<Rightarrow> 'w node \<Rightarrow> bool" where
  "advances n n' \<longleftrightarrow> in_order n' \<and> (\<forall>t q. holds (wld n) t q \<longrightarrow> holds (wld n') t q)"

definition commit_of :: "string \<Rightarrow> int \<Rightarrow> int \<Rightarrow> bool" where
  "commit_of h t q \<longleftrightarrow> h = commit_header E t q \<and> \<not> server_key t \<and> in_int32 t \<and> in_int32 q"

lemma advances_trans: "advances a b \<Longrightarrow> advances b c \<Longrightarrow> advances a c"
  by (simp add: advances_def)

lemma advances_refl: "in_order n \<Longrightarrow> advances n n"
  by (simp add: advances_def)

lemma in_orderD:
  "in_order n \<Longrightarrow> om_ok (node_log n)" "in_order n \<Longrightarrow> is_primary (node_log n)"
  "in_order n \<Longrightarrow> alive (rm n) \<Longrightarrow> ready (wld n)" "in_order n \<Longrightarrow> sound (wld n)"
  "in_order n \<Longrightarrow> list_all fit (syncQueue (rm n))" "in_order n \<Longrightarrow> sendable fit E (node_log n)"
  by (simp_all add: in_order_def)

text \<open>Only the connection state, the queue and the world matter.\<close>

lemma advances_local:
  assumes "in_order n" "lh n' = lh n" "wld n' = wld n" "list_all fit (syncQueue (rm n'))"
    and "alive (rm n') \<longrightarrow> alive (rm n)"
  shows "advances n n'"
  using assms by (simp add: advances_def in_order_def)

lemma enqueue_advances:
  assumes "in_order n" "fit (h, d)" "enqueue h d n = Ok n'" shows "advances n n'"
  using assms by (intro advances_local) (auto simp: in_order_def enqueue_primary upd_rm_def)

section \<open>One exchange and the queue\<close>

lemma drain_ready:
  assumes "ready w" "list_all fit q" "drain E N q w = Ok (threw, q', w')"
  shows "sound w' \<and> list_all fit q' \<and> (\<not> threw \<longrightarrow> ready w') \<and> (\<forall>t k. holds w t k \<longrightarrow> holds w' t k)"
  using assms
proof (induction q arbitrary: w)
  case Nil
  then show ?case by (simp add: ready_sound)
next
  case (Cons p q)
  obtain h d where p: "p = (h, d)" by (metis surj_pair)
  from Cons.prems(3) p obtain pkt r w1 where g: "genEcho E h d = Ok pkt"
    and r: "sendReceive E N pkt w = Ok (r, w1)"
    and rest: "(case r of None \<Rightarrow> Ok (True, (h, d) # q, w1) | Some x \<Rightarrow> drain E N q w1) = Ok (threw, q', w')"
    by (auto elim!: bndE)
  have "fit (h, d)" using Cons.prems(2) p by simp
  note ex = exchanged [OF Cons.prems(1) this g r]
  show ?case
  proof (cases r)
    case None
    with rest ex Cons.prems(2) p show ?thesis by auto
  next
    case (Some x)
    with rest ex Cons.IH [of w1] Cons.prems(2) show ?thesis by auto
  qed
qed

lemma push_queue_advances:
  assumes "in_order n" "alive (rm n)" "push_queue E N n = Ok n'" shows "advances n n'"
proof -
  from assms(3) obtain threw q w where d: "drain E N (syncQueue (rm n)) (wld n) = Ok (threw, q, w)"
    and n': "n' = (upd_rm (\<lambda>r. r\<lparr>syncQueue := q, alive := alive r \<and> \<not> threw\<rparr>) n)\<lparr>wld := w\<rparr>"
    by (auto simp: push_queue_def)
  from drain_ready [OF in_orderD(3) [OF assms(1,2)] in_orderD(5) [OF assms(1)] d] assms(1)
  show ?thesis by (auto simp: n' advances_def in_order_def upd_rm_def)
qed

lemma enqueue_writes_advances:
  assumes "in_order n" "\<not> server_key t" "\<forall>q \<in> set qs. 1 \<le> q" "enqueue_writes t qs n = Ok n'"
  shows "advances n n'"
  using assms
proof (induction qs arbitrary: n)
  case Nil
  then show ?case by (simp add: advances_refl)
next
  case (Cons q qs)
  from Cons.prems(4) obtain h d n1 where hd: "getHeader (node_log n) t q = Ok h" "getData (node_log n) t q = Ok d"
    and n1: "enqueue h d n = Ok n1" and rest: "enqueue_writes t qs n1 = Ok n'"
    by (auto elim!: bndE)
  then have "fit (h, d)"
    using sendable_txn(3) [OF in_orderD(6) [OF Cons.prems(1)] Cons.prems(2)] Cons.prems(3)
    by (auto simp: getters_Ok)
  from enqueue_advances [OF Cons.prems(1) this n1] have a: "advances n n1" .
  then have "in_order n1" by (simp add: advances_def)
  from Cons.IH [OF this Cons.prems(2) _ rest] Cons.prems(3) advances_trans [OF a] show ?case by simp
qed

section \<open>The commit\<close>

lemma commit_lost_advances:
  assumes "in_order n" "fit (h, '' '')" "commit_lost h n = Ok m"
  shows "\<exists>n'. m = Return True n' \<and> advances n n' \<and> \<not> alive (rm n')"
  using assms
  by (auto simp: commit_lost_def in_order_def enqueue_primary intro!: advances_local)

lemma commit_of_fields:
  "sound w \<Longrightarrow> commit_of h t q \<Longrightarrow> getTsn E h = t"
  using env commit_header_fields(2) by (auto simp: commit_of_def)

lemma commit_reply_advances:
  assumes n: "in_order n" and h: "commit_of h t q"
    and run: "commit_reply E N h False result n = Ok m"
  shows "advances n (move_node m)"
proof -
  have k: "\<not> server_key t" and tsn: "getTsn E h = t"
    using h commit_of_fields [OF in_orderD(4) [OF n] h] by (simp_all add: commit_of_def)
  have quiet: "advances n (upd_rm (\<lambda>r. r\<lparr>show_warning := False\<rparr>) n1)" if "advances n n1" for n1
    using that by (auto simp: advances_def in_order_def upd_rm_def)
  have make: "fit (make_header E t, f)" if f: "getFileName (node_log n) t = Ok f" for f
  proof -
    obtain u z where "om_find (node_log n) t = Some u" "om_find u 0 = Some (z, f)"
      using f by (auto simp: getters_Ok)
    from sendable_txn(2) [OF in_orderD(6) [OF n] k this] show ?thesis by simp
  qed
  consider "m = Return True n" | "m = Return False n"
    | qs n1 where "\<forall>i \<in> set qs. 1 \<le> i" "enqueue_writes t qs n = Ok n1"
        "m = Resend (upd_rm (\<lambda>r. r\<lparr>show_warning := False\<rparr>) n1)"
    | f n1 where "getFileName (node_log n) t = Ok f" "enqueue (make_header E t) f n = Ok n1"
        "m = Resend (upd_rm (\<lambda>r. r\<lparr>show_warning := False\<rparr>) n1)"
  proof -
    have set: "\<forall>i \<in> set [1..a]. 1 \<le> i" for a :: int by simp
    show thesis
      using run that(1,2) that(3) [OF set] that(4)
      by (auto simp: commit_reply_def Let_def tsn seq_range_def make_header_def split: if_splits)
  qed
  then show ?thesis
  proof cases
    case 3
    with quiet enqueue_writes_advances [OF n k] show ?thesis by auto
  next
    case 4
    with quiet enqueue_advances [OF n make] show ?thesis by auto
  qed (use n in \<open>simp_all add: advances_refl\<close>)
qed

lemma commit_body_advances:
  assumes n: "in_order n" and h: "commit_of h t q"
    and run: "commit_body E N h False n = Ok m"
  shows "advances n (move_node m) \<and> (\<forall>n'. m = Return True n' \<longrightarrow> alive (rm n') \<longrightarrow> holds (wld n') t q \<or> stale (wld n'))"
proof (cases "alive (rm n) \<and> syncQueue (rm n) = []")
  case True
  then have w: "ready (wld n)" using n by (simp add: in_order_def)
  have f: "fit (h, '' '')" using h fit_commit [OF in_orderD(4) [OF n]] by (simp add: commit_of_def)
  from True run obtain pkt r w1 where g: "genEcho E h '' '' = Ok pkt"
    and r: "sendReceive E N pkt (wld n) = Ok (r, w1)"
    and rest: "(case r of None \<Rightarrow> commit_lost h (n\<lparr>wld := w1\<rparr>)
       | Some result \<Rightarrow> commit_reply E N h False result (n\<lparr>wld := w1\<rparr>)) = Ok m"
    by (auto simp: commit_body_def Let_def elim!: bndE)
  note ex = exchanged [OF w f g r]
  show ?thesis
  proof (cases r)
    case None
    have "commit_lost h (n\<lparr>wld := w1\<rparr>) = Ok m" using rest None by simp
    then obtain n' where "m = Return True n'" "n' = upd_rm (\<lambda>r. r\<lparr>alive := False\<rparr>)
        (upd_rm (\<lambda>r. r\<lparr>syncQueue := syncQueue r @ [(h, '' '')]\<rparr>) (n\<lparr>wld := w1\<rparr>))"
      using n by (auto simp: commit_lost_def in_order_def enqueue_primary)
    with ex n f show ?thesis by (auto simp: advances_def in_order_def upd_rm_def)
  next
    case (Some result)
    then have o: "in_order (n\<lparr>wld := w1\<rparr>)" and w1: "ready w1"
      using ex n by (simp_all add: in_order_def)
    have rest': "commit_reply E N h False result (n\<lparr>wld := w1\<rparr>) = Ok m" using rest Some by simp
    from commit_reply_advances [OF o h this] have "advances (n\<lparr>wld := w1\<rparr>) (move_node m)" by simp
    then have "advances n (move_node m)" using ex by (simp add: advances_def)
    moreover have "holds (wld n') t q \<or> stale (wld n')" if m: "m = Return True n'" for n'
    proof -
      from commit_reply_Return [OF rest' [unfolded m]] have "n' = n\<lparr>wld := w1\<rparr>"
        "vec_at (split_any E '' '' result) 0 = Ok ''ACK''" by simp_all
      with acknowledged [OF w] h g r Some show ?thesis by (simp add: commit_of_def)
    qed
    ultimately show ?thesis by blast
  qed
next
  case False
  have f: "fit (h, '' '')" using h fit_commit [OF in_orderD(4) [OF n]] by (simp add: commit_of_def)
  show ?thesis
  proof (cases "alive (rm n)")
    case True
    with False run have "m = Loop n" by (auto simp: commit_body_def)
    with n show ?thesis by (simp add: advances_refl)
  next
    case dead: False
    with run obtain n1 where n1: "enqueue h '' '' n = Ok n1" "m = Return True n1"
      by (auto simp: commit_body_def)
    with n dead have "\<not> alive (rm n1)" by (auto simp: in_order_def enqueue_primary)
    with n1 enqueue_advances [OF n f n1(1)] show ?thesis by simp
  qed
qed

section \<open>The whole of the manager\<close>

lemma connect_advances:
  assumes n: "in_order n" and c: "connect_node E N n = (b, n')"
  shows "advances n (upd_rm (\<lambda>r. r\<lparr>alive := b\<rparr>) n')"
proof -
  obtain c' w where cs: "connectSocket E N (cl (rm n)) (wld n) = (b, c', w)"
    and n': "n' = (upd_rm (\<lambda>r. r\<lparr>cl := c'\<rparr>) n)\<lparr>wld := w\<rparr>"
    using c by (auto simp: connect_node_def split: prod.splits)
  from connected [OF in_orderD(4) [OF n] cs] n show ?thesis
    by (auto simp: n' advances_def in_order_def upd_rm_def)
qed

lemma connect_backup_advances:
  assumes n: "in_order n" and run: "connect_backup E N n = Ok (b, n')"
  shows "advances n n'"
proof -
  obtain n1 where c: "(if triedConnect (rm n)
          then bnd (getIpBackup (node_log n)) (\<lambda>ip. bnd (getPortBackup (node_log n)) (\<lambda>port.
                 Ok (redirect ip port n)))
          else Ok n) = Ok n1" and run: "(let (good, n2) = connect_node E N n1;
      n3 = upd_rm (\<lambda>r. r\<lparr>alive := good\<rparr>) n2
       in if good then Ok (True, n3)
          else bnd (deleteBackup (node_log n3)) (\<lambda>l.
            Ok (False, upd_rm (\<lambda>r. r\<lparr>triedConnect := True\<rparr>) (set_log l n3)))) = Ok (b, n')"
    using run unfolding connect_backup_def by (rule bndE)
  have n1: "advances n n1"
    using c n by (auto simp: redirect_def upd_rm_def advances_def in_order_def split: if_splits)
  obtain good n2 where n2: "connect_node E N n1 = (good, n2)" by fastforce
  let ?n3 = "upd_rm (\<lambda>r. r\<lparr>alive := good\<rparr>) n2"
  have a: "advances n ?n3"
    using connect_advances [OF _ n2] n1 by (meson advances_def advances_trans)
  show ?thesis
  proof (cases good)
    case True
    with run n2 a show ?thesis by auto
  next
    case False
    with run n2 obtain l where l: "deleteBackup (node_log ?n3) = Ok l"
      and n': "n' = upd_rm (\<lambda>r. r\<lparr>triedConnect := True\<rparr>) (set_log l ?n3)"
      by auto
    let ?s = "(lh ?n3)\<lparr>log_trans := l\<rparr>"
    have o: "in_order ?n3" using a by (simp add: advances_def)
    have st: "stays (lh ?n3) ?s" by (rule stays_erase [OF l refl])
    have "om_ok l" "is_primary l" "sendable fit E l"
      using primary_stays [OF st in_orderD(1) [OF o]] sendable_stays [OF st in_orderD(1) [OF o]] in_orderD [OF o]
      by simp_all
    then have "in_order n'" using o False by (auto simp: n' in_order_def)
    with a show ?thesis by (simp add: advances_def n')
  qed
qed

lemma check_start_advances:
  assumes "in_order n" "check_start E N n = Ok n'" shows "advances n n'"
  using assms by (auto simp: check_start_def Let_def in_order_def intro!: advances_local)

lemma check_ends_advances:
  assumes "in_order n"
  shows "check_failed N n = Ok (b, n') \<Longrightarrow> advances n n'" "check_passed N n = Ok (b, n') \<Longrightarrow> advances n n'"
  using assms by (auto simp: check_failed_def check_passed_def Let_def in_order_def intro!: advances_local)

lemma getCommits_commit_of:
  assumes n: "in_order n" and c: "getCommits E (node_log n) = Ok hs" and h: "h \<in> set hs"
  shows "\<exists>t q. commit_of h t q"
proof -
  obtain k q where k: "k \<in> set (om_keys (node_log n))" "0 \<le> k" "getStatus (node_log n) k = Ok ''COMMITTED''"
    and q: "getStatusData (node_log n) k = Ok q" and h: "h = commit_header E k q"
    using getCommits_loop_mem [OF c [unfolded getCommits_def] h] by auto
  have "k \<noteq> 0" using k(3) in_orderD(2) [OF n] by (auto simp: getters_Ok role_Ok)
  with k(2) have sk: "\<not> server_key k" by (simp add: server_key_def)
  obtain t where "om_find (node_log n) k = Some t" using k(1) by (auto simp: om.keys_iff)
  from sendable_txn(1) [OF in_orderD(6) [OF n] sk this] sk getStatusData_in32 [OF q] h show ?thesis
    by (auto simp: commit_of_def)
qed

text \<open>
  Nothing the manager does takes a commit from the server behind the connection, and a
  commit that returns true over a standing connection is held there, unless a reply was left
  unread.
\<close>

lemma manager_advances:
  "(\<forall>h t q n b n'. in_order n \<longrightarrow> commit_of h t q \<longrightarrow> rm_commit k E N h n = Ok (b, n') \<longrightarrow>
      advances n n' \<and> (b \<longrightarrow> alive (rm n') \<longrightarrow> holds (wld n') t q \<or> stale (wld n'))) \<and>
   (\<forall>n n'. in_order n \<longrightarrow> primaryOps k E N n = Ok n' \<longrightarrow> advances n n') \<and>
   (\<forall>n b n'. in_order n \<longrightarrow> integrityCheck k E N n = Ok (b, n') \<longrightarrow> advances n n') \<and>
   (\<forall>hs n b n'. in_order n \<longrightarrow> (\<forall>h \<in> set hs. \<exists>t q. commit_of h t q) \<longrightarrow>
      check_commits k E N hs n = Ok (b, n') \<longrightarrow> advances n n')"
proof (induction k)
  case (Suc k)
  note IHc = Suc.IH [THEN conjunct1, rule_format]
  note IHp = Suc.IH [THEN conjunct2, THEN conjunct1, rule_format]
  note IHi = Suc.IH [THEN conjunct2, THEN conjunct2, THEN conjunct1, rule_format]
  note IHh = Suc.IH [THEN conjunct2, THEN conjunct2, THEN conjunct2, rule_format]
  have commit: "advances n n' \<and> (b \<longrightarrow> alive (rm n') \<longrightarrow> holds (wld n') t q \<or> stale (wld n'))"
    if n: "in_order n" and h: "commit_of h t q" and run: "rm_commit (Suc k) E N h n = Ok (b, n')"
    for h t q n b n'
  proof -
    from run in_orderD(2) [OF n] obtain n1 m where n1: "primaryOps k E N n = Ok n1"
      and m: "commit_body E N h False n1 = Ok m" and rest: "after_body (rm_commit k E N h) m = Ok (b, n')"
      by (auto simp: rm_commit_Suc simp del: rm_commit.simps elim!: bndE)
    have a1: "advances n n1" by (rule IHp [OF n n1])
    then have o1: "in_order n1" by (simp add: advances_def)
    note body = commit_body_advances [OF o1 h m]
    have a2: "advances n (move_node m)" using advances_trans [OF a1] body by blast
    then have o2: "in_order (move_node m)" by (simp add: advances_def)
    show ?thesis
    proof (cases m)
      case (Return b2 n2)
      with rest body a2 show ?thesis by (auto simp: after_body_def)
    next
      case (Loop n2)
      with rest have "rm_commit k E N h n2 = Ok (b, n')" by (simp add: after_body_def)
      note IHc [OF _ h this]
      with o2 a2 Loop have "advances n2 n' \<and> (b \<longrightarrow> alive (rm n') \<longrightarrow> holds (wld n') t q \<or> stale (wld n'))" "advances n n2" by simp_all
      with advances_trans [of n n2 n'] show ?thesis by simp
    next
      case (Resend n2)
      with rest obtain n3 where n3: "rm_commit k E N h n2 = Ok (b, n3)"
        "n' = upd_rm (\<lambda>r. r\<lparr>show_warning := True\<rparr>) n3"
        by (auto simp: after_body_def)
      from IHc [OF _ h n3(1)] o2 Resend have n3': "advances n2 n3" "b \<longrightarrow> alive (rm n3) \<longrightarrow> holds (wld n3) t q \<or> stale (wld n3)"
        by auto
      have "advances n3 n'"
        using n3'(1) n3(2) by (intro advances_local) (auto simp: advances_def in_order_def)
      from a2 Resend have "advances n n2" by simp
      from advances_trans [OF advances_trans [OF this n3'(1)] \<open>advances n3 n'\<close>] n3'(2) n3(2)
      show ?thesis by simp
    qed
  qed
  have primary: "advances n n'" if n: "in_order n" and run: "primaryOps (Suc k) E N n = Ok n'" for n n'
  proof -
    consider "alive (rm n)" "push_queue E N n = Ok n'" | good n1 where "connect_backup E N n = Ok (good, n1)"
        "(\<exists>b. integrityCheck k E N n1 = Ok (b, n')) \<or> n' = n1" | "n' = n"
      using run by (auto split: if_splits)
    then show ?thesis
    proof cases
      case 1
      then show ?thesis by (intro push_queue_advances [OF n])
    next
      case 2
      from connect_backup_advances [OF n 2(1)] have a: "advances n n1" .
      with 2(2) IHi advances_trans show ?thesis unfolding advances_def by blast
    qed (use n advances_refl in simp)
  qed
  have check: "advances n n'" if n: "in_order n" and run: "integrityCheck (Suc k) E N n = Ok (b, n')" for n b n'
  proof -
    from run obtain n1 hs where s: "check_start E N n = Ok n1" "getCommits E (node_log n1) = Ok hs"
      "check_commits k E N hs n1 = Ok (b, n')"
      by (auto elim!: bndE)
    have a: "advances n n1" by (rule check_start_advances [OF n s(1)])
    then have o: "in_order n1" by (simp add: advances_def)
    have "\<forall>h \<in> set hs. \<exists>t q. commit_of h t q" using getCommits_commit_of [OF o s(2)] by blast
    from advances_trans [OF a IHh [OF o _ s(3)]] this show ?thesis by blast
  qed
  have commits: "advances n n'"
    if n: "in_order n" and hs: "\<forall>h \<in> set hs. \<exists>t q. commit_of h t q"
      and run: "check_commits (Suc k) E N hs n = Ok (b, n')" for hs n b n'
  proof (cases "hs = []")
    case True
    with run show ?thesis by (auto intro: check_ends_advances(2) [OF n])
  next
    case False
    with run obtain c n1 where c: "rm_commit k E N (last hs) n = Ok (c, n1)"
      and rest: "(if c then check_commits k E N (butlast hs) n1 else check_failed N n1) = Ok (b, n')"
      by (auto elim!: bndE)
    obtain t q where "commit_of (last hs) t q" using hs False by (meson last_in_set)
    from IHc [OF n this c] have a: "advances n n1" by simp
    then have o: "in_order n1" by (simp add: advances_def)
    have hs': "\<exists>t q. commit_of h t q" if "h \<in> set (butlast hs)" for h
      using hs in_set_butlastD [OF that] by blast
    have "advances n1 n'"
    proof (cases c)
      case True
      with rest have "check_commits k E N (butlast hs) n1 = Ok (b, n')" by simp
      from IHh [OF o hs' this] show ?thesis .
    next
      case False
      with rest check_ends_advances(1) [OF o] show ?thesis by simp
    qed
    then show ?thesis by (rule advances_trans [OF a])
  qed
  show ?case using commit primary check commits by blast
qed simp

lemma commit_held:
  assumes "in_order n" "commit_of h t q" "rm_commit k E N h n = Ok (b, n')"
  shows "advances n n'" "b \<Longrightarrow> alive (rm n') \<Longrightarrow> holds (wld n') t q \<or> stale (wld n')"
  using manager_advances [of k] assms by blast+

end

end
