(* ===== verification/Cluster.thy ===== *)
theory Cluster
  imports Backup_Progress Replica Server_Facts "HOL-Library.Sublist"
begin

text \<open>
  Two servers: the network of the primary whose other end is the session of a backup. The
  backup satisfies the interface \<open>replica\<close>, so that what the replication manager promises
  from the interface holds of the pair.
\<close>

section \<open>The backup behind the connection\<close>

text \<open>
  \<open>p_node\<close>: the backup; \<open>p_sess\<close>: its session for the primary, if there is a connection, whose
  \<open>sent\<close> are the answers still on their way or in the primary's socket; \<open>p_reads\<close>: the reads
  there were; \<open>p_late\<close>: whether one of them left an answer behind. The backup's own outgoing
  network \<open>M\<close> is not used by the handlers.
\<close>

record 'v peer =
  p_node :: "'v node"
  p_sess :: "session option"
  p_reads :: nat
  p_late :: bool

abbreviation peer_log :: "'v peer \<Rightarrow> log" where
  "peer_log p \<equiv> node_log (p_node p)"

text \<open>
  What the primary writes reaches the session's buffer, and the handler runs where a read is
  pending. A handler that throws or ends the backup closes the connection.
\<close>

definition deliver :: "nat \<Rightarrow> env \<Rightarrow> 'v net \<Rightarrow> string \<Rightarrow> 'v peer \<Rightarrow> 'v peer" where
  "deliver k E M s p =
     (case p_sess p of
        None \<Rightarrow> p
      | Some ss \<Rightarrow>
          let ss1 = ss\<lparr>buf_b := buf_b ss @ s, incoming := []\<rparr>
          in if listening ss then
               case handle_read k E M False (p_node p) ss1 of
                 Ok (n, so) \<Rightarrow> p\<lparr>p_node := n, p_sess := so\<rparr>
               | Stop e \<Rightarrow> p\<lparr>p_sess := None\<rparr>
             else p\<lparr>p_sess := Some ss1\<rparr>)"

text \<open>
  What \<open>read_until\<close> takes of the answers that are there: as many as it needs to find its
  delimiter, and \<open>m\<close> more that came along with them. An answer is written in one piece and
  arrives in one piece.
\<close>

fun arrivals :: "string \<Rightarrow> string \<Rightarrow> nat \<Rightarrow> string list \<Rightarrow> string \<times> string list" where
  "arrivals d b m [] = (b, [])"
| "arrivals d b m (a # as) =
     (if \<not> sublist d b then arrivals d (b @ a) m as
      else case m of 0 \<Rightarrow> (b, a # as) | Suc i \<Rightarrow> arrivals d (b @ a) i as)"

lemma arrivals_split:
  "arrivals d b m as = (b', rest) \<Longrightarrow> \<exists>xs. as = xs @ rest \<and> b' = b @ concat xs"
proof (induction d b m as rule: arrivals.induct)
  case (2 d b m a as)
  show ?case
  proof (cases "sublist d b \<and> m = 0")
    case True
    with "2.prems" show ?thesis by (intro exI [of _ "[]"]) simp
  next
    case False
    with "2.IH" "2.prems" obtain xs where "as = xs @ rest" "b' = (b @ a) @ concat xs"
      by (cases m) (auto split: if_splits)
    then show ?thesis by (intro exI [of _ "a # xs"]) simp
  qed
qed simp

lemma arrivals_drained: "arrivals d b m as = (b', []) \<Longrightarrow> b' = b @ concat as"
  using arrivals_split by fastforce

lemma arrivals_all:
  "sublist d b \<Longrightarrow> length as \<le> m \<Longrightarrow> arrivals d b m as = (b @ concat as, [])"
proof (induction as arbitrary: b m)
  case (Cons a as)
  then obtain i where "m = Suc i" "length as \<le> i" by (cases m) auto
  moreover have "sublist d (b @ a)" using Cons.prems(1) by (simp add: sublist_append)
  ultimately show ?case using Cons by simp
qed simp

lemma arrivals_first:
  "\<not> sublist d b \<Longrightarrow> sublist d (b @ a) \<Longrightarrow> length as \<le> m \<Longrightarrow>
     arrivals d b m (a # as) = (b @ a @ concat as, [])"
  by (simp add: arrivals_all)

text \<open>
  The connection stands when the address is the backup's. \<open>C i\<close> is the number of answers that
  come along with those that the \<open>i\<close>-th read needs, so that \<open>C = (\<lambda>i. 0)\<close> is the network that
  delivers one answer at a time. A read that the answers do not satisfy fails.
\<close>

definition link_net :: "nat \<Rightarrow> env \<Rightarrow> 'v net \<Rightarrow> (nat \<Rightarrow> nat) \<Rightarrow> 'v peer net" where
  "link_net k E M C = \<lparr>
     net_connect = (\<lambda>ip port p.
       if getIpThis (peer_log p) = Ok ip \<and> getPortThis (peer_log p) = Ok port
       then (Some True, p\<lparr>p_sess := Some (start (Session_init ''127.0.0.1'' 40000))\<rparr>)
       else (Some False, p)),
     net_write = (\<lambda>s p. (p_sess p \<noteq> None, deliver k E M s p)),
     net_read_until = (\<lambda>d b p.
       if sublist d b then (Some b, p)
       else case p_sess p of
         None \<Rightarrow> (None, p)
       | Some ss \<Rightarrow>
           let (b', rest) = arrivals d b (C (p_reads p)) (sent ss)
           in (if sublist d b' then Some b' else None,
               p\<lparr>p_sess := Some (ss\<lparr>sent := rest\<rparr>), p_reads := Suc (p_reads p),
                 p_late := p_late p \<or> rest \<noteq> []\<rparr>)),
     net_close = (\<lambda>p. p\<lparr>p_sess := None\<rparr>)\<rparr>"

lemma link_net_sel [simp]:
  "net_connect (link_net k E M C) ip port p =
     (if getIpThis (peer_log p) = Ok ip \<and> getPortThis (peer_log p) = Ok port
      then (Some True, p\<lparr>p_sess := Some (start (Session_init ''127.0.0.1'' 40000))\<rparr>)
      else (Some False, p))"
  "net_write (link_net k E M C) s p = (p_sess p \<noteq> None, deliver k E M s p)"
  "net_close (link_net k E M C) p = p\<lparr>p_sess := None\<rparr>"
  by (simp_all add: link_net_def)

lemma link_read:
  "net_read_until (link_net k E M C) d b p =
     (if sublist d b then (Some b, p)
      else case p_sess p of
        None \<Rightarrow> (None, p)
      | Some ss \<Rightarrow>
          let (b', rest) = arrivals d b (C (p_reads p)) (sent ss)
          in (if sublist d b' then Some b' else None,
              p\<lparr>p_sess := Some (ss\<lparr>sent := rest\<rparr>), p_reads := Suc (p_reads p),
                p_late := p_late p \<or> rest \<noteq> []\<rparr>))"
  by (simp add: link_net_def)

text \<open>What a read does, whatever it finds.\<close>

lemma link_read_effect:
  assumes "net_read_until (link_net k E M C) d b p = (r, p')" "p_sess p = Some ss"
  shows "p_node p' = p_node p \<and> (p_late p \<longrightarrow> p_late p')
    \<and> (\<exists>rest. p_sess p' = Some (ss\<lparr>sent := rest\<rparr>) \<and> (rest = sent ss \<or> rest = [] \<or> p_late p'))"
  using assms by (fastforce simp: link_read Let_def intro: exI [of _ "sent ss"] split: if_splits prod.splits)

lemma deliver_sel [simp]:
  "p_reads (deliver k E M s p) = p_reads p" "p_late (deliver k E M s p) = p_late p"
  by (auto simp: deliver_def Let_def split: option.split res.split prod.split)

section \<open>In order\<close>

definition peer_sound :: "env \<Rightarrow> 'v peer \<Rightarrow> bool" where
  "peer_sound E p \<longleftrightarrow> libs_ok E \<and> wf_log (peer_log p) \<and> getRole (peer_log p) = Ok ''backup''"

definition peer_ready :: "env \<Rightarrow> 'v peer \<Rightarrow> bool" where
  "peer_ready E p \<longleftrightarrow> peer_sound E p \<and>
     (case p_sess p of
        Some ss \<Rightarrow> (listening ss \<longrightarrow> buf_b ss = []) \<and> (buf_b ss = [] \<and> sent ss = [] \<or> p_late p)
      | None \<Rightarrow> False)"

definition peer_holds :: "'v peer \<Rightarrow> int \<Rightarrow> int \<Rightarrow> bool" where
  "peer_holds p t q \<longleftrightarrow> has_commit t q (peer_log p)"

text \<open>
  A queued packet that arrives as one packet: four fields or more without control
  characters, data on one line, and not naming the server's own entries.
\<close>

definition fits :: "env \<Rightarrow> string \<times> string \<Rightarrow> bool" where
  "fits E p \<longleftrightarrow>
     (case tokens E (fst p) of
        a # b # c # ds \<Rightarrow> plain a \<and> plain b \<and> plain c \<and> 8 \<le> length (header_line a b c ''0'')
          \<and> proper E (meth a) (fst p) \<and> (length (snd p) < 2 \<or> carries_data (meth a))
      | _ \<Rightarrow> False) \<and>
     nl \<notin> set (snd p) \<and> int (length (snd p)) < 2147483647"

text \<open>The backup is never behind: no step takes a commit from it.\<close>

definition peer_keeps :: "env \<Rightarrow> 'v peer \<Rightarrow> 'v peer \<Rightarrow> bool" where
  "peer_keeps E p p' \<longleftrightarrow> peer_sound E p' \<and> (\<forall>t q. peer_holds p t q \<longrightarrow> peer_holds p' t q)"

lemma peer_keeps_refl: "peer_sound E p \<Longrightarrow> peer_keeps E p p"
  by (simp add: peer_keeps_def)

lemma peer_keeps_trans: "peer_keeps E a b \<Longrightarrow> peer_keeps E b c \<Longrightarrow> peer_keeps E a c"
  by (simp add: peer_keeps_def)

lemma peer_keeps_node: "peer_sound E p \<Longrightarrow> p_node p' = p_node p \<Longrightarrow> peer_keeps E p p'"
  by (simp add: peer_keeps_def peer_sound_def peer_holds_def)

section \<open>A packet arrives\<close>

lemma proper_fields:
  assumes "tokens E h = a # b # c # ds" "proper E (meth a) h" "tokens E h' = a # b # c # ds'"
  shows "proper E (meth a) h'"
  using assms by (simp add: proper_def getTsn_def)

lemma echo_acts:
  assumes E: "libs_ok E" and f: "fits E (h, x)" and g: "genEcho E h x = Ok pkt" and buf: "buf_b ss = pkt"
  shows "(\<exists>h' x'. (\<forall>i. parse E h' = Ok i \<longrightarrow> proper E i h')
      \<and> read_packet k E M n ss = act k E M h' x' n (ss\<lparr>buf_b := []\<rparr>))
    \<or> (\<exists>h' u. read_packet k E M n ss = reject E h' u n (ss\<lparr>buf_b := []\<rparr>))"
proof -
  have T: "text_ok E" using E by (simp add: libs_ok_def)
  obtain a b c ds where t: "tokens E h = a # b # c # ds" and p: "plain a" "plain b" "plain c"
    and len: "8 \<le> length (header_line a b c ''0'')" and pr: "proper E (meth a) h"
    and cd: "length x < 2 \<or> carries_data (meth a)" and x: "nl \<notin> set x" "length x < 2147483647"
    using f by (auto simp: fits_def split: list.splits)
  have proper: "\<forall>i. parse E (header_line a b c d) = Ok i \<longrightarrow> proper E i (header_line a b c d)"
    if "plain d" for d
    using header_fields(1) [OF T p that] proper_fields [OF t pr tokens_header [OF T p that]] by auto
  show ?thesis
  proof (cases "length x < 2")
    case True
    have "buf_b ss = pkt @ []" using buf by simp
    from echo_empty [OF T t p len True g this, of k M n] proper [OF zero_field(1)] show ?thesis
      by (cases "carries_data (meth a)") auto
  next
    case False
    let ?d = "lex_str E (int (length x) + 1)"
    have n: "in_int32 (int (length x) + 1)" using x(2) by (simp add: in_int32_def)
    note len' = header_line_len [OF T n len]
    have "2 \<le> length x" "carries_data (meth a)" using False cd by auto
    from echo_arrives [OF T t p this(2) x(1) this(1) x(2) len' g, of ss "[]" k M n] buf
      proper [OF lex_str_plain [OF T n]]
    show ?thesis by auto
  qed
qed

text \<open>A fitting packet leaves the backup in order, a listening session's buffer empty, and every commit there.\<close>

lemma deliver_fits:
  assumes p: "peer_ready E p" and f: "fits E (h, x)" and g: "genEcho E h x = Ok pkt"
  shows "peer_keeps E p (deliver k E M pkt p)
    \<and> (\<forall>ss. p_sess (deliver k E M pkt p) = Some ss \<longrightarrow>
        (listening ss \<longrightarrow> buf_b ss = []) \<and> (buf_b ss = [] \<or> sent ss = [] \<or> p_late p))"
proof -
  obtain ss where ss: "p_sess p = Some ss" "listening ss \<longrightarrow> buf_b ss = []" "buf_b ss = [] \<and> sent ss = [] \<or> p_late p"
    and sound: "peer_sound E p"
    using p by (auto simp: peer_ready_def split: option.splits)
  then have E: "libs_ok E" and wf: "wf_log (peer_log p)" and role: "getRole (peer_log p) = Ok ''backup''"
    by (simp_all add: peer_sound_def)
  then have E': "text_ok E" "random_ok E" "files_ok E" by (simp_all add: libs_ok_def)
  let ?ss = "ss\<lparr>buf_b := pkt, incoming := [], listening := False\<rparr>"
  let ?D = "deliver k E M pkt p"
  have stay: ?thesis if "p_node ?D = p_node p"
    "\<forall>s1. p_sess ?D = Some s1 \<longrightarrow> (listening s1 \<longrightarrow> buf_b s1 = []) \<and> (buf_b s1 = [] \<or> sent s1 = [] \<or> p_late p)"
    using that peer_keeps_node [OF sound] by blast
  show ?thesis
  proof (cases "listening ss")
    case False
    with ss show ?thesis by (intro stay) (auto simp: deliver_def Let_def)
  next
    case True
    have D: "?D = (case read_packet k E M (p_node p) ?ss of
        Ok (n, s1) \<Rightarrow> p\<lparr>p_node := n, p_sess := Some s1\<rparr> | Stop e \<Rightarrow> p\<lparr>p_sess := None\<rparr>)"
      using ss True by (simp add: deliver_def handle_read_def split: res.split prod.split)
    show ?thesis
    proof (cases "read_packet k E M (p_node p) ?ss")
      case (Stop e)
      then show ?thesis by (intro stay) (auto simp: D)
    next
      case (Ok r)
      obtain n' ss' where r: "r = (n', ss')" by (metis surj_pair)
      have D': "?D = p\<lparr>p_node := n', p_sess := Some ss'\<rparr>" using D Ok r by simp
      have buf: "buf_b ?ss = pkt" by simp
      from echo_acts [OF E f g buf, of k M "p_node p"] show ?thesis
      proof (elim disjE exE conjE)
        fix h' x' assume pr: "\<forall>i. parse E h' = Ok i \<longrightarrow> proper E i h'"
          and "read_packet k E M (p_node p) ?ss = act k E M h' x' (p_node p) (?ss\<lparr>buf_b := []\<rparr>)"
        with Ok r have a: "act k E M h' x' (p_node p) (?ss\<lparr>buf_b := []\<rparr>) = Ok (n', ss')" by simp
        have "kept (lh (p_node p)) (lh n')"
          using act_kept [OF E' wf _ a] pr by blast
        moreover have "getRole (node_log n') = Ok ''backup''"
          using act_role [OF E'(1,2) wf_log_ok [OF wf] _ role a] pr by blast
        ultimately have "peer_keeps E p ?D"
          using E kept_has_commit by (auto simp: D' peer_keeps_def peer_sound_def peer_holds_def kept_def)
        with act_only [OF a] D' show ?thesis by (simp add: answers_only_def)
      next
        fix h' u assume "read_packet k E M (p_node p) ?ss = reject E h' u (p_node p) (?ss\<lparr>buf_b := []\<rparr>)"
        with Ok r have "reject E h' u (p_node p) (?ss\<lparr>buf_b := []\<rparr>) = Ok (n', ss')" by simp
        from reject_only [OF this] D' show ?thesis
          by (intro stay) (auto simp: answers_only_def)
      qed
    qed
  qed
qed

section \<open>The reply\<close>

text \<open>
  What an exchange leaves of the connection, and, where no read left an answer behind, what
  the reply is: its header is the first line of all the answers there were.
\<close>

lemma link_exchange:
  assumes run: "sendReceive E (link_net k E M C) pkt p = Ok (r, p')" and up: "p_sess p \<noteq> None"
  shows "p_node p' = p_node (deliver k E M pkt p) \<and> (p_late p \<longrightarrow> p_late p') \<and>
    (\<forall>result. r = Some result \<longrightarrow> (\<exists>ss as. p_sess (deliver k E M pkt p) = Some ss \<and> p_sess p' = Some (ss\<lparr>sent := as\<rparr>)
       \<and> (\<not> p_late p' \<longrightarrow> as = [] \<and> sublist (crlf @ crlf) (concat (sent ss))
           \<and> (\<exists>g header st dat. getline (concat (sent ss), False) [] = (g, header, st)
                \<and> result = header @ [tab, tab, tab] @ dat))))"
proof -
  let ?D = "deliver k E M pkt p" and ?N = "link_net k E M C"
  obtain b p1 where rd: "net_read_until ?N (crlf @ crlf) [] ?D = (b, p1)" by fastforce
  have nb: "\<not> sublist (crlf @ crlf) []" by (simp add: crlf_def)
  show ?thesis
  proof (cases "p_sess ?D")
    case None
    with rd nb have "b = None" "p1 = ?D" by (auto simp: link_read)
    with run up rd show ?thesis by (auto simp: sendReceive_def)
  next
    case (Some ss)
    obtain buf rest where ar: "arrivals (crlf @ crlf) [] (C (p_reads ?D)) (sent ss) = (buf, rest)" by fastforce
    let ?p1 = "?D\<lparr>p_sess := Some (ss\<lparr>sent := rest\<rparr>), p_reads := Suc (p_reads p), p_late := p_late p \<or> rest \<noteq> []\<rparr>"
    have p1: "p1 = ?p1" "b = (if sublist (crlf @ crlf) buf then Some buf else None)"
      using rd nb Some ar by (auto simp: link_read)
    show ?thesis
    proof (cases b)
      case None
      with run up rd p1 show ?thesis by (auto simp: sendReceive_def)
    next
      case b: (Some buf1)
      obtain g header st where g: "getline (buf, False) [] = (g, header, st)" by (metis prod_cases3)
      obtain g2 blank st2 where g2: "getline st [] = (g2, blank, st2)" by (metis prod_cases3)
      from b p1(2) have bb: "b = Some buf" "sublist (crlf @ crlf) buf" by (auto split: if_splits)
      have "bnd (getBytesResponse E header) (\<lambda>n.
          if 0 < n then
            case net_read_until ?N crlf (fst st2) ?p1 of
              (None, w3) \<Rightarrow> Ok (None, w3)
            | (Some buf2, w3) \<Rightarrow>
                let (g3, dat, st3) = getline (buf2, snd st2) blank
                in Ok (Some (header @ [tab, tab, tab] @ dat), w3)
          else
            let (g3, dat, st3) = getline st2 blank
            in Ok (Some (header @ [tab, tab, tab] @ dat), ?p1)) = Ok (r, p')"
        using run up rd p1(1) bb g g2 by (simp add: sendReceive_def)
      then obtain m :: int where m: "(if 0 < m then
            case net_read_until ?N crlf (fst st2) ?p1 of
              (None, w3) \<Rightarrow> Ok (None, w3)
            | (Some buf2, w3) \<Rightarrow>
                let (g3, dat, st3) = getline (buf2, snd st2) blank
                in Ok (Some (header @ [tab, tab, tab] @ dat), w3)
          else
            let (g3, dat, st3) = getline st2 blank
            in Ok (Some (header @ [tab, tab, tab] @ dat), ?p1)) = Ok (r, p')"
        by (rule bndE) (rule that)
      obtain c p2 where rd2: "net_read_until ?N crlf (fst st2) ?p1 = (c, p2)" by fastforce
      from link_read_effect [OF this] have p2: "p_node p2 = p_node ?D" "p_late p \<or> rest \<noteq> [] \<longrightarrow> p_late p2"
        "\<exists>rest2. p_sess p2 = Some (ss\<lparr>sent := rest2\<rparr>) \<and> (rest2 = rest \<or> rest2 = [] \<or> p_late p2)"
        by auto
      have r: "(p' = ?p1 \<or> p' = p2) \<and> (r = None \<or> (\<exists>dat. r = Some (header @ [tab, tab, tab] @ dat)))"
        using m rd2 by (auto simp: Let_def split: if_splits prod.splits option.splits)
      have late: "p_late p \<or> rest \<noteq> [] \<longrightarrow> p_late p'" and node: "p_node p' = p_node ?D"
        using r p2 by auto
      obtain as where as: "p_sess p' = Some (ss\<lparr>sent := as\<rparr>)" "as = rest \<or> as = [] \<or> p_late p'"
        using r p2(3) by auto
      have "sublist (crlf @ crlf) (concat (sent ss)) \<and> getline (concat (sent ss), False) [] = (g, header, st)"
        if "\<not> p_late p'"
        using that late arrivals_drained [of "crlf @ crlf" "[]" _ "sent ss" buf] ar bb(2) g by auto
      with r late node as Some show ?thesis by blast
    qed
  qed
qed

lemma link_exchanged:
  assumes p: "peer_ready E p" and f: "fits E (h, x)" and g: "genEcho E h x = Ok pkt"
    and run: "sendReceive E (link_net k E M C) pkt p = Ok (r, p')"
  shows "peer_keeps E p p' \<and> (r \<noteq> None \<longrightarrow> peer_ready E p')"
proof -
  have "p_sess p \<noteq> None" using p by (auto simp: peer_ready_def split: option.splits)
  note ex = link_exchange [OF run this]
  note d = deliver_fits [OF p f g, of k M]
  have "peer_keeps E (deliver k E M pkt p) p'"
    using d ex by (intro peer_keeps_node) (auto simp: peer_keeps_def)
  with d have keeps: "peer_keeps E p p'" using peer_keeps_trans by blast
  moreover have "peer_ready E p'" if r: "r = Some result" for result
  proof -
    obtain ss as where ss: "p_sess (deliver k E M pkt p) = Some ss" "p_sess p' = Some (ss\<lparr>sent := as\<rparr>)"
      "\<not> p_late p' \<Longrightarrow> as = [] \<and> sublist (crlf @ crlf) (concat (sent ss))"
      using ex r by blast
    have "sent ss \<noteq> []" "as = []" "\<not> p_late p" if "\<not> p_late p'"
      using ss(3) [OF that] ex that by (auto simp: crlf_def)
    with ss(1,2) d keeps show ?thesis by (auto simp: peer_ready_def peer_keeps_def)
  qed
  ultimately show ?thesis by auto
qed

text \<open>The first field of the reply is the first field of the backup's first answer.\<close>

lemma first_field:
  assumes E: "text_ok E" and u: "u = mt @ '' '' @ v" and mt: "nl \<notin> set mt" "CHR '' '' \<notin> set mt"
    and nl: "nl \<in> set u" and g: "getline (u, False) [] = (g, header, st)"
  shows "vec_at (split_any E '' '' (header @ y)) 0 = Ok mt"
proof -
  have "nl \<in> set v" using nl u mt by auto
  then obtain v1 v2 where v: "v = v1 @ nl # v2" "nl \<notin> set v1" by (meson split_list_first)
  then have "u = (mt @ '' '' @ v1) @ nl # v2" "nl \<notin> set (mt @ '' '' @ v1)" using u mt by auto
  with g have "header = mt @ '' '' @ v1" by (metis Pair_inject getline_line)
  then have "split_any E '' '' (header @ y) = mt # split_any E '' '' (v1 @ y)"
    using E mt unfolding text_ok_def by (auto intro!: text_lib.spl_cut)
  then show ?thesis by (simp add: vec_at_def)
qed

lemma answer_methods_plain: "mt \<in> set answer_methods \<Longrightarrow> nl \<notin> set mt \<and> CHR '' '' \<notin> set mt"
  by (auto simp: answer_methods_def)

lemma commit_packet:
  assumes E: "text_ok E" and t: "in_int32 t" "in_int32 q"
  shows "genEcho E (commit_header E t q) '' '' =
      Ok (header_line ''COMMIT'' (lex_str E t) (lex_str E q) ''0'' @ crlf @ crlf @ crlf)"
    "8 \<le> length (header_line ''COMMIT'' (lex_str E t) (lex_str E q) ''0'')"
  using genEcho_shape [OF commit_header_fields(1) [OF E t], of "'' ''"] by (simp_all add: header_line_def)

lemma link_acknowledged:
  assumes p: "peer_ready E p" and k: "\<not> server_key t" and tq: "in_int32 t" "in_int32 q"
    and g: "genEcho E (commit_header E t q) '' '' = Ok pkt"
    and run: "sendReceive E (link_net k E M C) pkt p = Ok (Some result, p')"
    and ack: "vec_at (split_any E '' '' result) 0 = Ok ''ACK''"
  shows "peer_holds p' t q \<or> p_late p'"
proof (cases "p_late p'")
  case fresh: False
  have some: "p_sess p \<noteq> None" using p by (auto simp: peer_ready_def split: option.splits)
  note ex = link_exchange [OF run this]
  with fresh have "\<not> p_late p" by blast
  then obtain ss where ss: "p_sess p = Some ss" "buf_b ss = []" "sent ss = []" and sound: "peer_sound E p"
    using p by (auto simp: peer_ready_def split: option.splits)
  have E: "text_ok E" and wf: "wf_log (peer_log p)" and role: "getRole (peer_log p) = Ok ''backup''"
    using sound by (simp_all add: peer_sound_def libs_ok_def)
  let ?h = "header_line ''COMMIT'' (lex_str E t) (lex_str E q) ''0''" and ?D = "deliver k E M pkt p"
  have pl: "plain ''COMMIT''" "plain (lex_str E t)" "plain (lex_str E q)"
    using E tq by (simp_all add: plain_def [of "''COMMIT''"])
  have m: "meth ''COMMIT'' = 3" by (simp add: meth_def method_map_def)
  have pkt: "pkt = ?h @ crlf @ crlf @ crlf @ []" using commit_packet(1) [OF E tq] g by simp
  from ex fresh obtain s1 g1 header st dat where D: "p_node p' = p_node ?D" "p_sess ?D = Some s1"
    and u: "sublist (crlf @ crlf) (concat (sent s1))" "getline (concat (sent s1), False) [] = (g1, header, st)"
    and result: "result = header @ [tab, tab, tab] @ dat"
    by blast
  have "listening ss"
  proof (rule ccontr)
    assume "\<not> listening ss"
    with ss D have "sent s1 = []" by (auto simp: deliver_def Let_def)
    with u show False by (simp add: crlf_def)
  qed
  let ?ss = "ss\<lparr>buf_b := pkt, incoming := [], listening := False\<rparr>"
  have rp: "read_packet k E M (p_node p) ?ss = Ok (p_node ?D, s1)"
    using D(2) ss \<open>listening ss\<close>
    by (auto simp: deliver_def handle_read_def split: res.splits prod.splits)
  have buf: "buf_b ?ss = ?h @ crlf @ crlf @ crlf @ []" by (simp add: pkt)
  have "act k E M ?h '' '' (p_node p) (?ss\<lparr>buf_b := []\<rparr>) = Ok (p_node ?D, s1)"
    using packet_without_data [OF E pl commit_packet(2) [OF E tq] buf, of k M "p_node p"] rp
    by (simp add: m carries_data_def)
  moreover have f: "getTsn E ?h = t" "getSeq E ?h = q" "parse E ?h = Ok 3"
    using header_fields [OF E pl zero_field(1)] E tq m by simp_all
  ultimately have "sent s1 = [] \<or> (\<exists>mt r as. sent s1 = (mt @ '' '' @ r) # as
      \<and> mt \<in> set answer_methods \<and> (mt = ''ACK'' \<longrightarrow> has_commit t q (node_log (p_node ?D))))"
    using commit_reply_kind [OF E wf role, of ?h k M "'' ''" "?ss\<lparr>buf_b := []\<rparr>" "p_node ?D" s1] k ss by simp
  moreover have "sent s1 \<noteq> []" using u by (auto simp: crlf_def)
  ultimately obtain mt r as where mt: "sent s1 = (mt @ '' '' @ r) # as" "mt \<in> set answer_methods"
    "mt = ''ACK'' \<longrightarrow> has_commit t q (node_log (p_node ?D))"
    by blast
  have "concat (sent s1) = mt @ '' '' @ r @ concat as" using mt by simp
  moreover have "nl \<in> set (concat (sent s1))"
    using set_mono_sublist [OF u(1)] by (simp add: crlf_def)
  ultimately have "vec_at (split_any E '' '' (header @ [tab, tab, tab] @ dat)) 0 = Ok mt"
    using answer_methods_plain [OF mt(2)] u(2) by (intro first_field [OF E]) auto
  with ack result mt(3) D(1) show ?thesis by (simp add: peer_holds_def)
qed simp

text \<open>
  A connection over which the backup answers: its session listens and has authenticated, and
  nothing is on its way.
\<close>

definition peer_up :: "env \<Rightarrow> 'v peer \<Rightarrow> bool" where
  "peer_up E p \<longleftrightarrow> peer_sound E p \<and>
     (case p_sess p of
        Some ss \<Rightarrow> buf_b ss = [] \<and> sent ss = [] \<and> listening ss \<and> writable ss \<and> known ss
          \<and> isAuth (rem_ip ss) (rem_port ss) ss
      | None \<Rightarrow> False)"

lemma peer_up_ready: "peer_up E p \<Longrightarrow> peer_ready E p"
  by (auto simp: peer_up_def peer_ready_def split: option.splits)

lemma commit_header_line: "commit_header E t q = header_line ''COMMIT'' (lex_str E t) (lex_str E q) ''0''"
  by (simp add: commit_header_def header_line_def iToS_def)

text \<open>
  A packet that the backup's session reads whole and answers: the primary receives the first
  of the answers, and the connection stands as before.
\<close>

lemma link_request:
  assumes up: "peer_up E p"
    and rd: "\<And>ss. buf_b ss = pkt \<Longrightarrow> writable ss \<Longrightarrow> known ss \<Longrightarrow> isAuth (rem_ip ss) (rem_port ss) ss \<Longrightarrow> sent ss = [] \<Longrightarrow>
      read_packet k E M (p_node p) ss = Ok (n', (start (ss\<lparr>buf_b := []\<rparr>))\<lparr>sent := a # as\<rparr>)"
    and h: "tokens E h = x # b # c # ds" and pl: "plain mt" "plain b" "plain c" "plain no"
    and e: "length e < 2147483647" and a: "genAnswerStr E mt h no e = Ok a"
    and ok: "wf_log (node_log n')" "getRole (node_log n') = Ok ''backup''" and room: "\<And>i. length as \<le> C i"
  shows "\<exists>result p'. sendReceive E (link_net k E M C) pkt p = Ok (Some result, p')
    \<and> take 4 (split_any E '' '' result) = [mt, b, c, no] \<and> p_node p' = n' \<and> peer_up E p'"
proof -
  obtain ss where ss: "p_sess p = Some ss" "buf_b ss = []" "sent ss = []" "listening ss" "writable ss" "known ss"
      "isAuth (rem_ip ss) (rem_port ss) ss" and sound: "peer_sound E p"
    using up by (auto simp: peer_up_def split: option.splits)
  then have E: "text_ok E" by (simp add: peer_sound_def libs_ok_def)
  let ?ss = "ss\<lparr>buf_b := pkt, incoming := [], listening := False\<rparr>"
  let ?ss' = "(start (?ss\<lparr>buf_b := []\<rparr>))\<lparr>sent := a # as\<rparr>"
  have "read_packet k E M (p_node p) ?ss = Ok (n', ?ss')"
    by (rule rd) (use ss in \<open>simp_all add: isAuth_def\<close>)
  then have D: "deliver k E M pkt p = p\<lparr>p_node := n', p_sess := Some ?ss'\<rparr>"
    using ss by (simp add: deliver_def handle_read_def)
  let ?D = "p\<lparr>p_node := n', p_sess := Some (?ss'\<lparr>sent := []\<rparr>), p_reads := Suc (p_reads p)\<rparr>"
  let ?y = "concat as"
  have "sublist (crlf @ crlf) a"
    using genAnswerStr_parts [OF E h e a] by (metis append_assoc sublist_appendI)
  moreover from this have "sublist (crlf @ crlf) (a @ ?y)" by (simp add: sublist_append)
  moreover have "\<not> sublist (crlf @ crlf) []" by (simp add: crlf_def)
  ultimately have r: "net_read_until (link_net k E M C) (crlf @ crlf) [] (deliver k E M pkt p) = (Some (a @ ?y), ?D)"
    using arrivals_first [of "crlf @ crlf" "[]" a as "C (p_reads p)"] room
    by (simp add: D link_read)
  have more: "net_read_until (link_net k E M C) crlf (u @ crlf @ ?y) ?D = (Some (u @ crlf @ ?y), ?D)" for u
    by (simp add: link_read)
  have w: "net_write (link_net k E M C) pkt p = (True, deliver k E M pkt p)" using ss(1) by simp
  from answers_received [OF E h pl(1,2,3,4) e a w r more] obtain result where
    "sendReceive E (link_net k E M C) pkt p = Ok (Some result, ?D)"
    "take 4 (split_any E '' '' result) = [mt, b, c, no]" by blast
  then show ?thesis
    using sound ss ok by (intro exI [of _ result] exI [of _ ?D])
      (simp add: peer_up_def peer_sound_def start_def isAuth_def)
qed

text \<open>One commit sent to the backup and its one answer.\<close>

lemma peer_upD:
  assumes "peer_up E p"
  shows "text_ok E" "files_ok E" "random_ok E" "wf_log (peer_log p)" "getRole (peer_log p) = Ok ''backup''"
  using assms by (simp_all add: peer_up_def peer_sound_def libs_ok_def)

text \<open>What the backup reads of a commit message.\<close>

lemma commit_arrives:
  assumes E: "text_ok E" and tq: "in_int32 t" "in_int32 q"
    and g: "genEcho E (commit_header E t q) '' '' = Ok pkt" and buf: "buf_b ss = pkt"
  shows "read_packet k E M n ss = act k E M (commit_header E t q) '' '' n (ss\<lparr>buf_b := []\<rparr>)"
    "parse E (commit_header E t q) = Ok 3"
proof -
  have pl: "plain ''COMMIT''" "plain (lex_str E t)" "plain (lex_str E q)"
    using E tq by (simp_all add: plain_def [of "''COMMIT''"])
  have m: "meth ''COMMIT'' = 3" by (simp add: meth_def method_map_def)
  have "buf_b ss = header_line ''COMMIT'' (lex_str E t) (lex_str E q) ''0'' @ crlf @ crlf @ crlf @ []"
    using commit_packet(1) [OF E tq] g buf by simp
  from packet_without_data [OF E pl commit_packet(2) [OF E tq] this, of k M n]
  show "read_packet k E M n ss = act k E M (commit_header E t q) '' '' n (ss\<lparr>buf_b := []\<rparr>)"
    by (simp add: m carries_data_def commit_header_line)
  show "parse E (commit_header E t q) = Ok 3"
    using header_fields(1) [OF E pl zero_field(1)] m by (simp add: commit_header_line)
qed

lemma link_commit:
  assumes p: "peer_up E p" and k: "\<not> server_key t" and tq: "in_int32 t" "in_int32 q"
    and c: "commit E (commit_header E t q) (lh (p_node p)) = Ok (False, code, s1)"
    and a: "if code = ''committed'' then mt = ''ACK'' \<and> no = ''0'' \<and> e = ''Committed successfully.''
      else mt \<in> set answer_methods \<and> plain mt \<and> genAnswerStr E mt (commit_header E t q) no e = Ok code"
    and no: "plain no" and e: "length e < 2147483647"
    and g: "genEcho E (commit_header E t q) '' '' = Ok pkt"
  shows "\<exists>result p'. sendReceive E (link_net k E M C) pkt p = Ok (Some result, p')
    \<and> take 4 (split_any E '' '' result) = [mt, lex_str E t, lex_str E q, no]
    \<and> p_node p' = set_lh s1 (p_node p) \<and> peer_up E p'"
proof -
  let ?h = "commit_header E t q"
  note P = peer_upD [OF p]
  note f = commit_header_fields [OF P(1) tq]
  have pl: "plain (lex_str E t)" "plain (lex_str E q)" using P(1) tq by simp_all
  obtain ans where ans: "genAnswerStr E mt ?h no e = Ok ans"
    using genAnswerStr_shape [OF f(1)] by blast
  have ca: "if code = ''committed'' then genAnswerStr E ''ACK'' ?h ''0'' ''Committed successfully.'' = Ok ans
      else code \<noteq> ''incomplete'' \<and> ans = code"
    using a ans genAnswerStr_code(2) [of E mt ?h no e code] by (auto split: if_splits)
  have k': "\<not> server_key (getTsn E ?h)" using k f(2) by simp
  have rd: "read_packet k E M (p_node p) ss = Ok (set_lh s1 (p_node p), (start (ss\<lparr>buf_b := []\<rparr>))\<lparr>sent := [ans]\<rparr>)"
    if "buf_b ss = pkt" "writable ss" "known ss" "isAuth (rem_ip ss) (rem_port ss) ss" "sent ss = []" for ss
    unfolding commit_arrives(1) [OF P(1) tq g that(1)]
    using commit_arrives(2) [OF P(1) tq g that(1)] that
      commit_act [OF k' P(5) _ _ _ _ c ca, of "ss\<lparr>buf_b := []\<rparr>" k M "'' ''"] by (simp add: isAuth_def)
  have mt: "plain mt" using a by (auto simp: plain_def split: if_splits)
  have "wf_log (log_trans s1)" using commit_sim [OF P(1,4) k' c] by blast
  moreover have "getRole (log_trans s1) = Ok ''backup''"
    using only_at_role [OF commit_only [OF c]] k f(2) P(5) by (simp add: server_key_def)
  ultimately show ?thesis
    by (intro link_request [OF p rd f(1) mt pl no e ans]) (simp_all add: set_lh_def)
qed

section \<open>The connection\<close>

lemma auth_packet: "genRequest1 E ''AUTH'' = header_line ''AUTH'' ''-1'' ''0'' ''0'' @ crlf @ crlf @ crlf @ []"
  by (simp add: genRequest1_def genRequest4_def header_line_def)

text \<open>The first packet of a connection authenticates the session; nothing answers it.\<close>

lemma auth_acts:
  assumes E: "text_ok E" and buf: "buf_b ss = genRequest1 E ''AUTH''" and kn: "known ss"
  shows "read_packet k E M n ss = Ok (n, doAuth (rem_ip ss) (rem_port ss) (start (ss\<lparr>buf_b := []\<rparr>)))"
proof -
  let ?h = "header_line ''AUTH'' ''-1'' ''0'' ''0''"
  have pl: "plain ''AUTH''" "plain ''-1''" "plain ''0''" by (simp_all add: plain_def)
  have m: "meth ''AUTH'' = 8" by (simp add: meth_def method_map_def)
  have len: "8 \<le> length ?h" by (simp add: header_line_def)
  have "act k E M ?h '' '' n (ss\<lparr>buf_b := []\<rparr>) = Ok (n, doAuth (rem_ip ss) (rem_port ss) (start (ss\<lparr>buf_b := []\<rparr>)))"
    using header_fields(1) [OF E pl zero_field(1)] m kn
    by (simp add: act_def executeCommand_def authorized_def respond_simps start_def)
  then show ?thesis
    using packet_without_data [OF E pl len buf [unfolded auth_packet], of k M n]
    by (simp add: m carries_data_def)
qed

lemma link_connected:
  assumes p: "peer_sound E p" and run: "connectSocket E (link_net k E M C) c p = (b, c', p')"
  shows "peer_keeps E p p' \<and> (b \<longrightarrow> peer_ready E p')"
proof (cases "getIpThis (peer_log p) = Ok (c_ip c) \<and> getPortThis (peer_log p) = Ok (c_port c)")
  case False
  with run p show ?thesis by (auto simp: connectSocket_def peer_keeps_refl split: if_splits)
next
  case True
  have E: "text_ok E" using p by (simp add: peer_sound_def libs_ok_def)
  let ?s0 = "start (Session_init ''127.0.0.1'' 40000)" and ?a = "genRequest1 E ''AUTH''"
  let ?ss = "?s0\<lparr>buf_b := ?a, incoming := [], listening := False\<rparr>"
  have buf: "buf_b ?ss = ?a" by simp
  have "read_packet k E M (p_node p) ?ss =
      Ok (p_node p, doAuth (rem_ip ?ss) (rem_port ?ss) (start (?ss\<lparr>buf_b := []\<rparr>)))"
    by (rule auth_acts [OF E buf]) (simp add: start_def Session_init_def)
  then have "deliver k E M ?a (p\<lparr>p_sess := Some ?s0\<rparr>) =
      p\<lparr>p_sess := Some (doAuth (rem_ip ?ss) (rem_port ?ss) (start (?ss\<lparr>buf_b := []\<rparr>)))\<rparr>"
    by (simp add: deliver_def handle_read_def Let_def start_def Session_init_def)
  then have p': "p' = p\<lparr>p_sess := Some (doAuth (rem_ip ?ss) (rem_port ?ss) (start (?ss\<lparr>buf_b := []\<rparr>)))\<rparr>"
    using run True by (auto simp: connectSocket_def sendPacket_def Let_def)
  then have "peer_keeps E p p'" using p by (intro peer_keeps_node) simp_all
  moreover have "peer_ready E p'"
    using p by (simp add: p' peer_ready_def peer_sound_def doAuth_def start_def Session_init_def)
  ultimately show ?thesis by simp
qed

text \<open>A commit message fits: it is what the manager sends for a transaction of its own.\<close>

lemma link_fit_commit:
  assumes "peer_sound E p" and k: "\<not> server_key t" and tq: "in_int32 t" "in_int32 q"
  shows "fits E (commit_header E t q, '' '')"
proof -
  have E: "text_ok E" using assms(1) by (simp add: peer_sound_def libs_ok_def)
  note f = commit_header_fields [OF E tq]
  show ?thesis
    using commit_packet(2) [OF E tq] k f E tq
    by (simp add: fits_def proper_def plain_def [of "''COMMIT''"])
qed

section \<open>The pair\<close>

interpretation pair: replica E "link_net k E M C" "peer_sound E" "peer_ready E" "fits E" peer_holds p_late
  for E k M C
proof
  show "peer_sound E p \<Longrightarrow> text_ok E" for p :: "'a peer"
    by (simp add: peer_sound_def libs_ok_def)
  show "peer_ready E p \<Longrightarrow> peer_sound E p" for p :: "'a peer"
    by (simp add: peer_ready_def)
  show "peer_sound E p \<Longrightarrow> connectSocket E (link_net k E M C) c p = (b, c', p') \<Longrightarrow>
      peer_sound E p' \<and> (b \<longrightarrow> peer_ready E p') \<and> (\<forall>t q. peer_holds p t q \<longrightarrow> peer_holds p' t q)"
    for p c b c' p'
    using link_connected [of E p k M C c b c' p'] by (simp add: peer_keeps_def)
  show "peer_ready E p \<Longrightarrow> fits E (h, d) \<Longrightarrow> genEcho E h d = Ok pkt \<Longrightarrow>
      sendReceive E (link_net k E M C) pkt p = Ok (r, p') \<Longrightarrow>
      peer_sound E p' \<and> (r \<noteq> None \<longrightarrow> peer_ready E p') \<and> (\<forall>t q. peer_holds p t q \<longrightarrow> peer_holds p' t q)"
    for p h d pkt r p'
    using link_exchanged [of E p h d pkt k M C r p'] by (simp add: peer_keeps_def)
qed (rule link_acknowledged link_fit_commit; assumption)+

text \<open>
  A primary in order whose network is the backup: what it stores and has queued arrives as
  one packet each, and its connection, if it counts as standing, is a session of the backup.
\<close>

definition pair_in_order :: "env \<Rightarrow> 'v peer node \<Rightarrow> bool" where
  "pair_in_order E n \<longleftrightarrow> wf_log (node_log n) \<and> is_primary (node_log n) \<and> sendable (fits E) E (node_log n) \<and>
     list_all (fits E) (syncQueue (rm n)) \<and> peer_sound E (wld n) \<and> (alive (rm n) \<longrightarrow> peer_ready E (wld n))"

lemma pair_in_order: "pair_in_order E n \<Longrightarrow> pair.in_order E n"
  by (simp add: pair_in_order_def pair.in_order_def wf_log_ok)

lemmas pair_commit_held = pair.commit_held [OF pair_in_order]

section \<open>A backup that answers\<close>

lemma fields_at:
  assumes "take 4 xs = [a, b, c, d]"
  shows "vec_at xs 0 = Ok a" "vec_at xs 3 = Ok d"
proof -
  have "xs = [a, b, c, d] @ drop 4 xs" using assms append_take_drop_id [of 4 xs] by simp
  then obtain ys where "xs = [a, b, c, d] @ ys" by blast
  then show "vec_at xs 0 = Ok a" "vec_at xs 3 = Ok d" by (simp_all add: vec_at_def)
qed

text \<open>The manager's commit over such a connection is decided by the backup's answer.\<close>

lemma pair_round_drain:
  assumes role: "is_primary (node_log n)" and al: "alive (rm n)"
    and dr: "drain E (link_net k E M C) (syncQueue (rm n)) (wld n) = Ok (False, [], p1)" and up: "peer_up E p1"
    and j: "2 \<le> j" and k: "\<not> server_key t" and tq: "in_int32 t" "in_int32 q"
    and c: "commit E (commit_header E t q) (lh (p_node p1)) = Ok (False, code, s1)"
    and a: "if code = ''committed'' then mt = ''ACK'' \<and> no = ''0'' \<and> e = ''Committed successfully.''
      else mt \<in> set answer_methods \<and> plain mt \<and> genAnswerStr E mt (commit_header E t q) no e = Ok code"
    and no: "plain no" and e: "length e < 2147483647"
    and m: "mt \<noteq> ''ACK_RESEND''" "mt = ''ERROR'' \<Longrightarrow> no \<noteq> ''201''"
  shows "\<exists>p. rm_commit j E (link_net k E M C) (commit_header E t q) n =
      Ok (mt = ''ACK'', (upd_rm (\<lambda>r. r\<lparr>syncQueue := []\<rparr>) n)\<lparr>wld := p\<rparr>)
    \<and> p_node p = set_lh s1 (p_node p1) \<and> peer_up E p"
proof -
  let ?h = "commit_header E t q" and ?N = "link_net k E M C"
  have E: "text_ok E" by (rule peer_upD(1) [OF up])
  note g = commit_packet(1) [OF E tq]
  from link_commit [OF up k tq c a no e g] obtain result p where r: "sendReceive E ?N
      (header_line ''COMMIT'' (lex_str E t) (lex_str E q) ''0'' @ crlf @ crlf @ crlf) p1 = Ok (Some result, p)"
    and f: "take 4 (split_any E '' '' result) = [mt, lex_str E t, lex_str E q, no]"
    and p: "p_node p = set_lh s1 (p_node p1)" "peer_up E p" by blast
  obtain i where j: "j = Suc (Suc i)" using j by (metis add_2_eq_Suc le_Suc_ex)
  have "commit_reply E ?N ?h False result n1 = Ok (Return (mt = ''ACK'') n1)" for n1
    using fields_at [OF f] m by (auto simp: commit_reply_def Let_def)
  then have "rm_commit j E ?N ?h n = Ok (mt = ''ACK'', (upd_rm (\<lambda>r. r\<lparr>syncQueue := []\<rparr>) n)\<lparr>wld := p\<rparr>)"
    unfolding j by (subst rm_commit_round [OF role al dr g r]) (simp add: Let_def after_body_def)
  with p show ?thesis by blast
qed

lemma pair_round:
  assumes "is_primary (node_log n)" and "alive (rm n)" and q: "syncQueue (rm n) = []" and "peer_up E (wld n)"
    and "2 \<le> j" and "\<not> server_key t" and "in_int32 t" and "in_int32 q"
    and "commit E (commit_header E t q) (lh (p_node (wld n))) = Ok (False, code, s1)"
    and "if code = ''committed'' then mt = ''ACK'' \<and> no = ''0'' \<and> e = ''Committed successfully.''
      else mt \<in> set answer_methods \<and> plain mt \<and> genAnswerStr E mt (commit_header E t q) no e = Ok code"
    and "plain no" and "length e < 2147483647"
    and "mt \<noteq> ''ACK_RESEND''" and "mt = ''ERROR'' \<Longrightarrow> no \<noteq> ''201''"
  shows "\<exists>p. rm_commit j E (link_net k E M C) (commit_header E t q) n = Ok (mt = ''ACK'', n\<lparr>wld := p\<rparr>)
    \<and> p_node p = set_lh s1 (p_node (wld n)) \<and> peer_up E p"
proof -
  have "drain E (link_net k E M C) (syncQueue (rm n)) (wld n) = Ok (False, [], wld n)" using q by simp
  moreover have "(upd_rm (\<lambda>r. r\<lparr>syncQueue := []\<rparr>) n)\<lparr>wld := p\<rparr> = n\<lparr>wld := p\<rparr>" for p
    using q by (simp add: upd_rm_def)
  ultimately show ?thesis
    using pair_round_drain [OF assms(1,2) _ assms(4-14), of k M] by simp
qed

text \<open>A commit the backup already has is acknowledged and changes nothing.\<close>

lemma commit_already:
  assumes wf: "wf_log (log_trans s)" and c: "has_commit (getTsn E h) (getSeq E h) (log_trans s)"
  shows "commit E h s = refuse E h ''ACK'' ''0'' ''Already committed'' s"
proof -
  let ?k = "getTsn E h"
  obtain a where a: "abs_log (log_trans s) ?k = Some a" "phase a = Committed (getSeq E h)"
    using c by (auto simp: has_commit_iff)
  then have k: "\<not> server_key ?k" by (auto simp: abs_log_def split: if_splits)
  then obtain t where t: "om_find (log_trans s) ?k = Some t" and at: "a = abs_txn t"
    using a(1) by (auto simp: abs_log_find)
  then obtain st d where p: "om_find t (- 1) = Some (st, d)" and ws: "wf_status t (st, d)"
    using wf_txn_status [OF wf_log_txn [OF wf t k]] by (metis prod.exhaust_sel)
  from ws have "st = ''COMMITTED'' \<and> atoi_val d = getSeq E h"
    using a(2) at abs_phase [OF p] by (cases rule: status_cases) auto
  with t getStatus_eval [OF t p] getStatusData_eval [OF t p] wf_status_int32 [OF ws] show ?thesis
    by (simp add: commit_def Let_def atoi_def)
qed

text \<open>A round about a commit the backup has.\<close>

lemma pair_round_held:
  assumes "is_primary (node_log n)" "alive (rm n)"
    and "drain E (link_net k E M C) (syncQueue (rm n)) (wld n) = Ok (False, [], p1)" and up: "peer_up E p1" and "2 \<le> j"
    and k: "\<not> server_key t" and tq: "in_int32 t" "in_int32 q" and c: "has_commit t q (peer_log p1)"
  shows "\<exists>p. rm_commit j E (link_net k E M C) (commit_header E t q) n =
      Ok (True, (upd_rm (\<lambda>r. r\<lparr>syncQueue := []\<rparr>) n)\<lparr>wld := p\<rparr>)
    \<and> p_node p = p_node p1 \<and> peer_up E p"
proof -
  let ?h = "commit_header E t q" and ?s = "lh (p_node p1)"
  note P = peer_upD [OF up]
  note f = commit_header_fields [OF P(1) tq]
  obtain code where code: "genAnswerStr E ''ACK'' ?h ''0'' ''Already committed'' = Ok code"
    using genAnswerStr_shape [OF f(1)] by blast
  then have run: "commit E ?h ?s = Ok (False, code, ?s)"
    using commit_already [OF P(4), of E ?h] c f(2,3) by simp
  have a: "if code = ''committed'' then ''ACK'' = ''ACK'' \<and> ''0'' = ''0'' \<and> ''Already committed'' = ''Committed successfully.''
      else ''ACK'' \<in> set answer_methods \<and> plain ''ACK'' \<and> genAnswerStr E ''ACK'' ?h ''0'' ''Already committed'' = Ok code"
    using code genAnswerStr_code(1) [OF code answer_methods_mem(1)] answer_methods_mem(1) by (simp add: plain_def)
  from pair_round_drain [OF assms(1-5) k tq run a zero_field(1)] show ?thesis by (simp add: set_lh_def)
qed

lemma pair_check_round:
  assumes "is_primary (node_log n)" "alive (rm n)" and q: "syncQueue (rm n) = []" and "peer_up E (wld n)" "2 \<le> j"
    and "\<not> server_key t" "in_int32 t" "in_int32 q" "has_commit t q (peer_log (wld n))"
  shows "\<exists>p. rm_commit j E (link_net k E M C) (commit_header E t q) n = Ok (True, n\<lparr>wld := p\<rparr>)
    \<and> p_node p = p_node (wld n) \<and> peer_up E p"
proof -
  have "drain E (link_net k E M C) (syncQueue (rm n)) (wld n) = Ok (False, [], wld n)" using q by simp
  moreover have "(upd_rm (\<lambda>r. r\<lparr>syncQueue := []\<rparr>) n)\<lparr>wld := p\<rparr> = n\<lparr>wld := p\<rparr>" for p
    using q by (simp add: upd_rm_def)
  ultimately show ?thesis
    using pair_round_held [OF assms(1,2) _ assms(4-9), of k M] by simp
qed

lemma pair_check_commits:
  assumes "is_primary (node_log n)" "alive (rm n)" "syncQueue (rm n) = []" "peer_up E (wld n)"
    and "length hs + 3 \<le> j"
    and "\<forall>h \<in> set hs. \<exists>t q. h = commit_header E t q \<and> \<not> server_key t \<and> in_int32 t \<and> in_int32 q
      \<and> has_commit t q (peer_log (wld n))"
  shows "\<exists>p. check_commits j E (link_net k E M C) hs n =
      Ok (True, upd_rm (\<lambda>r. r\<lparr>show_warning := True\<rparr>) (n\<lparr>wld := p\<rparr>))
    \<and> p_node p = p_node (wld n) \<and> peer_up E p"
  using assms
proof (induction hs arbitrary: n j rule: rev_induct)
  case Nil
  then obtain i where "j = Suc i" by (metis Suc_le_D add.commute plus_1_eq_Suc add_Suc_right numeral_3_eq_3 list.size(3))
  with Nil show ?case by (intro exI [of _ "wld n"]) (simp add: check_passed_def Let_def)
next
  case (snoc h hs)
  then obtain i where j: "j = Suc i" "length hs + 3 \<le> i" by (cases j) auto
  obtain t q where h: "h = commit_header E t q" "\<not> server_key t" "in_int32 t" "in_int32 q"
    "has_commit t q (peer_log (wld n))" using snoc.prems(6) by auto
  have "2 \<le> i" using j(2) by simp
  from pair_check_round [OF snoc.prems(1-4) this h(2-5)] obtain p where
    p: "rm_commit i E (link_net k E M C) h n = Ok (True, n\<lparr>wld := p\<rparr>)" "p_node p = p_node (wld n)" "peer_up E p"
    using h(1) by blast
  from snoc.IH [of "n\<lparr>wld := p\<rparr>" i] snoc.prems p j(2) obtain p' where
    "check_commits i E (link_net k E M C) hs (n\<lparr>wld := p\<rparr>) =
      Ok (True, upd_rm (\<lambda>r. r\<lparr>show_warning := True\<rparr>) ((n\<lparr>wld := p\<rparr>)\<lparr>wld := p'\<rparr>))"
    "p_node p' = p_node p" "peer_up E p'" by auto
  with p j(1) show ?case by (intro exI [of _ p']) simp
qed

end
