(* ===== verification/Resync.thy ===== *)
theory Resync
  imports Cluster
begin

text \<open>
  The resynchronisation of a backup that lags behind: the exchanges a commit of the primary
  leads to, from the missing transaction over the requests for its writes to the
  acknowledgement, and where they lead nowhere.
\<close>

section \<open>Packets with data\<close>

text \<open>A packet that the backup will take for method \<open>m\<close> on entry \<open>i\<close> of transaction \<open>t\<close>.\<close>

definition packet_is :: "env \<Rightarrow> int \<Rightarrow> int \<Rightarrow> int \<Rightarrow> string \<times> string \<Rightarrow> bool" where
  "packet_is E m t i p \<longleftrightarrow>
     fits E p \<and> parse E (fst p) = Ok m \<and> getTsn E (fst p) = t \<and> getSeq E (fst p) = i"

abbreviation write_packet :: "env \<Rightarrow> int \<Rightarrow> int \<Rightarrow> string \<times> string \<Rightarrow> bool" where
  "write_packet E \<equiv> packet_is E 5"

text \<open>Data of fewer than two characters is left out of the packet, and the backup refuses it.\<close>

lemma data_arrives:
  assumes E: "text_ok E" and w: "packet_is E m t i (h, x)" and cm: "carries_data m" and g: "genEcho E h x = Ok pkt"
  shows "\<exists>a b c d. (tokens E (header_line a b c d) = [a, b, c, d] \<and> plain b \<and> plain c)
    \<and> parse E (header_line a b c d) = Ok m
    \<and> getTsn E (header_line a b c d) = t \<and> getSeq E (header_line a b c d) = i
    \<and> (\<forall>n ss. buf_b ss = pkt \<longrightarrow> read_packet k E M n ss =
        (if length x < 2 then reject E (header_line a b c d) ''Method requires data.'' n (ss\<lparr>buf_b := []\<rparr>)
         else act k E M (header_line a b c d) x n (ss\<lparr>buf_b := []\<rparr>)))"
proof -
  obtain a b c ds where t: "tokens E h = a # b # c # ds" and p: "plain a" "plain b" "plain c"
    and len: "8 \<le> length (header_line a b c ''0'')" and x: "nl \<notin> set x" "length x < 2147483647"
    using w by (auto simp: packet_is_def fits_def split: list.splits)
  have m: "meth a = m" and f: "getTsn E h = t" "getSeq E h = i"
    using w t by (auto simp: packet_is_def parse_def meth_def Let_def split: option.splits if_splits)
  have cd: "carries_data (meth a)" using cm by (simp add: m)
  have eq: "getTsn E (header_line a b c d) = t \<and> getSeq E (header_line a b c d) = i" if "plain d" for d
    using f t tokens_header [OF E p that] by (simp add: getTsn_def getSeq_def)
  show ?thesis
  proof (cases "length x < 2")
    case True
    have "read_packet k E M n ss = reject E (header_line a b c ''0'') ''Method requires data.'' n (ss\<lparr>buf_b := []\<rparr>)"
      if "buf_b ss = pkt" for n ss
      using echo_empty [OF E t p len True g, of ss "[]" k M n] that cd by simp
    with True eq [OF zero_field(1)] header_fields(1) [OF E p zero_field(1)] m
      tokens_header [OF E p zero_field(1)] p show ?thesis
      by (intro exI [of _ a] exI [of _ b] exI [of _ c] exI [of _ "''0''"]) simp
  next
    case False
    let ?d = "lex_str E (int (length x) + 1)"
    have n: "in_int32 (int (length x) + 1)" using x(2) by (simp add: in_int32_def)
    note d = lex_str_plain [OF E n]
    have "read_packet k E M n ss = act k E M (header_line a b c ?d) x n (ss\<lparr>buf_b := []\<rparr>)"
      if "buf_b ss = pkt" for n ss
      using echo_arrives [OF E t p cd x(1) _ x(2) header_line_len [OF E n len] g, of ss "[]" k M n] that False by simp
    with False eq [OF d] header_fields(1) [OF E p d] m tokens_header [OF E p d] p show ?thesis
      by (intro exI [of _ a] exI [of _ b] exI [of _ c] exI [of _ ?d]) simp
  qed
qed

text \<open>What an authenticated session of a backup makes of a write: one answer.\<close>

lemma write_act:
  assumes k: "\<not> server_key (getTsn E h)" and E: "text_ok E" and role: "getRole (node_log n) = Ok ''backup''"
    and i: "parse E h = Ok 5" and t: "tokens E h = y # b # c # ds"
    and r: "addLogEntry E h x (lh n) = Ok (r, code, s1)" and one: "one_answer E h r code"
  shows "\<exists>mt no e a. genAnswerStr E mt h no e = Ok a \<and> plain mt \<and> plain no \<and> length e < 2147483647
    \<and> (\<forall>ss. isAuth (rem_ip ss) (rem_port ss) ss \<and> writable ss \<and> known ss \<longrightarrow>
        act j E N h x n ss = Ok (set_lh s1 n, (start ss)\<lparr>sent := sent ss @ [a]\<rparr>))"
proof -
  have role1: "getRole (log_trans s1) = Ok ''backup''"
    using only_at_role [OF addLogEntry_only [OF E r]] k role by (simp add: server_key_def)
  have q: "enqueue h x (set_lh s1 n) = Ok (set_lh s1 n)"
    using role1 by (simp add: enqueue_def set_lh_def)
  have ans: "\<exists>a. genAnswerStr E mt h no e = Ok a" for mt no e
    using genAnswerStr_shape [OF t] by blast
  have auth1: "authorized 5 n (start ss) = Ok True" if "isAuth (rem_ip ss) (rem_port ss) ss" for ss
    using that by (simp add: authorized_def isAuth_def start_def)
  from one consider "r" "code = []" | "\<not> r" "code = ''committed''"
    | mt no e where "\<not> r" "genAnswerStr E mt h no e = Ok code" "mt \<in> set answer_methods" "plain mt" "plain no" "length e < 2147483647"
    by (auto simp: one_answer_def)
  then show ?thesis
  proof cases
    case 1
    obtain a where a: "genAnswerStr E ''ACK'' h ''0'' '' '' = Ok a" using ans by blast
    have "act j E N h x n ss = Ok (set_lh s1 n, (start ss)\<lparr>sent := sent ss @ [a]\<rparr>)"
      if auth: "isAuth (rem_ip ss) (rem_port ss) ss" and w: "writable ss" "known ss" for ss
      using i auth1 [OF auth] r 1 a w q
      by (simp add: act_def executeCommand_def do_write_def answer_def sendACK_def respond_simps start_def)
    with a show ?thesis by (intro exI [of _ "''ACK''"] exI [of _ "''0''"] exI [of _ "'' ''"] exI [of _ a]) (simp add: plain_def)
  next
    case 2
    obtain a where a: "genAnswerStr E ''ACK'' h ''0'' ''Committed successfully.'' = Ok a" using ans by blast
    have "act j E N h x n ss = Ok (set_lh s1 n, (start ss)\<lparr>sent := sent ss @ [a]\<rparr>)"
      if auth: "isAuth (rem_ip ss) (rem_port ss) ss" and w: "writable ss" "known ss" for ss
      using i auth1 [OF auth] r 2 a w q role1
      by (simp add: act_def executeCommand_def do_write_def doCommit_def sendACK_def respond_simps start_def set_lh_def)
    with a show ?thesis
      by (intro exI [of _ "''ACK''"] exI [of _ "''0''"] exI [of _ "''Committed successfully.''"] exI [of _ a]) (simp add: plain_def)
  next
    case 3
    have ne: "code \<noteq> ''committed''" "code \<noteq> ''incomplete''" using 3(2,3) genAnswerStr_code by auto
    have "act j E N h x n ss = Ok (set_lh s1 n, (start ss)\<lparr>sent := sent ss @ [code]\<rparr>)"
      if auth: "isAuth (rem_ip ss) (rem_port ss) ss" and w: "writable ss" "known ss" for ss
      using i auth1 [OF auth] r 3(1) ne w
      by (simp add: act_def executeCommand_def do_write_def respond_simps sendACK_def start_def)
    with 3 show ?thesis by blast
  qed
qed

section \<open>One write\<close>

text \<open>What a write does to the backup's transaction: nothing where its data is too short to be sent.\<close>

definition take_write :: "(int \<Rightarrow> string) \<Rightarrow> int \<Rightarrow> atxn \<Rightarrow> atxn" where
  "take_write X i a = (if length (X i) < 2 then a else snd (write_txn False True i (X i) a))"

definition committing_at :: "int \<Rightarrow> atxn \<Rightarrow> bool" where
  "committing_at q a \<longleftrightarrow> phase a = Waiting q \<or> phase a = Committed q"

text \<open>
  A backup that is up and can write the files \<open>F\<close>; and one that has the transaction \<open>b\<close>
  under \<open>t\<close>, whose file is one of them.
\<close>

definition peer_works :: "env \<Rightarrow> string list \<Rightarrow> 'v peer \<Rightarrow> bool" where
  "peer_works E F p \<longleftrightarrow> peer_up E p \<and> can_write E F (lh (p_node p))"

definition has_txn :: "env \<Rightarrow> string list \<Rightarrow> int \<Rightarrow> atxn \<Rightarrow> 'v peer \<Rightarrow> bool" where
  "has_txn E F t b p \<longleftrightarrow> peer_works E F p \<and> abs_log (peer_log p) t = Some b \<and> target b \<in> set F"

lemmas has_txn_defs = has_txn_def peer_works_def

lemma take_write_committing:
  "committing_at q a \<Longrightarrow> committing_at q (take_write X i a) \<and> target (take_write X i a) = target a"
  by (auto simp: take_write_def committing_at_def write_txn_def try_commit_def Let_def split: if_splits)

lemma link_write:
  assumes p: "has_txn E F t b p" and k: "\<not> server_key t" and w: "write_packet E t i (h, X i)"
    and i: "1 \<le> i" and c: "committing_at q b" "q < 2147483647" and g: "genEcho E h (X i) = Ok pkt"
  shows "\<exists>result p'. sendReceive E (link_net k E M C) pkt p = Ok (Some result, p') \<and> has_txn E F t (take_write X i b) p'
    \<and> abs_log (peer_log p') = (abs_log (peer_log p))(t \<mapsto> take_write X i b)"
proof -
  have up: "peer_up E p" and b: "abs_log (peer_log p) t = Some b" and cw: "can_write E F (lh (p_node p))" "target b \<in> set F"
    using p by (simp_all add: has_txn_defs)
  note P = peer_upD [OF up]
  have "carries_data 5" by (simp add: carries_data_def)
  from data_arrives [OF P(1) w this g, of k M] obtain x y z d where tk: "tokens E (header_line x y z d) = [x, y, z, d]"
    and pl: "plain y" "plain z" and h: "parse E (header_line x y z d) = Ok 5"
      "getTsn E (header_line x y z d) = t" "getSeq E (header_line x y z d) = i"
    and arr: "\<And>n ss. buf_b ss = pkt \<Longrightarrow> read_packet k E M n ss =
        (if length (X i) < 2 then reject E (header_line x y z d) ''Method requires data.'' n (ss\<lparr>buf_b := []\<rparr>)
         else act k E M (header_line x y z d) (X i) n (ss\<lparr>buf_b := []\<rparr>))" by blast
  let ?h = "header_line x y z d"
  show ?thesis
  proof (cases "length (X i) < 2")
    case True
    obtain a where a: "genAnswerStr E ''ERROR'' ?h ''204'' ''Method requires data.'' = Ok a"
      using genAnswerStr_shape [OF tk] by blast
    have rd: "read_packet k E M (p_node p) ss = Ok (p_node p, (start (ss\<lparr>buf_b := []\<rparr>))\<lparr>sent := [a]\<rparr>)"
      if "buf_b ss = pkt" "writable ss" "known ss" "isAuth (rem_ip ss) (rem_port ss) ss" "sent ss = []" for ss
      unfolding arr [OF that(1)] using True that a
      by (simp add: reject_def answer_def sendACK_def start_def)
    have "\<exists>result p'. sendReceive E (link_net k E M C) pkt p = Ok (Some result, p')
        \<and> take 4 (split_any E '' '' result) = [''ERROR'', y, z, ''204''] \<and> p_node p' = p_node p \<and> peer_up E p'"
      by (rule link_request [OF up rd tk _ pl _ _ a P(4,5)]) (simp_all add: plain_def)
    then obtain result p' where "sendReceive E (link_net k E M C) pkt p = Ok (Some result, p')" "p_node p' = p_node p"
      "peer_up E p'" by blast
    moreover have "(abs_log (peer_log p))(t \<mapsto> b) = abs_log (peer_log p)" using b by (simp add: fun_upd_idem)
    ultimately show ?thesis using True b cw by (auto simp: take_write_def has_txn_defs)
  next
    case False
    have k': "\<not> server_key (getTsn E ?h)" using k h(2) by simp
    have b': "abs_log (peer_log p) (getTsn E ?h) = Some b" using b h(2) by simp
    have three: "3 \<le> length (tokens E ?h)" using tk by simp
    have i': "1 \<le> getSeq E ?h" using i h(3) by simp
    obtain r code s1 where run: "addLogEntry E ?h (X i) (lh (p_node p)) = Ok (r, code, s1)"
      and s1: "can_write E F s1" and one: "one_answer E ?h r code"
      and abs: "abs_log (log_trans s1) = (abs_log (peer_log p))(t \<mapsto> snd (write_txn False True i (X i) b))"
      using write_works [OF P(1,4) k' P(5) three b' c(1) [unfolded committing_at_def] cw i' c(2), of "X i"]
      unfolding h(2,3) by blast
    have ok: "wf_log (node_log (set_lh s1 (p_node p)))" "getRole (node_log (set_lh s1 (p_node p))) = Ok ''backup''"
      using write_sim [OF P(1,4) k' run] only_at_role [OF addLogEntry_only [OF P(1) run]] k' P(5)
      by (auto simp: set_lh_def server_key_def)
    obtain mt no e a where a: "genAnswerStr E mt ?h no e = Ok a" "plain mt" "plain no" "length e < 2147483647"
      and act: "\<And>ss. isAuth (rem_ip ss) (rem_port ss) ss \<Longrightarrow> writable ss \<Longrightarrow> known ss \<Longrightarrow>
        act k E M ?h (X i) (p_node p) ss = Ok (set_lh s1 (p_node p), (start ss)\<lparr>sent := sent ss @ [a]\<rparr>)"
      using write_act [OF k' P(1,5) h(1) tk run one, of k M] by blast
    have rd: "read_packet k E M (p_node p) ss = Ok (set_lh s1 (p_node p), (start (ss\<lparr>buf_b := []\<rparr>))\<lparr>sent := [a]\<rparr>)"
      if "buf_b ss = pkt" "writable ss" "known ss" "isAuth (rem_ip ss) (rem_port ss) ss" "sent ss = []" for ss
      unfolding arr [OF that(1)] using False that act [of "ss\<lparr>buf_b := []\<rparr>"] by (simp add: isAuth_def)
    have "\<exists>result p'. sendReceive E (link_net k E M C) pkt p = Ok (Some result, p')
        \<and> take 4 (split_any E '' '' result) = [mt, y, z, no] \<and> p_node p' = set_lh s1 (p_node p) \<and> peer_up E p'"
      by (rule link_request [OF up rd tk a(2) pl a(3,4,1) ok]) simp_all
    then obtain result p' where "sendReceive E (link_net k E M C) pkt p = Ok (Some result, p')"
      "p_node p' = set_lh s1 (p_node p)" "peer_up E p'" by blast
    moreover have "target (take_write X i b) = target b" using take_write_committing [OF c(1)] by blast
    ultimately show ?thesis using False abs s1 cw(2) by (auto simp: take_write_def has_txn_defs set_lh_def)
  qed
qed

section \<open>All the writes\<close>

text \<open>What sending the writes \<open>qs\<close> in order makes of the backup's transaction.\<close>

definition feed :: "(int \<Rightarrow> string) \<Rightarrow> int list \<Rightarrow> atxn \<Rightarrow> atxn" where
  "feed X qs = fold (take_write X) qs"

lemma drain_writes:
  assumes "has_txn E F t b p" "committing_at q b" and k: "\<not> server_key t" and q: "q < 2147483647"
    and "\<forall>i \<in> set qs. 1 \<le> i \<and> write_packet E t i (H i, X i)"
  shows "\<exists>p'. drain E (link_net k E M C) (map (\<lambda>i. (H i, X i)) qs) p = Ok (False, [], p')
    \<and> has_txn E F t (feed X qs b) p' \<and> committing_at q (feed X qs b)
    \<and> abs_log (peer_log p') = (abs_log (peer_log p))(t \<mapsto> feed X qs b)"
  using assms(1,2,5)
proof (induction qs arbitrary: b p)
  case Nil
  then have "(abs_log (peer_log p))(t \<mapsto> b) = abs_log (peer_log p)" by (simp add: has_txn_defs fun_upd_idem)
  with Nil show ?case by (simp add: feed_def)
next
  case (Cons i qs)
  have i: "1 \<le> i" "write_packet E t i (H i, X i)" using Cons.prems(3) by simp_all
  obtain pkt where g: "genEcho E (H i) (X i) = Ok pkt"
    using i(2) genEcho_shape by (auto simp: packet_is_def fits_def split: list.splits)
  from link_write [where X = X, OF Cons.prems(1) k i(2,1) Cons.prems(2) q g, of k M C] obtain result p1 where
    s: "sendReceive E (link_net k E M C) pkt p = Ok (Some result, p1)" and p1: "has_txn E F t (take_write X i b) p1"
    and a1: "abs_log (peer_log p1) = (abs_log (peer_log p))(t \<mapsto> take_write X i b)" by blast
  have c1: "committing_at q (take_write X i b)" using take_write_committing [OF Cons.prems(2)] by blast
  have "\<forall>i \<in> set qs. 1 \<le> i \<and> write_packet E t i (H i, X i)" using Cons.prems(3) by simp
  from Cons.IH [OF p1 c1 this] obtain p' where
    "drain E (link_net k E M C) (map (\<lambda>i. (H i, X i)) qs) p1 = Ok (False, [], p')"
    "has_txn E F t (feed X qs (take_write X i b)) p'" "committing_at q (feed X qs (take_write X i b))"
    "abs_log (peer_log p') = (abs_log (peer_log p1))(t \<mapsto> feed X qs (take_write X i b))" by blast
  with s g a1 show ?case by (intro exI [of _ p']) (simp add: feed_def)
qed

text \<open>The backup's writes are among those of the primary: numbers up to \<open>q\<close>, with the data \<open>X\<close>.\<close>

definition agrees :: "int \<Rightarrow> (int \<Rightarrow> string) \<Rightarrow> atxn \<Rightarrow> bool" where
  "agrees q X b \<longleftrightarrow> (\<forall>j x. writes b j = Some x \<longrightarrow> 1 \<le> j \<and> j \<le> q \<and> x = X j)"

lemma agrees_phase [simp]: "agrees q X (b\<lparr>phase := c\<rparr>) = agrees q X b"
  unfolding agrees_def by simp

lemma agrees_write:
  "agrees q X b \<Longrightarrow> 1 \<le> n \<Longrightarrow> n \<le> q \<Longrightarrow> agrees q X (b\<lparr>writes := (writes b)(n \<mapsto> X n)\<rparr>)"
  unfolding agrees_def by auto

lemma agrees_unbroken:
  "agrees q X b \<Longrightarrow> unbroken (writes b) q \<longleftrightarrow> (\<forall>i. 1 \<le> i \<and> i \<le> q \<longrightarrow> writes b i = Some (X i))"
  unfolding agrees_def unbroken_def by (metis not_None_eq order_trans)

text \<open>Sent from \<open>1\<close> on, the writes below \<open>n\<close> are there, or all of them are and the commit is through.\<close>

definition fed :: "int \<Rightarrow> (int \<Rightarrow> string) \<Rightarrow> int \<Rightarrow> atxn \<Rightarrow> bool" where
  "fed q X n b \<longleftrightarrow> agrees q X b \<and>
     (phase b = Committed q \<and> unbroken (writes b) q
      \<or> phase b = Waiting q \<and> \<not> unbroken (writes b) q \<and> (\<forall>i. 1 \<le> i \<and> i < n \<longrightarrow> writes b i \<noteq> None))"

lemma fed_write:
  assumes f: "fed q X n b" and n: "1 \<le> n" "n \<le> q" "2 \<le> length (X n)"
  shows "fed q X (n + 1) (take_write X n b)"
proof (cases "phase b = Waiting q \<and> writes b n = None")
  case True
  let ?b = "b\<lparr>writes := (writes b)(n \<mapsto> X n)\<rparr>"
  have ag: "agrees q X ?b" using f n by (simp add: fed_def agrees_write)
  have below: "1 \<le> i \<Longrightarrow> i < n + 1 \<Longrightarrow> writes ?b i \<noteq> None" for i
    using f True by (auto simp: fed_def)
  have tw: "take_write X n b = (if unbroken (writes ?b) q then ?b\<lparr>phase := Committed q\<rparr> else ?b)"
    using True n by (simp add: take_write_def write_txn_def try_commit_def Let_def)
  have ag': "agrees q X (?b\<lparr>phase := Committed q\<rparr>)" using ag by simp
  show ?thesis
  proof (cases "unbroken (writes ?b) q")
    case ub: True
    then have "take_write X n b = ?b\<lparr>phase := Committed q\<rparr>" by (simp add: tw)
    with ag' ub show ?thesis by (simp only: fed_def atxn.simps) simp
  next
    case ub: False
    then have "take_write X n b = ?b" by (simp add: tw)
    moreover have "phase ?b = Waiting q" using True by simp
    ultimately show ?thesis using ag ub below unfolding fed_def by metis
  qed
next
  case False
  then have "take_write X n b = b"
    using f n by (auto simp: take_write_def fed_def write_txn_def Let_def)
  moreover have "writes b i \<noteq> None"
    if "phase b = Waiting q" "\<forall>i. 1 \<le> i \<and> i < n \<longrightarrow> writes b i \<noteq> None" "1 \<le> i" "i < n + 1" for i
    using that False by (cases "i = n") auto
  ultimately show ?thesis using f unfolding fed_def by auto
qed

lemma feed_fed:
  assumes "fed q X m b" "1 \<le> m" "m \<le> q + 1" "\<forall>i. 1 \<le> i \<and> i \<le> q \<longrightarrow> 2 \<le> length (X i)"
  shows "fed q X (q + 1) (feed X [m..q] b)"
  using assms
proof (induction "nat (q + 1 - m)" arbitrary: m b)
  case 0
  then have "m = q + 1" by simp
  with 0 show ?case by (simp add: feed_def)
next
  case (Suc k)
  then have m: "m \<le> q" by linarith
  then have "feed X [m..q] b = feed X [m + 1..q] (take_write X m b)"
    by (simp add: feed_def upto_rec1)
  with Suc.hyps(1) [of "m + 1" "take_write X m b"] Suc.hyps(2) fed_write [OF Suc.prems(1,2) m] Suc.prems m
  show ?case by simp
qed

lemma feed_completes:
  assumes "agrees q X b" "phase b = Waiting q" "\<not> unbroken (writes b) q" "1 \<le> q"
    and "\<forall>i. 1 \<le> i \<and> i \<le> q \<longrightarrow> 2 \<le> length (X i)"
  shows "phase (feed X [1..q] b) = Committed q \<and> agrees q X (feed X [1..q] b) \<and> unbroken (writes (feed X [1..q] b)) q"
proof -
  have "fed q X 1 b" using assms by (auto simp: fed_def)
  from feed_fed [OF this _ _ assms(5)] assms(4) have f: "fed q X (q + 1) (feed X [1..q] b)" by simp
  have "unbroken (writes (feed X [1..q] b)) q"
    if "agrees q X (feed X [1..q] b)" "\<forall>i. 1 \<le> i \<and> i < q + 1 \<longrightarrow> writes (feed X [1..q] b) i \<noteq> None"
    using that agrees_unbroken [OF that(1)] unfolding agrees_def by fastforce
  with f show ?thesis by (auto simp: fed_def)
qed

text \<open>A write that is too short never arrives.\<close>

lemma feed_short:
  assumes "phase b = Waiting q" "agrees q X b" "writes b j = None" "1 \<le> j" "j \<le> q" "length (X j) < 2"
    and "\<forall>i \<in> set qs. 1 \<le> i \<and> i \<le> q"
  shows "phase (feed X qs b) = Waiting q \<and> agrees q X (feed X qs b) \<and> writes (feed X qs b) j = None"
  using assms(1-3,7)
proof (induction qs arbitrary: b)
  case (Cons i qs)
  have "phase (take_write X i b) = Waiting q \<and> agrees q X (take_write X i b) \<and> writes (take_write X i b) j = None"
  proof (cases "length (X i) < 2 \<or> writes b i \<noteq> None")
    case True
    then have "take_write X i b = b" using Cons.prems(1) by (auto simp: take_write_def write_txn_def Let_def)
    with Cons.prems show ?thesis by simp
  next
    case False
    let ?b = "b\<lparr>writes := (writes b)(i \<mapsto> X i)\<rparr>"
    have ij: "i \<noteq> j" using False assms(6) by auto
    then have "\<not> unbroken (writes ?b) q" using Cons.prems(3) assms(4,5) by (auto simp: unbroken_def)
    then have "take_write X i b = ?b" using False Cons.prems(1,4) by (auto simp: take_write_def write_txn_def Let_def)
    with Cons.prems ij show ?thesis by (simp add: agrees_write)
  qed
  with Cons.IH [of "take_write X i b"] Cons.prems(4) show ?case by (simp add: feed_def)
qed (simp add: feed_def)

section \<open>A commit that has to wait\<close>

text \<open>
  How many of the writes up to \<open>q\<close> a backup lacks that has \<open>b\<close> of the transaction; and whether
  each read of the network takes \<open>m\<close> answers, if there are as many. With one write missing, or
  none, that is so of every network.
\<close>

definition lacks :: "int \<Rightarrow> atxn option \<Rightarrow> nat" where
  "lacks q b = (case b of None \<Rightarrow> nat q | Some a \<Rightarrow> length (filter (\<lambda>i. writes a i = None) [1..q]))"

definition gathers :: "nat \<Rightarrow> (nat \<Rightarrow> nat) \<Rightarrow> bool" where
  "gathers m C \<longleftrightarrow> (\<forall>i. m \<le> Suc (C i))"

lemma gathers_one [simp]: "m \<le> 1 \<Longrightarrow> gathers m C"
  by (simp add: gathers_def)

lemma gathers_fewer: "gathers m C \<Longrightarrow> n \<le> m \<Longrightarrow> gathers n C"
  unfolding gathers_def using le_trans by blast

lemma lacks_phase [simp]: "lacks q (Some (b\<lparr>phase := c\<rparr>)) = lacks q (Some b)"
  by (simp add: lacks_def)

lemma lacks_le: "lacks q b \<le> nat q"
  using length_filter_le [of _ "[1..q]"] by (auto simp: lacks_def split: option.split)

lemma lacks_more:
  assumes "\<And>j. writes b j \<noteq> None \<Longrightarrow> writes b' j \<noteq> None" shows "lacks q (Some b') \<le> lacks q (Some b)"
proof -
  have f: "filter (\<lambda>i. writes b' i = None) qs = filter (\<lambda>i. writes b' i = None) (filter (\<lambda>i. writes b i = None) qs)" for qs
    unfolding filter_filter using assms by (intro filter_cong [OF refl]) (metis (no_types))
  show ?thesis unfolding lacks_def option.case by (subst f) (rule length_filter_le)
qed

lemma feed_more: "writes b j \<noteq> None \<Longrightarrow> writes (feed X qs b) j \<noteq> None"
proof (induction qs arbitrary: b)
  case (Cons i qs)
  have "writes (take_write X i b) j \<noteq> None"
    using Cons.prems by (auto simp: take_write_def write_txn_def try_commit_def Let_def split: phase.split if_splits)
  with Cons.IH show ?case by (simp add: feed_def)
qed (simp add: feed_def)

lemma feed_lacks: "lacks q (Some (feed X qs b)) \<le> lacks q (Some b)"
  by (rule lacks_more) (rule feed_more)

lemma link_incomplete:
  assumes p: "has_txn E F t b p" and k: "\<not> server_key t" and tq: "in_int32 t" "1 \<le> q" "q < 2147483647"
    and b: "pending q b" "agrees q X b" "\<not> unbroken (writes b) q"
    and g: "genEcho E (commit_header E t q) '' '' = Ok pkt" and room: "gathers (lacks q (Some b)) C"
  shows "\<exists>result p'. sendReceive E (link_net k E M C) pkt p = Ok (Some result, p')
    \<and> vec_at (split_any E '' '' result) 0 = Ok ''ACK_RESEND'' \<and> has_txn E F t (b\<lparr>phase := Waiting q\<rparr>) p'
    \<and> abs_log (peer_log p') = (abs_log (peer_log p))(t \<mapsto> b\<lparr>phase := Waiting q\<rparr>)"
proof -
  let ?h = "commit_header E t q" and ?b = "b\<lparr>phase := Waiting q\<rparr>"
  have up: "peer_up E p" and bt: "abs_log (peer_log p) t = Some b" and cw: "can_write E F (lh (p_node p))" "target b \<in> set F"
    using p by (simp_all add: has_txn_defs)
  note P = peer_upD [OF up]
  have q: "in_int32 q" using tq(2,3) by (simp add: in_int32_def)
  note f = commit_header_fields [OF P(1) tq(1) q]
  have k': "\<not> server_key (getTsn E ?h)" using k f by simp
  obtain s1 where run: "commit E ?h (lh (p_node p)) = Ok (False, ''incomplete'', s1)"
    and s1: "can_write E F s1" "abs_log (log_trans s1) = (abs_log (peer_log p))(t \<mapsto> ?b)"
    using commit_works [OF P(1,4) k' P(5), of b] bt b cw tq f(2,3) by auto
  have ok: "wf_log (log_trans s1)" "getRole (log_trans s1) = Ok ''backup''"
    using commit_sim [OF P(1,4) k' run] only_at_role [OF commit_only [OF run]] k' P(5)
    by (auto simp: server_key_def)
  have w32: "\<And>j. writes ?b j \<noteq> None \<Longrightarrow> in_int32 j" using b(2) tq by (fastforce simp: agrees_def in_int32_def)
  have bt1: "abs_log (log_trans s1) t = Some ?b" "phase ?b = Waiting q" using s1(2) by simp_all
  from resend_missing [OF P(1) ok(1) tq(1) k bt1 w32] obtain ms where ms: "\<And>ss. writable ss \<Longrightarrow>
      sendACK_RESEND E t (log_trans s1) ss = Ok (ss\<lparr>sent := sent ss @ map (ask E t) (rev ms)\<rparr>)"
    and sorted: "sorted_wrt (<) ms" and set: "set ms = {i. 1 \<le> i \<and> (i \<le> q \<or> (\<exists>j. writes ?b j \<noteq> None \<and> i \<le> j)) \<and> writes ?b i = None}"
    by blast
  have bq: "writes b j \<noteq> None \<Longrightarrow> j \<le> q" for j using b(2) by (auto simp: agrees_def)
  have "set ms = set (filter (\<lambda>i. writes b i = None) [1..q])" unfolding set using bq by (auto simp del: not_None_eq intro: order_trans)
  then have len: "length ms = lacks q (Some b)"
    using strict_sorted_iff [of ms] sorted by (simp only: lacks_def option.case) (metis distinct_card distinct_filter distinct_upto)
  have "ms \<noteq> []" using b(3) set unfolding unbroken_def by fastforce
  then obtain i js where i: "rev ms = i # js" by (cases "rev ms") auto
  then have "length ms = Suc (length js)" by (metis length_Cons length_rev)
  then have js: "length (map (ask E t) js) \<le> C n" for n using room len by (simp add: gathers_def)
  have "i \<in> set ms" using i by (metis list.set_intros(1) set_rev)
  then have i1: "1 \<le> i" and iq: "i \<le> q \<or> (\<exists>j. writes b j \<noteq> None \<and> i \<le> j)" using set by auto
  have "i \<le> q" using iq b(2) unfolding agrees_def by (metis not_None_eq order_trans)
  with i1 have i32: "in_int32 i" using tq by (simp add: in_int32_def)
  let ?e = "''empty'' @ tab # lex_str E t @ tab # lex_str E i @ tab # []"
  have tk: "tokens E ?e = [''empty'', lex_str E t, lex_str E i, []]"
    using tokens_tab [OF P(1), of "''empty''"] tokens_tab [OF P(1) lex_str_plain [OF P(1) tq(1)]]
      tokens_tab [OF P(1) lex_str_plain [OF P(1) i32]] tokens_Nil [OF P(1)] by (simp add: plain_def)
  have a: "genAnswerStr E ''ACK_RESEND'' ?e ''0'' '' '' = Ok (ask E t i)"
    using genAnswerStr_shape [OF tk, of "''ACK_RESEND''" "''0''" "'' ''"] by (simp add: ask_def)
  have rd: "read_packet k E M (p_node p) ss =
      Ok (set_lh s1 (p_node p), (start (ss\<lparr>buf_b := []\<rparr>))\<lparr>sent := ask E t i # map (ask E t) js\<rparr>)"
    if "buf_b ss = pkt" "writable ss" "known ss" "isAuth (rem_ip ss) (rem_port ss) ss" "sent ss = []" for ss
    unfolding commit_arrives(1) [OF P(1) tq(1) q g that(1)]
    using commit_arrives(2) [OF P(1) tq(1) q g that(1)] that run ms [of "start (ss\<lparr>buf_b := []\<rparr>)"] i f(2)
    by (simp add: act_def executeCommand_def authorized_def isAuth_def start_def do_commit_cmd_def respond_simps set_lh_def)
  have "\<exists>result p'. sendReceive E (link_net k E M C) pkt p = Ok (Some result, p')
      \<and> take 4 (split_any E '' '' result) = [''ACK_RESEND'', lex_str E t, lex_str E i, ''0'']
      \<and> p_node p' = set_lh s1 (p_node p) \<and> peer_up E p'"
    by (rule link_request [OF up rd tk _ lex_str_plain [OF P(1) tq(1)] lex_str_plain [OF P(1) i32] zero_field(1) _ a _ _ js])
      (use ok in \<open>simp_all add: set_lh_def plain_def\<close>)
  then obtain result p' where x: "sendReceive E (link_net k E M C) pkt p = Ok (Some result, p')"
    "take 4 (split_any E '' '' result) = [''ACK_RESEND'', lex_str E t, lex_str E i, ''0'']"
    "p_node p' = set_lh s1 (p_node p)" "peer_up E p'" by blast
  from fields_at(1) [OF x(2)] x s1 cw(2) show ?thesis
    by (intro exI [of _ result] exI [of _ p']) (simp add: has_txn_defs set_lh_def)
qed

section \<open>A transaction that is not there\<close>

text \<open>The packet that creates it on the backup.\<close>

lemma link_make:
  assumes up: "peer_up E p" and n: "abs_log (peer_log p) t = None" and cw: "can_write E F (lh (p_node p))" "f \<in> set F"
    and k: "\<not> server_key t" and w: "packet_is E 6 t i (h, f)" and g: "genEcho E h f = Ok pkt"
  shows "\<exists>result p'. sendReceive E (link_net k E M C) pkt p = Ok (Some result, p') \<and>
    (if length f < 2 then p_node p' = p_node p \<and> peer_up E p'
     else has_txn E F t (fresh_txn f) p' \<and> abs_log (peer_log p') = (abs_log (peer_log p))(t \<mapsto> fresh_txn f))"
proof -
  note P = peer_upD [OF up]
  have "carries_data 6" by (simp add: carries_data_def)
  from data_arrives [OF P(1) w this g, of k M] obtain x y z d where tk: "tokens E (header_line x y z d) = [x, y, z, d]"
    and pl: "plain y" "plain z" and h: "parse E (header_line x y z d) = Ok 6"
      "getTsn E (header_line x y z d) = t" "getSeq E (header_line x y z d) = i"
    and arr: "\<And>n ss. buf_b ss = pkt \<Longrightarrow> read_packet k E M n ss =
        (if length f < 2 then reject E (header_line x y z d) ''Method requires data.'' n (ss\<lparr>buf_b := []\<rparr>)
         else act k E M (header_line x y z d) f n (ss\<lparr>buf_b := []\<rparr>))" by blast
  let ?h = "header_line x y z d"
  show ?thesis
  proof (cases "length f < 2")
    case True
    obtain a where a: "genAnswerStr E ''ERROR'' ?h ''204'' ''Method requires data.'' = Ok a"
      using genAnswerStr_shape [OF tk] by blast
    have rd: "read_packet k E M (p_node p) ss = Ok (p_node p, (start (ss\<lparr>buf_b := []\<rparr>))\<lparr>sent := [a]\<rparr>)"
      if "buf_b ss = pkt" "writable ss" "known ss" "isAuth (rem_ip ss) (rem_port ss) ss" "sent ss = []" for ss
      unfolding arr [OF that(1)] using True that a
      by (simp add: reject_def answer_def sendACK_def start_def)
    have "\<exists>result p'. sendReceive E (link_net k E M C) pkt p = Ok (Some result, p')
        \<and> take 4 (split_any E '' '' result) = [''ERROR'', y, z, ''204''] \<and> p_node p' = p_node p \<and> peer_up E p'"
      by (rule link_request [OF up rd tk _ pl _ _ a P(4,5)]) (simp_all add: plain_def)
    with True show ?thesis by auto
  next
    case False
    let ?s = "(lh (p_node p))\<lparr>log_trans := open_txn t f (peer_log p)\<rparr>"
    obtain s1 where s1: "save E ?s = Ok s1" "log_trans s1 = open_txn t f (peer_log p)" "can_write E F s1"
      using save_works [of E F ?s] cw(1) by auto
    have none: "om_find (peer_log p) t = None" using n k by (simp add: abs_log_find)
    have run: "makeTxn E f t (lh (p_node p)) = Ok (True, s1)" using s1(1) none by (simp add: makeTxn_def)
    note sim = open_txn_sim [OF P(4) none k, of f]
    have role: "getRole (log_trans s1) = Ok ''backup''"
      using only_at_role [OF makeTxn_only [OF run]] k P(5) by (simp add: server_key_def)
    obtain a where a: "genAnswerStr E ''ACK'' ?h ''0'' ''Created'' = Ok a" using genAnswerStr_shape [OF tk] by blast
    have rd: "read_packet k E M (p_node p) ss = Ok (set_lh s1 (p_node p), (start (ss\<lparr>buf_b := []\<rparr>))\<lparr>sent := [a]\<rparr>)"
      if "buf_b ss = pkt" "writable ss" "known ss" "isAuth (rem_ip ss) (rem_port ss) ss" "sent ss = []" for ss
      unfolding arr [OF that(1)] using False that h a run
      by (simp add: act_def executeCommand_def authorized_def isAuth_def do_make_txn_def answer_def sendACK_def
          respond_simps start_def)
    have "\<exists>result p'. sendReceive E (link_net k E M C) pkt p = Ok (Some result, p')
        \<and> take 4 (split_any E '' '' result) = [''ACK'', y, z, ''0''] \<and> p_node p' = set_lh s1 (p_node p) \<and> peer_up E p'"
      by (rule link_request [OF up rd tk _ pl zero_field(1) _ a]) (use sim s1 role in \<open>simp_all add: set_lh_def plain_def\<close>)
    then obtain result p' where "sendReceive E (link_net k E M C) pkt p = Ok (Some result, p')"
      "p_node p' = set_lh s1 (p_node p)" "peer_up E p'" by blast
    moreover have "target (fresh_txn f) = f" by (simp add: fresh_txn_def)
    ultimately show ?thesis using False sim s1 cw(2) by (simp add: has_txn_defs set_lh_def)
  qed
qed

section \<open>The rounds of a commit\<close>

text \<open>
  The primary's transaction \<open>t\<close>: the number \<open>q\<close> of its commit, its file \<open>f\<close>, and the writes
  \<open>P i\<close> (header and data) up to \<open>q\<close>, all of them packets the backup can take.
\<close>

definition stored :: "env \<Rightarrow> log \<Rightarrow> int \<Rightarrow> int \<Rightarrow> string \<Rightarrow> (int \<Rightarrow> string \<times> string) \<Rightarrow> bool" where
  "stored E l t q f P \<longleftrightarrow> is_primary l \<and> \<not> server_key t \<and> in_int32 t \<and> 1 \<le> q \<and> q < 2147483647 \<and>
     getFileName l t = Ok f \<and> getStatusData l t = Ok q \<and> packet_is E 6 t (- 1) (make_header E t, f) \<and>
     (\<forall>i. 1 \<le> i \<and> i \<le> q \<longrightarrow>
        getHeader l t i = Ok (fst (P i)) \<and> getData l t i = Ok (snd (P i)) \<and> write_packet E t i (P i))"

abbreviation data_of :: "(int \<Rightarrow> string \<times> string) \<Rightarrow> int \<Rightarrow> string" where
  "data_of P \<equiv> \<lambda>i. snd (P i)"

text \<open>The primary with another queue and another world.\<close>

definition requeued :: "(string \<times> string) list \<Rightarrow> bool \<Rightarrow> 'w \<Rightarrow> 'w node \<Rightarrow> 'w node" where
  "requeued Q b w n = (upd_rm (\<lambda>r. r\<lparr>syncQueue := Q, show_warning := b\<rparr>) n)\<lparr>wld := w\<rparr>"

lemma requeued_sel [simp]:
  "lh (requeued Q b w n) = lh n" "wld (requeued Q b w n) = w" "syncQueue (rm (requeued Q b w n)) = Q"
  "alive (rm (requeued Q b w n)) = alive (rm n)" "requeued Q' b' w' (requeued Q b w n) = requeued Q' b' w' n"
  "upd_rm (\<lambda>r. r\<lparr>show_warning := c\<rparr>) (requeued Q b w n) = requeued Q c w n"
  by (simp_all add: requeued_def upd_rm_def)

lemma enqueue_all:
  assumes "is_primary (node_log n)"
    and "\<forall>i \<in> set qs. getHeader (node_log n) t i = Ok (fst (P i)) \<and> getData (node_log n) t i = Ok (snd (P i))"
  shows "enqueue_writes t qs n = Ok (upd_rm (\<lambda>r. r\<lparr>syncQueue := syncQueue r @ map P qs\<rparr>) n)"
  using assms
proof (induction qs arbitrary: n)
  case (Cons i qs)
  let ?n = "upd_rm (\<lambda>r. r\<lparr>syncQueue := syncQueue r @ [P i]\<rparr>) n"
  from Cons.IH [of ?n] Cons.prems show ?case by (simp add: enqueue_primary upd_rm_def)
qed (simp add: upd_rm_def)

text \<open>The backup lacks writes: they are all queued, and \<open>commit\<close> calls itself.\<close>

lemma round_incomplete:
  assumes st: "stored E (node_log n) t q f P" and al: "alive (rm n)"
    and dr: "drain E (link_net k E M C) (syncQueue (rm n)) (wld n) = Ok (False, [], p)"
    and p: "has_txn E F t b p" and b: "pending q b" "agrees q X b" "\<not> unbroken (writes b) q"
    and room: "gathers (lacks q (Some b)) C"
  shows "\<exists>p'. rm_commit (Suc (Suc j)) E (link_net k E M C) (commit_header E t q) n =
      bnd (rm_commit (Suc j) E (link_net k E M C) (commit_header E t q) (requeued (map P [1..q]) False p' n))
        (\<lambda>(r, n3). Ok (r, upd_rm (\<lambda>r. r\<lparr>show_warning := True\<rparr>) n3))
    \<and> has_txn E F t (b\<lparr>phase := Waiting q\<rparr>) p'
    \<and> abs_log (peer_log p') = (abs_log (peer_log p))(t \<mapsto> b\<lparr>phase := Waiting q\<rparr>)"
proof -
  have up: "peer_up E p" using p by (simp add: has_txn_defs)
  have E: "text_ok E" by (rule peer_upD(1) [OF up])
  have role: "is_primary (node_log n)" and k: "\<not> server_key t" and tq: "in_int32 t" "1 \<le> q" "q < 2147483647"
    and sd: "getStatusData (node_log n) t = Ok q"
    and wr: "\<forall>i \<in> set [1..q]. getHeader (node_log n) t i = Ok (fst (P i)) \<and> getData (node_log n) t i = Ok (snd (P i))"
    using st by (simp_all add: stored_def)
  have q: "in_int32 q" using tq by (simp add: in_int32_def)
  note g = commit_packet(1) [OF E tq(1) q]
  from link_incomplete [OF p k tq b g room, of k M] obtain result p' where
    r: "sendReceive E (link_net k E M C) (header_line ''COMMIT'' (lex_str E t) (lex_str E q) ''0'' @ crlf @ crlf @ crlf) p
      = Ok (Some result, p')" and v: "vec_at (split_any E '' '' result) 0 = Ok ''ACK_RESEND''"
    and p': "has_txn E F t (b\<lparr>phase := Waiting q\<rparr>) p'"
      "abs_log (peer_log p') = (abs_log (peer_log p))(t \<mapsto> b\<lparr>phase := Waiting q\<rparr>)" by blast
  let ?n1 = "(upd_rm (\<lambda>r. r\<lparr>syncQueue := []\<rparr>) n)\<lparr>wld := p'\<rparr>"
  have "enqueue_writes t [1..q] ?n1 = Ok (upd_rm (\<lambda>r. r\<lparr>syncQueue := syncQueue r @ map P [1..q]\<rparr>) ?n1)"
    using enqueue_all [of ?n1 "[1..q]" t P] role wr by simp
  then have "commit_reply E (link_net k E M C) (commit_header E t q) False result ?n1 =
      Ok (Resend (requeued (map P [1..q]) False p' n))"
    using v sd tq commit_header_fields(2) [OF E tq(1) q]
    by (simp add: commit_reply_def Let_def seq_range_def requeued_def upd_rm_def)
  then have "rm_commit (Suc (Suc j)) E (link_net k E M C) (commit_header E t q) n =
      bnd (rm_commit (Suc j) E (link_net k E M C) (commit_header E t q) (requeued (map P [1..q]) False p' n))
        (\<lambda>(r, n3). Ok (r, upd_rm (\<lambda>r. r\<lparr>show_warning := True\<rparr>) n3))"
    by (subst rm_commit_round [OF role al dr g r]) (simp add: Let_def after_body_def)
  with p' show ?thesis by blast
qed

text \<open>The backup lacks the transaction: its creation is queued, and \<open>commit\<close> calls itself.\<close>

lemma round_absent:
  assumes st: "stored E (node_log n) t q f P" and al: "alive (rm n)"
    and dr: "drain E (link_net k E M C) (syncQueue (rm n)) (wld n) = Ok (False, [], p)"
    and up: "peer_up E p" and b: "abs_log (peer_log p) t = None"
  shows "\<exists>p'. rm_commit (Suc (Suc j)) E (link_net k E M C) (commit_header E t q) n =
      bnd (rm_commit (Suc j) E (link_net k E M C) (commit_header E t q) (requeued [(make_header E t, f)] False p' n))
        (\<lambda>(r, n3). Ok (r, upd_rm (\<lambda>r. r\<lparr>show_warning := True\<rparr>) n3))
    \<and> peer_up E p' \<and> p_node p' = p_node p"
proof -
  have E: "text_ok E" by (rule peer_upD(1) [OF up])
  have role: "is_primary (node_log n)" and k: "\<not> server_key t" and tq: "in_int32 t" "1 \<le> q" "q < 2147483647"
    and fn: "getFileName (node_log n) t = Ok f"
    using st by (simp_all add: stored_def)
  have q: "in_int32 q" using tq by (simp add: in_int32_def)
  note g = commit_packet(1) [OF E tq(1) q] and hf = commit_header_fields [OF E tq(1) q]
  let ?h = "commit_header E t q"
  obtain code where code: "genAnswerStr E ''ERROR'' ?h ''201'' ''Transaction ID not found'' = Ok code"
    using genAnswerStr_shape [OF hf(1)] by blast
  have "om_find (peer_log p) t = None" using b k by (simp add: abs_log_find)
  then have run: "commit E ?h (lh (p_node p)) = Ok (False, code, lh (p_node p))"
    using code hf(2) by (simp add: commit_def Let_def)
  have a: "if code = ''committed'' then ''ERROR'' = ''ACK'' \<and> ''201'' = ''0'' \<and> ''Transaction ID not found'' = ''Committed successfully.''
      else ''ERROR'' \<in> set answer_methods \<and> plain ''ERROR'' \<and> genAnswerStr E ''ERROR'' ?h ''201'' ''Transaction ID not found'' = Ok code"
    using code genAnswerStr_code(1) [OF code answer_methods_mem(2)] answer_methods_mem(2) by (simp add: plain_def)
  have "plain ''201''" by (simp add: plain_def)
  from link_commit [OF up k tq(1) q run a this _ g, of k M C] obtain result p' where
    r: "sendReceive E (link_net k E M C) (header_line ''COMMIT'' (lex_str E t) (lex_str E q) ''0'' @ crlf @ crlf @ crlf) p
      = Ok (Some result, p')" and v: "take 4 (split_any E '' '' result) = [''ERROR'', lex_str E t, lex_str E q, ''201'']"
    and p': "p_node p' = set_lh (lh (p_node p)) (p_node p)" "peer_up E p'" by auto
  let ?n1 = "(upd_rm (\<lambda>r. r\<lparr>syncQueue := []\<rparr>) n)\<lparr>wld := p'\<rparr>"
  have "commit_reply E (link_net k E M C) ?h False result ?n1 = Ok (Resend (requeued [(make_header E t, f)] False p' n))"
    using fields_at [OF v] fn role hf(2)
    by (simp add: commit_reply_def Let_def enqueue_primary requeued_def upd_rm_def make_header_def)
  then have "rm_commit (Suc (Suc j)) E (link_net k E M C) ?h n =
      bnd (rm_commit (Suc j) E (link_net k E M C) ?h (requeued [(make_header E t, f)] False p' n))
        (\<lambda>(r, n3). Ok (r, upd_rm (\<lambda>r. r\<lparr>show_warning := True\<rparr>) n3))"
    by (subst rm_commit_round [OF role al dr g r]) (simp add: Let_def after_body_def)
  with p' show ?thesis by (auto simp: set_lh_def)
qed

section \<open>The backup catches up\<close>

text \<open>
  From \<open>p\<close> to \<open>p'\<close> the backup has committed the transaction \<open>t\<close> with exactly the writes
  \<open>X 1\<close> to \<open>X q\<close> for the file \<open>f\<close>; its other transactions are as they were.
\<close>

definition caught_up :: "env \<Rightarrow> string list \<Rightarrow> int \<Rightarrow> int \<Rightarrow> string \<Rightarrow> (int \<Rightarrow> string) \<Rightarrow> 'v peer \<Rightarrow> 'v peer \<Rightarrow> bool" where
  "caught_up E F t q f X p p' \<longleftrightarrow> peer_works E F p' \<and>
     (\<exists>b. abs_log (peer_log p') = (abs_log (peer_log p))(t \<mapsto> b) \<and> phase b = Committed q \<and> target b = f \<and>
        (\<forall>i. writes b i = (if 1 \<le> i \<and> i \<le> q then Some (X i) else None)))"

lemma caught_up_from:
  "caught_up E F t q f X p1 p' \<Longrightarrow> abs_log (peer_log p1) = (abs_log (peer_log p))(t \<mapsto> b) \<Longrightarrow> caught_up E F t q f X p p'"
  by (auto simp: caught_up_def)

lemma agrees_all:
  assumes "agrees q X b" "unbroken (writes b) q"
  shows "writes b i = (if 1 \<le> i \<and> i \<le> q then Some (X i) else None)"
  using assms agrees_unbroken [OF assms(1)] unfolding agrees_def by (metis not_None_eq)

lemma caughtI:
  assumes "peer_works E F p'" "abs_log (peer_log p') = (abs_log (peer_log p))(t \<mapsto> b)" "phase b = Committed q"
    and "target b = f" "agrees q X b" "unbroken (writes b) q"
  shows "caught_up E F t q f X p p'"
  unfolding caught_up_def using assms agrees_all [OF assms(5,6)] by blast

lemma drained_queue:
  "(upd_rm (\<lambda>r. r\<lparr>syncQueue := []\<rparr>) n)\<lparr>wld := p\<rparr> = requeued [] (show_warning (rm n)) p n"
  by (simp add: requeued_def upd_rm_def)

lemma resend_step:
  assumes "R = bnd m (\<lambda>(r, n3). Ok (r, upd_rm (\<lambda>r. r\<lparr>show_warning := True\<rparr>) n3))"
    and "m = Ok (True, requeued [] w p' (requeued Q c u n))"
  shows "R = Ok (True, requeued [] True p' n)"
  using assms by simp

lemma feed_target: "committing_at q b \<Longrightarrow> target (feed X qs b) = target b"
  unfolding feed_def using take_write_committing by (induction qs arbitrary: b) auto

lemma resync_waiting:
  assumes st: "stored E (node_log n) t q f P" and al: "alive (rm n)" and Q: "syncQueue (rm n) = map P [1..q]"
    and p: "has_txn E F t b (wld n)" and b: "phase b = Waiting q" "agrees q (data_of P) b" "\<not> unbroken (writes b) q"
      "target b = f" and long: "\<forall>i. 1 \<le> i \<and> i \<le> q \<longrightarrow> 2 \<le> length (snd (P i))" and j: "2 \<le> j"
  shows "\<exists>w p'. rm_commit j E (link_net k E M C) (commit_header E t q) n = Ok (True, requeued [] w p' n)
    \<and> caught_up E F t q f (data_of P) (wld n) p'"
proof -
  let ?b = "feed (data_of P) [1..q] b"
  have role: "is_primary (node_log n)" and k: "\<not> server_key t" and tq: "in_int32 t" "1 \<le> q" "q < 2147483647"
    and wr: "\<forall>i \<in> set [1..q]. 1 \<le> i \<and> write_packet E t i (fst (P i), data_of P i)"
    using st by (simp_all add: stored_def)
  have q: "in_int32 q" using tq by (simp add: in_int32_def)
  have c: "committing_at q b" using b(1) by (simp add: committing_at_def)
  from drain_writes [OF p c k tq(3) wr, of k M C] obtain p1 where
    dr: "drain E (link_net k E M C) (syncQueue (rm n)) (wld n) = Ok (False, [], p1)"
    and p1: "has_txn E F t ?b p1" and a1: "abs_log (peer_log p1) = (abs_log (peer_log (wld n)))(t \<mapsto> ?b)"
    by (auto simp: Q)
  have fd: "phase ?b = Committed q" "agrees q (data_of P) ?b" "unbroken (writes ?b) q"
    using feed_completes [OF b(2,1,3) tq(2) long] by simp_all
  have "peer_up E p1" "has_commit t q (peer_log p1)"
    using p1 fd(1) by (auto simp: has_txn_defs has_commit_iff)
  from pair_round_held [OF role al dr this(1) j k tq(1) q this(2)] obtain p' where
    "rm_commit j E (link_net k E M C) (commit_header E t q) n = Ok (True, requeued [] (show_warning (rm n)) p' n)"
    "p_node p' = p_node p1" "peer_up E p'"
    unfolding drained_queue by blast
  moreover from this a1 fd p1 have "caught_up E F t q f (data_of P) (wld n) p'"
    by (intro caughtI [where b = ?b]) (simp_all add: feed_target [OF c] b(4) has_txn_defs)
  ultimately show ?thesis by blast
qed

lemma resync_pending:
  assumes st: "stored E (node_log n) t q f P" and al: "alive (rm n)"
    and dr: "drain E (link_net k E M C) (syncQueue (rm n)) (wld n) = Ok (False, [], p)"
    and p: "has_txn E F t b p" and b: "pending q b" "agrees q (data_of P) b" "target b = f"
    and long: "\<forall>i. 1 \<le> i \<and> i \<le> q \<longrightarrow> 2 \<le> length (snd (P i))" and j: "3 \<le> j"
    and room: "gathers (lacks q (Some b)) C"
  shows "\<exists>w p'. rm_commit j E (link_net k E M C) (commit_header E t q) n = Ok (True, requeued [] w p' n)
    \<and> caught_up E F t q f (data_of P) p p'"
proof (cases "unbroken (writes b) q")
  case False
  obtain i where i: "j = Suc (Suc i)" "2 \<le> Suc i"
    using j that [of "j - 2"] by simp
  let ?N = "link_net k E M C" and ?b = "b\<lparr>phase := Waiting q\<rparr>"
  from round_incomplete [OF st al dr p b(1,2) False room, of i] obtain p1 where
    r: "rm_commit (Suc (Suc i)) E ?N (commit_header E t q) n =
      bnd (rm_commit (Suc i) E ?N (commit_header E t q) (requeued (map P [1..q]) False p1 n))
        (\<lambda>(r, n3). Ok (r, upd_rm (\<lambda>r. r\<lparr>show_warning := True\<rparr>) n3))"
    and p1: "has_txn E F t ?b p1" "abs_log (peer_log p1) = (abs_log (peer_log p))(t \<mapsto> ?b)" by blast
  let ?n = "requeued (map P [1..q]) False p1 n"
  have "stored E (node_log ?n) t q f P" "alive (rm ?n)" "syncQueue (rm ?n) = map P [1..q]" "has_txn E F t ?b (wld ?n)"
    "phase ?b = Waiting q" "agrees q (data_of P) ?b" "\<not> unbroken (writes ?b) q" "target ?b = f"
    using st al p1 b False by simp_all
  from resync_waiting [OF this long i(2), of k M C] obtain w p' where
    c: "rm_commit (Suc i) E ?N (commit_header E t q) ?n = Ok (True, requeued [] w p' ?n)"
    and "caught_up E F t q f (data_of P) p1 p'" unfolding requeued_sel(2) by blast
  with resend_step [OF r c] caught_up_from [OF _ p1(2)] show ?thesis unfolding i(1) by blast
next
  case True
  have role: "is_primary (node_log n)" and k: "\<not> server_key t" and tq: "in_int32 t" "1 \<le> q" "q < 2147483647"
    using st by (simp_all add: stored_def)
  have q: "in_int32 q" using tq by (simp add: in_int32_def)
  have up: "peer_up E p" and bt: "abs_log (peer_log p) t = Some b" and cw: "can_write E F (lh (p_node p))" "target b \<in> set F"
    using p by (simp_all add: has_txn_defs)
  note P = peer_upD [OF up]
  note f = commit_header_fields [OF P(1) tq(1) q]
  have k': "\<not> server_key (getTsn E (commit_header E t q))" using k f by simp
  obtain s1 where run: "commit E (commit_header E t q) (lh (p_node p)) = Ok (False, ''committed'', s1)"
    and s1: "can_write E F s1" "abs_log (log_trans s1) = (abs_log (peer_log p))(t \<mapsto> b\<lparr>phase := Committed q\<rparr>)"
    using commit_works [OF P(1,4) k' P(5), of b] bt b cw tq f(2,3) True by auto
  have j2: "2 \<le> j" using j by simp
  from pair_round_drain [OF role al dr up j2 k tq(1) q run, of "''ACK''" "''0''" "''Committed successfully.''"]
  obtain p' where "rm_commit j E (link_net k E M C) (commit_header E t q) n = Ok (True, requeued [] (show_warning (rm n)) p' n)"
    "p_node p' = set_lh s1 (p_node p)" "peer_up E p'"
    unfolding drained_queue using zero_field(1) by auto
  moreover from this s1 b True have "caught_up E F t q f (data_of P) p p'"
    by (intro caughtI [where b = "b\<lparr>phase := Committed q\<rparr>"]) (simp_all add: set_lh_def peer_works_def)
  ultimately show ?thesis by blast
qed

lemma resync_absent:
  assumes st: "stored E (node_log n) t q f P" and al: "alive (rm n)"
    and dr: "drain E (link_net k E M C) (syncQueue (rm n)) (wld n) = Ok (False, [], p)"
    and up: "peer_works E F p" and none: "abs_log (peer_log p) t = None" and fF: "f \<in> set F"
    and long: "2 \<le> length f" "\<forall>i. 1 \<le> i \<and> i \<le> q \<longrightarrow> 2 \<le> length (snd (P i))" and j: "4 \<le> j"
    and room: "gathers (nat q) C"
  shows "\<exists>w p'. rm_commit j E (link_net k E M C) (commit_header E t q) n = Ok (True, requeued [] w p' n)
    \<and> caught_up E F t q f (data_of P) p p'"
proof -
  obtain i where i: "j = Suc (Suc i)" "3 \<le> Suc i"
    using j that [of "j - 2"] by simp
  let ?N = "link_net k E M C" and ?b = "fresh_txn f"
  have up': "peer_up E p" using up by (simp add: peer_works_def)
  from round_absent [OF st al dr up' none, of i] obtain p1 where
    r: "rm_commit (Suc (Suc i)) E ?N (commit_header E t q) n =
      bnd (rm_commit (Suc i) E ?N (commit_header E t q) (requeued [(make_header E t, f)] False p1 n))
        (\<lambda>(r, n3). Ok (r, upd_rm (\<lambda>r. r\<lparr>show_warning := True\<rparr>) n3))"
    and p1: "peer_up E p1" "p_node p1 = p_node p" by blast
  let ?n = "requeued [(make_header E t, f)] False p1 n"
  have k: "\<not> server_key t" and w: "packet_is E 6 t (- 1) (make_header E t, f)" using st by (simp_all add: stored_def)
  obtain pkt where g: "genEcho E (make_header E t) f = Ok pkt"
    using w genEcho_shape by (auto simp: packet_is_def fits_def split: list.splits)
  from link_make [OF p1(1) _ _ fF k w g, of k M C] long(1) none up obtain result p2 where
    "sendReceive E ?N pkt p1 = Ok (Some result, p2)" and p2: "has_txn E F t ?b p2"
    "abs_log (peer_log p2) = (abs_log (peer_log p))(t \<mapsto> ?b)"
    unfolding p1(2) by (auto simp: peer_works_def)
  then have dr2: "drain E ?N (syncQueue (rm ?n)) (wld ?n) = Ok (False, [], p2)" using g by simp
  have b: "pending q ?b" "agrees q (data_of P) ?b" "target ?b = f"
    by (simp_all add: pending_def fresh_txn_def agrees_def)
  have "stored E (node_log ?n) t q f P" "alive (rm ?n)" using st al by simp_all
  from resync_pending [OF this dr2 p2(1) b long(2) i(2) gathers_fewer [OF room lacks_le]] obtain w p' where
    c: "rm_commit (Suc i) E ?N (commit_header E t q) ?n = Ok (True, requeued [] w p' ?n)"
    and "caught_up E F t q f (data_of P) p2 p'" by blast
  with resend_step [OF r c] caught_up_from [OF _ p2(2)] show ?thesis unfolding i(1) by blast
qed

section \<open>What never arrives\<close>

text \<open>
  A backup that lacks a write too short to be sent: it asks for the write again, the primary
  sends everything again, and \<open>commit\<close> never returns.
\<close>

lemma rm_commit_one: "is_primary (node_log n) \<Longrightarrow> rm_commit (Suc 0) E N h n = Stop Diverged"
  by simp

lemma lag_diverges:
  assumes "stored E (node_log n) t q f P" and "alive (rm n)"
    and "drain E (link_net k E M C) (syncQueue (rm n)) (wld n) = Ok (False, [], p)"
    and "has_txn E F t b p" and "pending q b" "agrees q (data_of P) b"
    and "writes b s = None" and "gathers (lacks q (Some b)) C"
    and s: "1 \<le> s" "s \<le> q" "length (snd (P s)) < 2"
  shows "rm_commit m E (link_net k E M C) (commit_header E t q) n = Stop Diverged"
  using assms(1-8)
proof (induction m arbitrary: n p b)
  case (Suc m)
  let ?N = "link_net k E M C" and ?b = "b\<lparr>phase := Waiting q\<rparr>"
  have role: "is_primary (node_log n)" and k: "\<not> server_key t" and q: "q < 2147483647"
    and wr: "\<forall>i \<in> set [1..q]. 1 \<le> i \<and> write_packet E t i (fst (P i), data_of P i)"
    using Suc.prems(1) by (simp_all add: stored_def)
  show ?case
  proof (cases m)
    case 0
    with role show ?thesis by (simp only: rm_commit_one)
  next
    case (Suc j)
    have nb: "\<not> unbroken (writes b) q" using Suc.prems(7) s(1,2) by (auto simp: unbroken_def)
    from round_incomplete [OF Suc.prems(1-6) nb Suc.prems(8), of j] obtain p1 where
      r: "rm_commit (Suc (Suc j)) E ?N (commit_header E t q) n =
        bnd (rm_commit (Suc j) E ?N (commit_header E t q) (requeued (map P [1..q]) False p1 n))
          (\<lambda>(r, n3). Ok (r, upd_rm (\<lambda>r. r\<lparr>show_warning := True\<rparr>) n3))"
      and p1: "has_txn E F t ?b p1" by blast
    let ?n = "requeued (map P [1..q]) False p1 n"
    have c: "committing_at q ?b" by (simp add: committing_at_def)
    from drain_writes [OF p1 c k q wr, of k M C] obtain p2 where
      dr: "drain E ?N (syncQueue (rm ?n)) (wld ?n) = Ok (False, [], p2)"
      and p2: "has_txn E F t (feed (data_of P) [1..q] ?b) p2"
      by auto
    have "phase ?b = Waiting q" "agrees q (data_of P) ?b" "writes ?b s = None" "\<forall>i \<in> set [1..q]. 1 \<le> i \<and> i \<le> q"
      using Suc.prems(6,7) by simp_all
    from feed_short [OF this(1-3) s this(4)] have fd: "pending q (feed (data_of P) [1..q] ?b)"
      "agrees q (data_of P) (feed (data_of P) [1..q] ?b)" "writes (feed (data_of P) [1..q] ?b) s = None"
      by (simp_all add: pending_def)
    have "stored E (node_log ?n) t q f P" "alive (rm ?n)" using Suc.prems(1,2) by simp_all
    moreover have "gathers (lacks q (Some (feed (data_of P) [1..q] ?b))) C"
      using gathers_fewer [OF Suc.prems(8)] feed_lacks [of q "data_of P" "[1..q]" ?b] by simp
    ultimately have "rm_commit m E ?N (commit_header E t q) ?n = Stop Diverged"
      by (rule Suc.IH [OF _ _ dr p2 fd])
    with Suc r show ?thesis by (simp del: rm_commit.simps)
  qed
qed simp

text \<open>A backup that lacks the transaction, and whose file's name is too short to be sent.\<close>

lemma absent_diverges:
  assumes "stored E (node_log n) t q f P" and "alive (rm n)"
    and "drain E (link_net k E M C) (syncQueue (rm n)) (wld n) = Ok (False, [], p)"
    and "peer_works E F p" and "abs_log (peer_log p) t = None" and fF: "f \<in> set F"
    and s: "length f < 2 \<or> (\<exists>i. 1 \<le> i \<and> i \<le> q \<and> length (snd (P i)) < 2)"
    and room: "2 \<le> length f \<Longrightarrow> gathers (nat q) C"
  shows "rm_commit m E (link_net k E M C) (commit_header E t q) n = Stop Diverged"
  using assms(1-5)
proof (induction m arbitrary: n p)
  case (Suc m)
  let ?N = "link_net k E M C"
  have role: "is_primary (node_log n)" and k: "\<not> server_key t"
    and w: "packet_is E 6 t (- 1) (make_header E t, f)"
    using Suc.prems(1) by (simp_all add: stored_def)
  show ?case
  proof (cases m)
    case 0
    with role show ?thesis by (simp only: rm_commit_one)
  next
    case (Suc j)
    have up: "peer_up E p" and cw: "can_write E F (lh (p_node p))" using Suc.prems(4) by (simp_all add: peer_works_def)
    from round_absent [OF Suc.prems(1-3) up Suc.prems(5), of j] obtain p1 where
      r: "rm_commit (Suc (Suc j)) E ?N (commit_header E t q) n =
        bnd (rm_commit (Suc j) E ?N (commit_header E t q) (requeued [(make_header E t, f)] False p1 n))
          (\<lambda>(r, n3). Ok (r, upd_rm (\<lambda>r. r\<lparr>show_warning := True\<rparr>) n3))"
      and p1: "peer_up E p1" "p_node p1 = p_node p" by blast
    let ?n = "requeued [(make_header E t, f)] False p1 n"
    obtain pkt where g: "genEcho E (make_header E t) f = Ok pkt"
      using w genEcho_shape by (auto simp: packet_is_def fits_def split: list.splits)
    from link_make [OF p1(1) _ _ fF k w g, of k M C] Suc.prems(5) cw obtain result p2 where
      sr: "sendReceive E ?N pkt p1 = Ok (Some result, p2)"
      and p2: "if length f < 2 then p_node p2 = p_node p \<and> peer_up E p2
         else has_txn E F t (fresh_txn f) p2 \<and> abs_log (peer_log p2) = (abs_log (peer_log p))(t \<mapsto> fresh_txn f)"
      unfolding p1(2) by auto
    have dr: "drain E ?N (syncQueue (rm ?n)) (wld ?n) = Ok (False, [], p2)" using g sr by simp
    have n: "stored E (node_log ?n) t q f P" "alive (rm ?n)" using Suc.prems(1,2) by simp_all
    have "rm_commit (Suc j) E ?N (commit_header E t q) ?n = Stop Diverged"
    proof (cases "length f < 2")
      case True
      with p2 cw Suc.prems(5) have "peer_works E F p2" "abs_log (peer_log p2) t = None"
        by (simp_all add: peer_works_def)
      from Suc.IH [OF n dr this] Suc show ?thesis by simp
    next
      case False
      with s obtain i where i: "1 \<le> i" "i \<le> q" "length (snd (P i)) < 2" by blast
      have "pending q (fresh_txn f)" "agrees q (data_of P) (fresh_txn f)" "writes (fresh_txn f) i = None"
        by (simp_all add: pending_def fresh_txn_def agrees_def)
      moreover have "has_txn E F t (fresh_txn f) p2" using p2 False by simp
      moreover have "gathers (lacks q (Some (fresh_txn f))) C" using room False gathers_fewer [OF _ lacks_le] by simp
      ultimately show ?thesis using lag_diverges [OF n dr _ _ _ _ _ i] by blast
    qed
    with Suc r show ?thesis by (simp del: rm_commit.simps)
  qed
qed simp

section \<open>The whole log\<close>

text \<open>The entry \<open>i\<close> of transaction \<open>t\<close>, header and data.\<close>

definition entry_of :: "log \<Rightarrow> int \<Rightarrow> int \<Rightarrow> string \<times> string" where
  "entry_of l t i =
     (case om_find l t of
        Some u \<Rightarrow> (case om_find u i of Some p \<Rightarrow> p | None \<Rightarrow> ([], []))
      | None \<Rightarrow> ([], []))"

text \<open>
  A transaction that the manager can send: its creation and its writes up to \<open>q\<close> are packets
  the backup takes for what they are; with \<open>long_enough\<close> none of them is too short to be sent.
\<close>

definition echoable :: "env \<Rightarrow> log \<Rightarrow> int \<Rightarrow> int \<Rightarrow> bool" where
  "echoable E l t q \<longleftrightarrow> in_int32 t \<and> q < 2147483647 \<and>
     packet_is E 6 t (- 1) (make_header E t, snd (entry_of l t 0)) \<and>
     list_all (\<lambda>i. write_packet E t i (entry_of l t i)) [1..q]"

definition long_enough :: "log \<Rightarrow> int \<Rightarrow> int \<Rightarrow> bool" where
  "long_enough l t q \<longleftrightarrow> list_all (\<lambda>i. 2 \<le> length (snd (entry_of l t i))) [0..q]"

text \<open>What the backup has of the transaction \<open>a\<close> is not in its way: an open transaction on the
  same file with some of the same writes.\<close>

definition lags :: "int \<Rightarrow> atxn \<Rightarrow> atxn \<Rightarrow> bool" where
  "lags q a b \<longleftrightarrow> pending q b \<and> target b = target a \<and>
     (\<forall>j x. writes b j = Some x \<longrightarrow> 1 \<le> j \<and> j \<le> q \<and> writes a j = Some x)"

lemma entry_of_txn:
  assumes "om_find l t = Some u" "wf_txn u" "stored_run u q"
  shows "target (abs_txn u) = snd (entry_of l t 0)" "getFileName l t = Ok (snd (entry_of l t 0))"
    "1 \<le> i \<Longrightarrow> i \<le> q \<Longrightarrow> getHeader l t i = Ok (fst (entry_of l t i)) \<and> getData l t i = Ok (snd (entry_of l t i))
      \<and> writes (abs_txn u) i = Some (snd (entry_of l t i))"
proof -
  obtain z where z: "om_find u 0 = Some z" using wf_txn_base [OF assms(2)] by (auto simp: has_base_iff)
  with assms(1) show "target (abs_txn u) = snd (entry_of l t 0)" "getFileName l t = Ok (snd (entry_of l t 0))"
    by (simp_all add: abs_txn_def entry_of_def getFileName_def entry_def)
  assume i: "1 \<le> i" "i \<le> q"
  then obtain p where "om_find u i = Some p"
    using assms(3) unfolding stored_run_def list_all_iff by fastforce
  with assms(1) i show "getHeader l t i = Ok (fst (entry_of l t i)) \<and> getData l t i = Ok (snd (entry_of l t i))
      \<and> writes (abs_txn u) i = Some (snd (entry_of l t i))"
    by (simp add: abs_txn_def entry_of_def getHeader_def getData_def entry_def)
qed

lemma echoable_stored:
  assumes wf: "wf_log l" and role: "is_primary l" and a: "abs_log l t = Some a" "phase a = Writing q \<or> phase a = Committed q"
    and e: "echoable E l t q"
  shows "stored E l t q (target a) (entry_of l t)"
    and "\<And>i. 1 \<le> i \<Longrightarrow> i \<le> q \<Longrightarrow> writes a i = Some (snd (entry_of l t i))"
proof -
  have k: "\<not> server_key t" using a(1) by (auto simp: abs_log_def split: if_splits)
  then obtain u where u: "om_find l t = Some u" and au: "a = abs_txn u" using a(1) by (auto simp: abs_log_find)
  have wt: "wf_txn u" by (rule wf_log_txn [OF wf u k])
  then obtain st d where p: "om_find u (- 1) = Some (st, d)" and ws: "wf_status u (st, d)"
    using wf_txn_status [OF wt] by (metis prod.exhaust_sel)
  have st: "st = ''WRITING'' \<or> st = ''COMMITTED''" "atoi_val d = q"
    using ws a(2) au abs_phase [OF p] by (cases rule: status_cases; auto)+
  then have q: "1 \<le> q" "stored_run u q" "in_int32 q" using ws by (auto simp: wf_status_def)
  note en = entry_of_txn [OF u wt q(2)]
  have "getStatusData l t = Ok q" using getStatusData_eval [OF u p] st(2) q(3) by (simp add: atoi_def)
  with e en k q role show "stored E l t q (target a) (entry_of l t)"
    by (simp add: stored_def echoable_def list_all_iff au)
  show "\<And>i. 1 \<le> i \<Longrightarrow> i \<le> q \<Longrightarrow> writes a i = Some (snd (entry_of l t i))" using en au by simp
qed

lemma long_enough_data:
  "long_enough l t q \<Longrightarrow> 0 \<le> q \<Longrightarrow> 2 \<le> length (snd (entry_of l t 0)) \<and> (\<forall>i. 1 \<le> i \<and> i \<le> q \<longrightarrow> 2 \<le> length (snd (entry_of l t i)))"
  by (simp add: long_enough_def list_all_iff)

text \<open>One transaction is brought to the backup, whatever it has of it.\<close>

lemma resync_txn:
  assumes wf: "wf_log (node_log n)" and role: "is_primary (node_log n)" and al: "alive (rm n)" and Q: "syncQueue (rm n) = []"
    and up: "peer_works E F (wld n)" and a: "abs_log (node_log n) t = Some a" "phase a = Writing q \<or> phase a = Committed q"
    and e: "echoable E (node_log n) t q" "long_enough (node_log n) t q" and fF: "target a \<in> set F"
    and b: "case abs_log (peer_log (wld n)) t of None \<Rightarrow> True | Some b \<Rightarrow> lags q a b" and j: "4 \<le> j"
    and room: "gathers (lacks q (abs_log (peer_log (wld n)) t)) C"
  shows "\<exists>w p'. rm_commit j E (link_net k E M C) (commit_header E t q) n = Ok (True, requeued [] w p' n)
    \<and> caught_up E F t q (target a) (data_of (entry_of (node_log n) t)) (wld n) p'"
proof -
  note st = echoable_stored [OF wf role a e(1)]
  have q: "0 \<le> q" using st(1) by (simp add: stored_def)
  note long = long_enough_data [OF e(2) q]
  have dr: "drain E (link_net k E M C) (syncQueue (rm n)) (wld n) = Ok (False, [], wld n)" using Q by simp
  have f: "snd (entry_of (node_log n) t 0) = target a" using st(1) wf by (auto simp: stored_def entry_of_def getters_Ok)
  show ?thesis
  proof (cases "abs_log (peer_log (wld n)) t")
    case None
    then have "gathers (nat q) C" using room by (simp add: lacks_def)
    from resync_absent [OF st(1) al dr up None fF _ _ j this] long f show ?thesis by simp
  next
    case (Some b)
    with b have l: "lags q a b" by simp
    then have "agrees q (data_of (entry_of (node_log n) t)) b"
      unfolding agrees_def lags_def using st(2) by (metis option.inject)
    moreover have "has_txn E F t b (wld n)" using Some up l fF by (simp add: has_txn_def lags_def)
    ultimately show ?thesis
      using resync_pending [OF st(1) al dr _ _ _ _ _, of F b] l long j room Some by (simp add: lags_def)
  qed
qed

text \<open>A commit that the backup has, or can be brought to.\<close>

definition restorable :: "env \<Rightarrow> (nat \<Rightarrow> nat) \<Rightarrow> string list \<Rightarrow> log \<Rightarrow> 'v peer \<Rightarrow> int \<Rightarrow> int \<Rightarrow> bool" where
  "restorable E C F l p t q \<longleftrightarrow> in_int32 t \<and> (has_commit t q (peer_log p) \<or>
     echoable E l t q \<and> long_enough l t q \<and> gathers (lacks q (abs_log (peer_log p) t)) C \<and>
     (case abs_log l t of
        None \<Rightarrow> False
      | Some a \<Rightarrow> target a \<in> set F \<and>
          (case abs_log (peer_log p) t of None \<Rightarrow> True | Some b \<Rightarrow> lags q a b)))"

lemma restorable_same:
  "abs_log (peer_log p') t = abs_log (peer_log p) t \<Longrightarrow> restorable E C F l p' t q = restorable E C F l p t q"
  unfolding restorable_def has_commit_def by (simp split: option.split)

lemma commit_in32:
  assumes "wf_log l" "has_commit t q l" shows "in_int32 q \<and> \<not> server_key t"
proof -
  obtain a where a: "abs_log l t = Some a" "phase a = Committed q" using assms(2) by (auto simp: has_commit_iff)
  then have k: "\<not> server_key t" by (auto simp: abs_log_def split: if_splits)
  then obtain u where u: "om_find l t = Some u" and au: "a = abs_txn u" using a(1) by (auto simp: abs_log_find)
  obtain st d where p: "om_find u (- 1) = Some (st, d)" and ws: "wf_status u (st, d)"
    using wf_txn_status [OF wf_log_txn [OF assms(1) u k]] by (metis prod.exhaust_sel)
  have "q = atoi_val d" using a(2) au abs_phase [OF p] by (auto split: if_splits)
  with wf_status_int32 [OF ws] k show ?thesis by simp
qed

text \<open>One round of the integrity check.\<close>

lemma resync_round:
  assumes wf: "wf_log (node_log n)" and role: "is_primary (node_log n)" and al: "alive (rm n)" and Q: "syncQueue (rm n) = []"
    and up: "peer_works E F (wld n)" and c: "has_commit t q (node_log n)" and r: "restorable E C F (node_log n) (wld n) t q"
    and j: "4 \<le> j"
  shows "\<exists>w p'. rm_commit j E (link_net k E M C) (commit_header E t q) n = Ok (True, requeued [] w p' n)
    \<and> peer_works E F p' \<and> has_commit t q (peer_log p')
    \<and> (\<forall>s. s \<noteq> t \<longrightarrow> abs_log (peer_log p') s = abs_log (peer_log (wld n)) s)"
proof (cases "has_commit t q (peer_log (wld n))")
  case True
  have dr: "drain E (link_net k E M C) (syncQueue (rm n)) (wld n) = Ok (False, [], wld n)" using Q by simp
  have up': "peer_up E (wld n)" and j2: "2 \<le> j" and k: "\<not> server_key t" and tq: "in_int32 t" "in_int32 q"
    using up j commit_in32 [OF wf c] r by (simp_all add: peer_works_def restorable_def)
  from pair_round_held [OF role al dr up' j2 k tq True] obtain p' where
    "rm_commit j E (link_net k E M C) (commit_header E t q) n = Ok (True, requeued [] (show_warning (rm n)) p' n)"
    "p_node p' = p_node (wld n)" "peer_up E p'" unfolding drained_queue by blast
  with up True show ?thesis
    by (intro exI [of _ "show_warning (rm n)"] exI [of _ p']) (simp add: peer_works_def)
next
  case False
  obtain a where a: "abs_log (node_log n) t = Some a" "phase a = Committed q" using c by (auto simp: has_commit_iff)
  with r False have e: "echoable E (node_log n) t q" "long_enough (node_log n) t q" "target a \<in> set F"
    "case abs_log (peer_log (wld n)) t of None \<Rightarrow> True | Some b \<Rightarrow> lags q a b"
    "gathers (lacks q (abs_log (peer_log (wld n)) t)) C"
    by (simp_all add: restorable_def)
  from resync_txn [OF wf role al Q up a(1) _ e(1-4) j e(5)] a(2) obtain w p' where
    "rm_commit j E (link_net k E M C) (commit_header E t q) n = Ok (True, requeued [] w p' n)"
    "caught_up E F t q (target a) (data_of (entry_of (node_log n) t)) (wld n) p'" by blast
  then show ?thesis by (auto simp: caught_up_def has_commit_iff intro!: exI [of _ w] exI [of _ p'])
qed

abbreviation commit_header_of :: "env \<Rightarrow> int \<times> int \<Rightarrow> string" where
  "commit_header_of E c \<equiv> commit_header E (fst c) (snd c)"

lemma resync_commits:
  assumes "wf_log (node_log n)" and "is_primary (node_log n)" and "alive (rm n)" and "syncQueue (rm n) = []"
    and "peer_works E F (wld n)" and "distinct (map fst cs)" and "length cs + 5 \<le> j"
    and "\<forall>c \<in> set cs. has_commit (fst c) (snd c) (node_log n) \<and> restorable E C F (node_log n) (wld n) (fst c) (snd c)"
  shows "\<exists>p'. check_commits j E (link_net k E M C) (map (commit_header_of E) cs) n = Ok (True, requeued [] True p' n)
    \<and> peer_works E F p' \<and> (\<forall>c \<in> set cs. has_commit (fst c) (snd c) (peer_log p'))
    \<and> (\<forall>t. t \<notin> fst ` set cs \<longrightarrow> abs_log (peer_log p') t = abs_log (peer_log (wld n)) t)"
  using assms
proof (induction cs arbitrary: n j rule: rev_induct)
  case Nil
  then obtain i where "j = Suc i" by (metis Suc_le_D add.commute add_Suc_right eval_nat_numeral(3) list.size(3))
  with Nil show ?case
    by (intro exI [of _ "wld n"]) (simp add: check_passed_def Let_def requeued_def upd_rm_def)
next
  case (snoc c cs)
  let ?N = "link_net k E M C"
  obtain i where j: "j = Suc i" "length cs + 5 \<le> i" using snoc.prems(7) by (cases j) auto
  have c: "has_commit (fst c) (snd c) (node_log n)" "restorable E C F (node_log n) (wld n) (fst c) (snd c)"
    using snoc.prems(8) by simp_all
  have i4: "4 \<le> i" using j(2) by simp
  from resync_round [OF snoc.prems(1-5) c i4] obtain w p1 where
    r: "rm_commit i E ?N (commit_header_of E c) n = Ok (True, requeued [] w p1 n)" and up: "peer_works E F p1"
    and held: "has_commit (fst c) (snd c) (peer_log p1)"
    and same: "\<And>s. s \<noteq> fst c \<Longrightarrow> abs_log (peer_log p1) s = abs_log (peer_log (wld n)) s" by blast
  let ?n = "requeued [] w p1 n"
  have ne: "fst d \<noteq> fst c" if "d \<in> set cs" for d using snoc.prems(6) that by (auto simp: rev_image_eqI)
  have "restorable E C F (node_log ?n) (wld ?n) (fst d) (snd d)" if "d \<in> set cs" for d
    using restorable_same [OF same [OF ne [OF that]], of E C F] snoc.prems(8) that by simp
  then have "\<exists>p'. check_commits i E ?N (map (commit_header_of E) cs) ?n = Ok (True, requeued [] True p' ?n)
    \<and> peer_works E F p' \<and> (\<forall>c \<in> set cs. has_commit (fst c) (snd c) (peer_log p'))
    \<and> (\<forall>t. t \<notin> fst ` set cs \<longrightarrow> abs_log (peer_log p') t = abs_log (peer_log (wld ?n)) t)"
    using snoc.prems up j(2) by (intro snoc.IH) auto
  then obtain p' where p': "check_commits i E ?N (map (commit_header_of E) cs) ?n = Ok (True, requeued [] True p' n)"
    "peer_works E F p'" "\<forall>c \<in> set cs. has_commit (fst c) (snd c) (peer_log p')"
    "\<forall>t. t \<notin> fst ` set cs \<longrightarrow> abs_log (peer_log p') t = abs_log (peer_log p1) t"
    unfolding requeued_sel by blast
  have "fst c \<notin> fst ` set cs" using snoc.prems(6) by simp
  then have "has_commit (fst c) (snd c) (peer_log p')" using p'(4) held by (simp add: has_commit_def)
  with p' r j(1) same show ?case by (intro exI [of _ p']) (simp del: rm_commit.simps)
qed

end
