(* ===== verification/Wire.thy ===== *)
theory Wire
  imports Resync
begin

text \<open>
  What a server stores and queues for its backup is well formed on the wire: every write
  under its number is a packet that the backup takes for that write, every file name can be
  sent in the packet that creates its transaction, and everything in the queue arrives as one
  packet. Every event of a server keeps this.
\<close>

section \<open>Logs that can be sent\<close>

definition wire_txn :: "env \<Rightarrow> int \<Rightarrow> txn \<Rightarrow> bool" where
  "wire_txn E k t \<longleftrightarrow> in_int32 k \<and>
     (case om_find t 0 of Some p \<Rightarrow> packet_is E 6 k (- 1) (make_header E k, snd p) | None \<Rightarrow> True) \<and>
     list_all (\<lambda>q. q < 1 \<or> in_int32 q \<and> (case om_find t q of Some p \<Rightarrow> write_packet E k q p | None \<Rightarrow> True))
       (om_keys t)"

definition wire_log :: "env \<Rightarrow> log \<Rightarrow> bool" where
  "wire_log E l \<longleftrightarrow>
     list_all (\<lambda>k. server_key k \<or> (case om_find l k of Some t \<Rightarrow> wire_txn E k t | None \<Rightarrow> True)) (om_keys l)"

lemma wire_txn_iff:
  "wire_txn E k t \<longleftrightarrow> in_int32 k \<and> (\<forall>p. om_find t 0 = Some p \<longrightarrow> packet_is E 6 k (- 1) (make_header E k, snd p))
     \<and> (\<forall>q p. 1 \<le> q \<longrightarrow> om_find t q = Some p \<longrightarrow> in_int32 q \<and> write_packet E k q p)"
proof -
  have "(\<forall>q \<in> set (om_keys t). q < 1 \<or> in_int32 q \<and> (case om_find t q of Some p \<Rightarrow> write_packet E k q p | None \<Rightarrow> True))
    \<longleftrightarrow> (\<forall>q p. 1 \<le> q \<longrightarrow> om_find t q = Some p \<longrightarrow> in_int32 q \<and> write_packet E k q p)"
    by (force simp: om.keys_iff not_less split: option.splits)
  then show ?thesis by (auto simp: wire_txn_def list_all_iff split: option.split)
qed

lemma wire_log_iff:
  "wire_log E l \<longleftrightarrow> (\<forall>k t. \<not> server_key k \<longrightarrow> om_find l k = Some t \<longrightarrow> wire_txn E k t)"
  by (fastforce simp: wire_log_def list_all_iff om.keys_iff split: option.splits)

lemma wire_txnD:
  assumes "wire_log E l" "\<not> server_key k" "om_find l k = Some t"
  shows "wire_txn E k t"
  using assms by (simp add: wire_log_iff)

text \<open>
  A log that has no transaction, no file name and no write that another does not have: status
  entries may differ, transactions may be gone.
\<close>

definition narrows :: "log \<Rightarrow> log \<Rightarrow> bool" where
  "narrows l l' \<longleftrightarrow> (\<forall>k t'. \<not> server_key k \<longrightarrow> om_find l' k = Some t' \<longrightarrow>
     (\<exists>t. om_find l k = Some t \<and> map_option snd (om_find t' 0) = map_option snd (om_find t 0)
        \<and> (\<forall>q \<ge> 1. om_find t' q = om_find t q)))"

named_theorems narrowing "operations that add nothing to the log"

lemma narrows_refl [simp]: "narrows l l"
  by (simp add: narrows_def)

lemma narrows_trans [trans]: "narrows a b \<Longrightarrow> narrows b c \<Longrightarrow> narrows a c"
  unfolding narrows_def by metis

lemma narrows_wire:
  assumes "narrows l l'" "wire_log E l" shows "wire_log E l'"
proof -
  have "wire_txn E k t'" if k: "\<not> server_key k" and t': "om_find l' k = Some t'" for k t'
  proof -
    obtain t where t: "om_find l k = Some t" "map_option snd (om_find t' 0) = map_option snd (om_find t 0)"
      "\<forall>q \<ge> 1. om_find t' q = om_find t q"
      using assms(1) k t' unfolding narrows_def by blast
    from wire_txnD [OF assms(2) k t(1)] t(2,3) show ?thesis
      unfolding wire_txn_iff by (cases "om_find t 0") auto
  qed
  then show ?thesis by (simp add: wire_log_iff)
qed

lemma narrows_same: "(\<And>k. \<not> server_key k \<Longrightarrow> om_find l' k = om_find l k) \<Longrightarrow> narrows l l'"
  by (simp add: narrows_def)

section \<open>Operations that add nothing\<close>

lemma set_entry_narrows:
  assumes "set_entry l k q f = Ok l'" "q = - 1 \<or> q = 0 \<and> (\<forall>p. snd (f p) = snd p)"
  shows "narrows l l'"
  using assms by (auto simp: set_entry_Ok narrows_def om_simps split: if_splits) (metis prod.collapse)

lemma change_narrows [narrowing]:
  "changeStatus l k x = Ok l' \<Longrightarrow> narrows l l'"
  "changeStatusZ l k x = Ok l' \<Longrightarrow> narrows l l'"
  "changeStatusData l k x = Ok l' \<Longrightarrow> narrows l l'"
  by (auto simp: change_defs elim!: set_entry_narrows)

lemma save_narrows [narrowing]: "save E s = Ok s' \<Longrightarrow> narrows (log_trans s) (log_trans s')"
  by (simp add: save_log)

lemma erase_narrows: "om_ok l \<Longrightarrow> narrows l (om_erase k l)"
  by (simp add: narrows_def om_simps)

lemma refuse_narrows [narrowing]: "refuse E h mt c e s = Ok (r, code, s') \<Longrightarrow> s' = s"
  by (auto simp: refuse_def)

interpretation narrow: log_frame "\<lambda>k. narrows"
proof
  show "narrows l l" for l by simp
  show "narrows a b \<Longrightarrow> narrows b c \<Longrightarrow> narrows a c" for a b c by (rule narrows_trans)
  show "changeStatus l k x = Ok l' \<Longrightarrow> narrows l l'" for l k x l' by (rule change_narrows)
  show "changeStatusData l k x = Ok l' \<Longrightarrow> narrows l l'" for l k x l' by (rule change_narrows)
qed

lemmas commit_narrows [narrowing] = narrow.commit_frame

lemma abort_narrows [narrowing]:
  assumes "om_ok (log_trans s)" "abort_txn E h s = Ok (r, c, s')" shows "narrows (log_trans s) (log_trans s')"
  using assms erase_narrows by (auto simp: abort_txn_def refuse_def Let_def split: if_splits)

lemma commit_local_narrows [narrowing]:
  "commit_local E k s = Ok s' \<Longrightarrow> narrows (log_trans s) (log_trans s')"
  by (auto simp: commit_local_def split: if_splits dest!: save_log writeFile_log change_narrows)

lemma branchE: "(if P then a else b) = c \<Longrightarrow> (a = c \<Longrightarrow> Q) \<Longrightarrow> (b = c \<Longrightarrow> Q) \<Longrightarrow> Q"
  by (cases P) simp_all

lemma timeout_one_changes:
  assumes "timeout_one l k = Ok l'"
  shows "l' = l \<or> (\<exists>x. changeStatus l k x = Ok l') \<or> (\<exists>x. changeStatusZ l k x = Ok l')"
  using assms unfolding timeout_one_def
  by (elim branchE bndE) auto

lemma timeout_one_narrows: "timeout_one l k = Ok l' \<Longrightarrow> narrows l l'"
  using timeout_one_changes change_narrows narrows_refl by metis

lemma timeouts_loop_narrows: "timeouts_loop ks l = Ok l' \<Longrightarrow> narrows l l'"
  by (induction ks arbitrary: l) (auto dest!: timeout_one_narrows intro: narrows_trans)

lemma tm_check_narrows [narrowing]: "tm_check E t s = Ok (t', s') \<Longrightarrow> narrows (log_trans s) (log_trans s')"
  by (auto simp: tm_check_def timeouts_def Let_def split: if_splits dest!: save_log timeouts_loop_narrows)

lemma stays_narrows: "stays s s' \<Longrightarrow> om_ok (log_trans s) \<Longrightarrow> narrows (log_trans s) (log_trans s')"
  using stays_find by (intro narrows_same) (auto simp: server_key_def)

lemma serverData_narrows: "om_ok l \<Longrightarrow> narrows l (serverData ip port role dir l)"
  by (intro narrows_same) (auto simp: serverData_find server_key_def)

lemma backupServerData_narrows: "backupServerData E x l = Ok l' \<Longrightarrow> narrows l l'"
  by (auto simp: backupServerData_def Let_def om_simps server_key_def intro!: narrows_same)

section \<open>Packets that arrive\<close>

lemma token_plain:
  assumes "text_ok E" "nl \<notin> set h" "cr \<notin> set h" "p \<in> set (tokens E h)"
  shows "plain p"
proof -
  have "set p \<subseteq> set h"
    using text_lib.spl_within [OF assms(1) [unfolded text_ok_def]] assms(4) by (simp add: tokens_def)
  with tokens_no_ws [OF assms(1,4)] assms(2,3) show ?thesis by (auto simp: plain_def)
qed

lemma meth_long: "meth a \<noteq> 0 \<Longrightarrow> 4 \<le> length a"
  by (auto simp: meth_def method_map_def split: if_splits)

text \<open>A header that the session accepted, with the data that came with it.\<close>

lemma header_fits:
  assumes E: "text_ok E" and h: "validHeader E h" "nl \<notin> set h" "cr \<notin> set h"
    and i: "parse E h = Ok i" "i \<noteq> 0" "proper E i h"
    and x: "nl \<notin> set x" "int (length x) < 2147483647" "length x < 2 \<or> carries_data i"
  shows "fits E (h, x)"
proof -
  obtain a b c d where t: "tokens E h = [a, b, c, d]" using validHeader_tokens [OF h(1)] by blast
  then have "plain a" "plain b" "plain c" using token_plain [OF E h(2,3)] by simp_all
  moreover have m: "meth a = i" using i(1) t by (auto simp: parse_def meth_def)
  moreover have "8 \<le> length (header_line a b c ''0'')"
    using meth_long [of a] m i(2) by (simp add: header_line_def)
  ultimately show ?thesis using t i(3) x by (simp add: fits_def)
qed

lemma minus_one: "text_ok E \<Longrightarrow> lex_int E ''-1'' = Some (- 1)" "plain ''-1''"
proof -
  have d: "decimal (- 1) = ''-1''" by code_simp
  show "text_ok E \<Longrightarrow> lex_int E ''-1'' = Some (- 1)"
    unfolding text_ok_def d [symmetric] by (rule text_lib.lint_decimal) simp_all
qed (simp add: plain_def)

lemma make_packet:
  assumes E: "text_ok E" and k: "in_int32 k" "\<not> server_key k" and x: "nl \<notin> set x" "int (length x) < 2147483647"
  shows "packet_is E 6 k (- 1) (make_header E k, x)"
proof -
  have h: "make_header E k = header_line ''MAKE_TXN'' (lex_str E k) ''-1'' ''0''"
    by (simp add: make_header_def header_line_def iToS_def)
  have p: "plain ''MAKE_TXN''" "plain (lex_str E k)" using E k by (simp_all add: plain_def [of "''MAKE_TXN''"])
  note p = p minus_one(2) zero_field(1)
  have m: "meth ''MAKE_TXN'' = 6" by code_simp
  then have cd: "carries_data (meth ''MAKE_TXN'')" by (simp add: carries_data_def)
  note f = header_fields [OF E p]
  have t: "getTsn E (make_header E k) = k" "getSeq E (make_header E k) = - 1"
    using E k minus_one by (simp_all add: h f)
  have "8 \<le> length (header_line ''MAKE_TXN'' (lex_str E k) ''-1'' ''0'')" by (simp add: header_line_def)
  then have "fits E (make_header E k, x)"
    using tokens_header [OF E p] p x k t(1) cd by (simp add: fits_def h proper_def)
  with t f(1) m show ?thesis by (simp add: packet_is_def h)
qed

text \<open>The packet that creates a transaction at once, as \<open>newTxn\<close> leads to it.\<close>

lemma new_packet_fits:
  assumes E: "text_ok E" and k: "in_int32 k" "\<not> server_key k" and x: "nl \<notin> set x" "int (length x) < 2147483647"
  shows "fits E (''MAKE_TXN '' @ lex_str E k @ '' 0 0 0'', x)"
proof -
  let ?h = "''MAKE_TXN '' @ lex_str E k @ '' 0 0 0''"
  have p: "plain ''MAKE_TXN''" "plain (lex_str E k)" using E k by (simp_all add: plain_def [of "''MAKE_TXN''"])
  have "?h = ''MAKE_TXN'' @ CHR '' '' # (lex_str E k @ CHR '' '' # (''0'' @ CHR '' '' # (''0'' @ CHR '' '' # ''0'')))"
    by simp
  then have t: "tokens E ?h = [''MAKE_TXN'', lex_str E k, ''0'', ''0'', ''0'']"
    by (simp only: tokens_blank [OF E p(1)] tokens_blank [OF E p(2)] tokens_blank [OF E zero_field(1)]
        tokens_last [OF E zero_field(1)])
  have "meth ''MAKE_TXN'' = 6" by code_simp
  moreover have "getTsn E ?h = k" using t E k by (simp add: getTsn_def)
  moreover have "carries_data 6" by (simp add: carries_data_def)
  ultimately show ?thesis
    using t p x k by (simp add: fits_def proper_def header_line_def)
qed

section \<open>Operations that add\<close>

lemma wire_insert:
  assumes w: "wire_log E l" and ok: "om_ok t" and t: "om_find l (getTsn E h) = Some t" and q: "1 \<le> getSeq E h"
    and p: "write_packet E (getTsn E h) (getSeq E h) (h, x)" "in_int32 (getSeq E h)"
  shows "wire_log E (om_put (getTsn E h) (om_insert (getSeq E h) (h, x) t) l)"
proof -
  have "wire_txn E (getTsn E h) (om_insert (getSeq E h) (h, x) t)" if "\<not> server_key (getTsn E h)"
    using wire_txnD [OF w that t] ok q p unfolding wire_txn_iff
    by (auto simp: om_simps split: option.splits)
  with w show ?thesis by (auto simp: wire_log_iff om_simps)
qed

lemma wire_open:
  assumes w: "wire_log E l" and k: "in_int32 k" and ok: "om_find l k = None"
    and p: "packet_is E 6 k (- 1) (make_header E k, f)"
  shows "wire_log E (open_txn k f l)"
proof -
  have "wire_txn E k (om_insert 0 (''NEW_TXN'', f) (om_insert (- 1) (''ACTIVE'', ''0'') []))"
    using k p by (simp add: wire_txn_iff)
  with w ok show ?thesis by (auto simp: wire_log_iff open_txn_def om_simps)
qed

lemma addLogEntry_wire:
  assumes E: "text_ok E" and wf: "wf_log (log_trans s)" and w: "wire_log E (log_trans s)"
    and k: "\<not> server_key (getTsn E h)" and p: "write_packet E (getTsn E h) (getSeq E h) (h, x)"
    and run: "addLogEntry E h x s = Ok (r, c, s')"
  shows "wire_log E (log_trans s')"
proof (cases "s' = s")
  case False
  let ?k = "getTsn E h" and ?q = "getSeq E h"
  from run False obtain status n t where t: "om_find (log_trans s) ?k = Some t" "1 \<le> ?q"
    and st: "store_entry E h x status n t s = Ok (r, c, s')" and n: "in_int32 n"
    by (auto simp: addLogEntry_def refuse_def Let_def split: if_splits option.splits dest: getStatusData_in32)
  let ?l = "om_put ?k (om_insert ?q (h, x) t) (log_trans s)"
  have "om_ok t" using wf_log_txn [OF wf t(1) k] by (simp add: wf_txn_def has_base_def)
  from wire_insert [OF w this t p getSeq_in32 [OF E]] have l: "wire_log E ?l" .
  have "narrows ?l (log_trans s')"
    using st commit_narrows [of E "fake_header E ?k n" "s\<lparr>log_trans := ?l\<rparr>" r c s']
    by (auto simp: store_entry_def Let_def split: if_splits dest: change_narrows)
  from narrows_wire [OF this l] show ?thesis .
qed (simp add: w)

lemma newTxn_wire:
  assumes E: "text_ok E" "random_ok E" and w: "wire_log E (log_trans s)"
    and x: "nl \<notin> set x" "int (length x) < 2147483647" and run: "newTxn E x s = Ok (rn, s')"
  shows "wire_log E (log_trans s') \<and> (rn \<noteq> 0 \<longrightarrow> in_int32 rn \<and> \<not> server_key rn)"
proof (cases "posix_name E x")
  case True
  with run obtain k where d: "draw_tsn E (log_trans s) (rng s) = Some (rn, k)"
    and s': "log_trans s' = open_txn rn x (log_trans s)"
    by (auto simp: newTxn_def split: option.splits dest!: save_Ok)
  have "1 \<le> rn" "rn \<le> 100000" "om_find (log_trans s) rn = None"
    using draw_tsn_result [OF d] E(2) by (auto simp: random_ok_def)
  then have k: "in_int32 rn" "\<not> server_key rn" "om_find (log_trans s) rn = None"
    by (simp_all add: in_int32_def server_key_def)
  from wire_open [OF w k(1,3) make_packet [OF E(1) k(1,2) x]] s' k show ?thesis by simp
next
  case False
  with run w show ?thesis by (auto simp: newTxn_def)
qed

lemma makeTxn_wire:
  assumes E: "text_ok E" and w: "wire_log E (log_trans s)" and k: "in_int32 k" "\<not> server_key k"
    and x: "nl \<notin> set x" "int (length x) < 2147483647" and run: "makeTxn E x k s = Ok (b, s')"
  shows "wire_log E (log_trans s')"
  using run w wire_open [OF w k(1) _ make_packet [OF E k x]]
  by (auto simp: makeTxn_def split: if_splits dest!: save_log)

section \<open>What the resynchronisation needs\<close>

text \<open>On a well-formed log that can be sent, a commit can be echoed with all its writes.\<close>

lemma wire_echoable:
  assumes wf: "wf_log l" and w: "wire_log E l" and a: "abs_log l t = Some a" "phase a = Writing q \<or> phase a = Committed q"
    and q: "q < 2147483647"
  shows "echoable E l t q"
proof -
  have k: "\<not> server_key t" using a(1) by (auto simp: abs_log_def split: if_splits)
  then obtain u where u: "om_find l t = Some u" and au: "a = abs_txn u" using a(1) by (auto simp: abs_log_find)
  have wt: "wf_txn u" by (rule wf_log_txn [OF wf u k])
  then obtain st d where p: "om_find u (- 1) = Some (st, d)" and ws: "wf_status u (st, d)"
    using wf_txn_status [OF wt] by (metis prod.exhaust_sel)
  have "st = ''WRITING'' \<or> st = ''COMMITTED''" "atoi_val d = q"
    using ws a(2) au abs_phase [OF p] by (cases rule: status_cases; auto)+
  then have run: "stored_run u q" using ws by (auto simp: wf_status_def)
  have wire: "in_int32 t" "\<forall>p. om_find u 0 = Some p \<longrightarrow> packet_is E 6 t (- 1) (make_header E t, snd p)"
    "\<forall>i p. 1 \<le> i \<longrightarrow> om_find u i = Some p \<longrightarrow> write_packet E t i p"
    using wire_txnD [OF w k u] by (auto simp: wire_txn_iff)
  obtain z where "om_find u 0 = Some z" using wf_txn_base [OF wt] by (auto simp: has_base_iff)
  then have "packet_is E 6 t (- 1) (make_header E t, snd (entry_of l t 0))"
    using u wire(2) by (simp add: entry_of_def)
  moreover have "write_packet E t i (entry_of l t i)" if i: "i \<in> set [1..q]" for i
  proof -
    from i run obtain x where "om_find u i = Some x" by (fastforce simp: stored_run_def list_all_iff)
    with i u wire(3) show ?thesis by (cases x) (auto simp: entry_of_def)
  qed
  ultimately show ?thesis using wire(1) q by (simp add: echoable_def list_all_iff)
qed

end
