(* ===== verification/Replication_Properties.thy ===== *)
theory Replication_Properties
  imports Cluster Demo Log_Properties
begin

text \<open>
  The properties of the replication: the commit of a session on the primary, what
  \<open>ReplicationManager::commit\<close> may answer, its queue, and the change of roles.
\<close>

definition demo_peer :: "string \<Rightarrow> string \<Rightarrow> unit peer" where
  "demo_peer status n = \<lparr>p_node = demo_node False [] () (demo ''backup'' status n),
     p_sess = Some (doAuth ''127.0.0.1'' 40000 (start (Session_init ''127.0.0.1'' 40000))), p_reads = 0, p_late = False\<rparr>"

lemma demo_pair_in_order:
  "pair_in_order ref_env (demo_node True [] (demo_peer ''ACTIVE'' ''0'') (demo ''primary'' ''WRITING'' ''2''))"
proof -
  let ?n = "demo_node True [] (demo_peer ''ACTIVE'' ''0'') (demo ''primary'' ''WRITING'' ''2'')"
  have l: "lh ?n = demo ''primary'' ''WRITING'' ''2''" "rm ?n = demo_rm True []" "wld ?n = demo_peer ''ACTIVE'' ''0''"
    by (simp_all add: demo_node_def)
  have p: "peer_log (demo_peer ''ACTIVE'' ''0'') = log_trans (demo ''backup'' ''ACTIVE'' ''0'')"
    by (simp add: demo_peer_def demo_node_def)
  have "is_primary (log_trans (demo ''primary'' ''WRITING'' ''2''))"
    "sendable (fits ref_env) ref_env (log_trans (demo ''primary'' ''WRITING'' ''2''))"
    "getRole (log_trans (demo ''backup'' ''ACTIVE'' ''0'')) = Ok ''backup''"
    by code_simp+
  moreover have "p_sess (demo_peer ''ACTIVE'' ''0'') =
      Some (doAuth ''127.0.0.1'' 40000 (start (Session_init ''127.0.0.1'' 40000)))"
    by (simp add: demo_peer_def)
  ultimately show ?thesis
    using demo_wf(2,3)
    by (simp add: pair_in_order_def peer_ready_def peer_sound_def l p demo_rm_def doAuth_def start_def Session_init_def)
qed

section \<open>The commit of a session\<close>

text \<open>What the transaction's number on disk and in the commit message is.\<close>

lemma writing_number:
  assumes wf: "wf_log l" and k: "\<not> server_key k" and a: "abs_log l k = Some a" "phase a = Writing q"
  shows "getStatusData l k = Ok q \<and> 1 \<le> q \<and> in_int32 q"
proof -
  obtain t where t: "om_find l k = Some t" and at: "a = abs_txn t"
    using a(1) k by (auto simp: abs_log_find)
  then obtain st d where p: "om_find t (- 1) = Some (st, d)" and ws: "wf_status t (st, d)"
    using wf_txn_status [OF wf_log_txn [OF wf t k]] by (metis prod.exhaust_sel)
  have st: "st = ''WRITING''" "atoi_val d = q"
    using a(2) at abs_phase [OF p] by (auto split: if_splits)
  with ws have "1 \<le> q" "in_int32 q" by (auto simp: wf_status_def)
  moreover from this st have "getStatusData l k = Ok q"
    using getStatusData_eval [OF t p] by (simp add: atoi_def)
  ultimately show ?thesis by simp
qed

text \<open>Where the primary's own commit stops: its file cannot be opened, or the log cannot be saved.\<close>

lemma commit_local_stops:
  assumes wf: "wf_log (log_trans s)" and k: "\<not> server_key k"
    and a: "abs_log (log_trans s) k = Some a" "phase a = Writing q" and q: "q < 2147483647"
    and run: "commit_local E k s = Stop e"
  shows "e = Exited (- 1) \<and> fd_sink E True (target a) (txn_text a q) (created E (files s) (target a)) = None
    \<or> e = Thrown \<and> (\<exists>s1. save E s1 = Stop Thrown)"
proof -
  obtain t where t: "om_find (log_trans s) k = Some t" and at: "a = abs_txn t"
    using a(1) k by (auto simp: abs_log_find)
  note base = wf_txn_base [OF wf_log_txn [OF wf t k]]
  obtain st d where p: "om_find t (- 1) = Some (st, d)" and ws: "wf_status t (st, d)"
    using wf_txn_status [OF wf_log_txn [OF wf t k]] by (metis prod.exhaust_sel)
  obtain z f where z: "om_find t 0 = Some (z, f)" using base by (auto simp: has_base_iff)
  have f: "target a = f" by (simp add: at abs_txn_def z)
  have st: "st = ''WRITING''" "atoi_val d = q" using a(2) at abs_phase [OF p] by (auto split: if_splits)
  with ws have n: "1 \<le> q" "in_int32 q" "stored_run t q" by (auto simp: wf_status_def)
  then have ev: "getFileName (log_trans s) k = Ok f" "getStatusData (log_trans s) k = Ok q" "seq_range q = Ok [1..q]"
    using t z st(2) q by (simp_all add: getFileName_def entry_def getStatusData_eval [OF t p] atoi_def seq_range_def)
  let ?d = "created E (files s) f"
  have w: "writeFile E k s = (case fd_sink E True f (txn_text a q) ?d of
      Some d2 \<Rightarrow> Ok (True, s\<lparr>files := d2\<rparr>) | None \<Rightarrow> Ok (False, s\<lparr>files := ?d\<rparr>))"
    using stored_run_collect [OF t n(3)] by (simp add: writeFile_def ev Let_def at)
  show ?thesis
  proof (cases "fd_sink E True f (txn_text a q) ?d")
    case None
    with run w f show ?thesis by (simp add: commit_local_def)
  next
    case (Some d2)
    then obtain l where "save E (s\<lparr>files := d2, log_trans := l\<rparr>) = Stop e"
      using run w changeStatus_eval [OF t p, of "''COMMITTED''"] by (auto simp: commit_local_def)
    moreover from this have "e = Thrown" by (auto simp: save_def split: option.splits)
    ultimately show ?thesis by blast
  qed
qed

text \<open>How a session's commit on the primary can fail to end.\<close>

lemma doCommit_stops:
  assumes wf: "wf_log (node_log n)" and k: "\<not> server_key (getTsn E h)" and role: "is_primary (node_log n)"
    and a: "abs_log (node_log n) (getTsn E h) = Some a" "phase a = Writing q" and q: "q < 2147483647"
    and h: "3 \<le> length (tokens E h)" and run: "doCommit j E N h n ss = Stop e"
  shows "rm_commit j E N (commit_header E (getTsn E h) q) n = Stop e
    \<or> (\<exists>b n1. rm_commit j E N (commit_header E (getTsn E h) q) n = Ok (b, n1) \<and>
        (b \<and> e = Exited (- 1) \<and> fd_sink E True (target a) (txn_text a q) (created E (files (lh n1)) (target a)) = None
         \<or> e = Thrown \<and> (\<not> writable ss \<or> (\<exists>s. save E s = Stop Thrown))))"
proof -
  have ok: "om_ok (node_log n)" by (rule wf_log_ok [OF wf])
  note num = writing_number [OF wf k a]
  then have msg: "commit_message E h q = commit_header E (getTsn E h) q"
    by (simp add: commit_message_def commit_header_def)
  have ans: "\<exists>x. genAnswerStr E mt h no t = Ok x" for mt no t using genAnswerStr_defined h by blast
  obtain ack err where ack: "genAnswerStr E ''ACK'' h ''0'' ''Committed successfully.'' = Ok ack"
    and err: "genAnswerStr E ''ERROR'' h ''205'' ''commit fail, i/o error'' = Ok err"
    using ans by blast
  show ?thesis
  proof (cases "rm_commit j E N (commit_header E (getTsn E h) q) n")
    case (Stop f)
    with run role ack num msg show ?thesis by (simp add: doCommit_def)
  next
    case (Ok r)
    obtain b n1 where r: "r = (b, n1)" by (metis surj_pair)
    from Ok r have rm: "rm_commit j E N (commit_header E (getTsn E h) q) n = Ok (b, n1)" by simp
    note stay = manager_stays(1) [OF rm]
    have l1: "wf_log (node_log n1)" "abs_log (node_log n1) (getTsn E h) = Some a"
      using stays_wf [OF stay wf] stays_abs [OF stay ok] a(1) by simp_all
    show ?thesis
    proof (cases b)
      case True
      have "commit_local E (getTsn E h) (lh n1) = Stop e \<or> e = Thrown \<and> \<not> writable ss"
        using run role ack num msg rm True
        by (cases "commit_local E (getTsn E h) (lh n1)") (auto simp: doCommit_def sendACK_def split: if_splits)
      with commit_local_stops [OF l1(1) k l1(2) a(2) q] True rm show ?thesis by blast
    next
      case False
      with run role ack err num msg rm have "e = Thrown" "\<not> writable ss"
        by (auto simp: doCommit_def answer_def sendACK_def split: if_splits)
      with rm show ?thesis by blast
    qed
  qed
qed

text \<open>C3: The promise of the README, and where it ends. A session's commit on the primary that
  ends does so in one of two ways. Either the client is told \<open>Committed successfully\<close>; then the
  data is in the file, the transaction is committed, and the backup has acknowledged the
  commit or is gone and has it first in line when it returns. Or the client is told that the
  commit failed; then no transaction and no file has changed. A commit that does not end, or
  ends the program, does so in one of three: the manager's call does not return or stops (as
  in \<open>short_data_hangs\<close>); the backup has acknowledged the commit, or it is queued, and the
  primary cannot open its own file, so that it exits with \<open>-1\<close> and the two servers differ; or
  an exception leaves the handler behind the manager's call, since the client is gone or the
  log cannot be saved. The message has its first three fields, as one that comes to a commit
  has, and the number of the commit is below the largest \<open>int\<close>.\<close>

theorem commit_all_or_nothing:
  assumes "files_ok E" and "wf_log (node_log n)" and "\<not> server_key (getTsn E h)" and "3 \<le> length (tokens E h)"
    and "is_primary (node_log n)"
    and "abs_log (node_log n) (getTsn E h) = Some a" and "phase a = Writing q" and "q < 2147483647"
    and "target a \<noteq> fileName"
  shows "case doCommit j E N h n ss of
      Ok (n', ss') \<Rightarrow>
        (\<exists>ack. genAnswerStr E ''ACK'' h ''0'' ''Committed successfully.'' = Ok ack \<and> sent ss' = sent ss @ [ack]
          \<and> abs_log (node_log n') = (abs_log (node_log n))(getTsn E h \<mapsto> a\<lparr>phase := Committed q\<rparr>)
          \<and> file_text (files (lh n')) (target a) = file_text (files (lh n)) (target a) @ txn_text a q
          \<and> (acked E N (commit_header E (getTsn E h) q) n' \<or> queued (commit_header E (getTsn E h) q) n'))
        \<or> (\<exists>err. genAnswerStr E ''ERROR'' h ''205'' ''commit fail, i/o error'' = Ok err \<and> sent ss' = sent ss @ [err]
          \<and> abs_log (node_log n') = abs_log (node_log n) \<and> files (lh n') = files (lh n)
          \<and> alive (rm n') \<and> syncQueue (rm n') = [])
    | Stop e \<Rightarrow>
        rm_commit j E N (commit_header E (getTsn E h) q) n = Stop e
        \<or> (\<exists>n1. rm_commit j E N (commit_header E (getTsn E h) q) n = Ok (True, n1) \<and> e = Exited (- 1)
            \<and> (acked E N (commit_header E (getTsn E h) q) n1 \<or> queued (commit_header E (getTsn E h) q) n1)
            \<and> fd_sink E True (target a) (txn_text a q) (created E (files (lh n)) (target a)) = None)
        \<or> (\<exists>b n1. rm_commit j E N (commit_header E (getTsn E h) q) n = Ok (b, n1) \<and> e = Thrown
            \<and> (\<not> writable ss \<or> (\<exists>s. save E s = Stop Thrown)))"
proof (cases "doCommit j E N h n ss")
  case (Stop e)
  have ok: "om_ok (node_log n)" by (rule wf_log_ok [OF assms(2)])
  have "files (lh n1) = files (lh n)" "b \<Longrightarrow> acked E N m n1 \<or> queued m n1"
    if "rm_commit j E N m n = Ok (b, n1)" for b n1 m
    using manager_stays(1) [OF that] rm_commit_outcome [OF that ok assms(5)] by (simp_all add: stays_def)
  with doCommit_stops [OF assms(2,3,5-8,4) Stop] Stop show ?thesis by fastforce
next
  case (Ok r)
  note wf = assms(2) and k = assms(3)
  have ok: "om_ok (node_log n)" by (rule wf_log_ok [OF wf])
  note num = writing_number [OF wf k assms(6,7)]
  then have msg: "commit_message E h q = commit_header E (getTsn E h) q"
    by (simp add: commit_message_def commit_header_def)
  obtain n' ss' where r: "r = (n', ss')" by (metis surj_pair)
  with Ok have run: "doCommit j E N h n ss = Ok (n', ss')" by simp
  from assms(1-3,5-7) run show ?thesis
  proof (cases rule: doCommit_primary)
    case (through ack seq n1)
    have seq: "seq = q" using num through(2) by simp
    have abs: "abs_log (node_log n1) = abs_log (node_log n)" by (rule stays_abs [OF through(8) ok])
    have "files (lh n1) = files (lh n)" using through(8) by (simp add: stays_def)
    moreover have "acked E N (commit_header E (getTsn E h) q) n1 \<or> queued (commit_header E (getTsn E h) q) n1"
      using rm_commit_outcome [OF through(1) ok assms(5)] by (simp add: seq msg)
    then have "acked E N (commit_header E (getTsn E h) q) n' \<or> queued (commit_header E (getTsn E h) q) n'"
      by (simp add: acked_def queued_def through(4,5))
    ultimately show ?thesis
      using commit_local_sim [OF assms(1) stays_wf [OF through(8) wf] k _ assms(7) through(3)] abs assms(6,9)
        through(6,7) run by simp
  next
    case (stopped err seq)
    have "alive (rm n')" "syncQueue (rm n') = []"
      using rm_commit_outcome [OF stopped(1) ok assms(5)] by simp_all
    with stopped stays_abs [OF stopped(5) ok] run show ?thesis by (simp add: stays_def)
  qed
qed

lemma commit_all_or_nothing_witness:
  "\<exists>n' ss'. doCommit 9 ref_env script_net ''COMMIT 7 2 0''
       (demo_node True [] [ack_reply] (demo ''primary'' ''WRITING'' ''2'')) (demo_session []) = Ok (n', ss') \<and>
     (alive (rm n') \<and> syncQueue (rm n') = [] \<or> queued (commit_header ref_env 7 2) n')"
proof -
  let ?s = "demo ''primary'' ''WRITING'' ''2''" and ?h = "''COMMIT 7 2 0''"
  let ?n = "demo_node True [] [ack_reply] ?s"
  have l: "lh ?n = ?s" by (simp add: demo_node_def)
  have k: "\<not> server_key (getTsn ref_env ?h)" "is_primary (log_trans ?s)" "getTsn ref_env ?h = 7"
    "3 \<le> length (tokens ref_env ?h)" by code_simp+
  have t: "om_find (log_trans ?s) 7 = Some (demo_txn ''WRITING'' ''2'')" by code_simp
  have "atoi_val ''2'' = 2" by code_simp
  then have a: "abs_log (log_trans ?s) (getTsn ref_env ?h) = Some (abs_txn (demo_txn ''WRITING'' ''2''))"
    "phase (abs_txn (demo_txn ''WRITING'' ''2'')) = Writing 2" "target (abs_txn (demo_txn ''WRITING'' ''2'')) \<noteq> fileName"
    using t by (simp_all add: abs_log_def server_key_def k(3)) (simp_all add: abs_txn_def demo_txn_def fileName_def)
  have "is_ok (doCommit 9 ref_env script_net ?h ?n (demo_session []))" by code_simp
  then obtain n' ss' where run: "doCommit 9 ref_env script_net ?h ?n (demo_session []) = Ok (n', ss')"
    by (auto simp: is_ok_ex)
  from commit_all_or_nothing [where E = ref_env and n = ?n and h = ?h and q = 2 and j = 9 and N = script_net and ss = "demo_session []"] run
    demo_wf(3) k a l
  show ?thesis by (auto simp: acked_def)
qed

text \<open>C4: What the client is told on the primary is true of the backup as well, however the
  network hands out the backup's answers: in a pair in order a commit that ends with the
  connection standing and the transaction committed on the primary leaves the same
  transaction committed with the same number on the backup, unless a read has left an answer
  of the backup in the socket, where a later read takes it for its own
  (\<open>late_answer_decides\<close>); and in no case is a commit that the backup had lost on the way.\<close>

theorem commit_replicated:
  assumes "pair_in_order E n" and "\<not> server_key (getTsn E h)"
    and "abs_log (node_log n) (getTsn E h) = Some a" and "phase a = Writing q"
    and "doCommit j E (link_net k E M C) h n ss = Ok (n', ss')"
  shows "(has_commit (getTsn E h) q (node_log n') \<and> alive (rm n') \<longrightarrow>
        has_commit (getTsn E h) q (peer_log (wld n')) \<or> p_late (wld n'))
    \<and> (\<forall>t i. has_commit t i (peer_log (wld n)) \<longrightarrow> has_commit t i (peer_log (wld n')))"
proof -
  have wf: "wf_log (node_log n)" and role: "is_primary (node_log n)"
    using assms(1) by (simp_all add: pair_in_order_def)
  have E: "files_ok E" "text_ok E"
    using assms(1) by (simp_all add: pair_in_order_def peer_sound_def libs_ok_def)
  note num = writing_number [OF wf assms(2,3,4)]
  with getTsn_in32 [OF E(2)] have "pair.commit_of E (commit_message E h q) (getTsn E h) q"
    using assms(2) by (simp add: pair.commit_of_def commit_message_def commit_header_def)
  note held = pair_commit_held [OF assms(1) this]
  from E(1) wf assms(2) role assms(3,4,5) show ?thesis
  proof (cases rule: doCommit_primary)
    case (through ack seq n1)
    have seq: "seq = q" using num through(2) by simp
    from held [OF through(1) [unfolded seq]] show ?thesis
      by (simp add: through(4,5) pair.advances_def peer_holds_def)
  next
    case (stopped err seq)
    have seq: "seq = q" using num stopped(2) by simp
    have "\<not> has_commit (getTsn E h) q (node_log n')"
      using stays_abs [OF stopped(5) wf_log_ok [OF wf]] assms(3,4) by (simp add: has_commit_iff)
    with held(1) [OF stopped(1) [unfolded seq]] show ?thesis
      by (simp add: pair.advances_def peer_holds_def)
  qed
qed

lemma commit_replicated_witness:
  "\<exists>n' ss'. doCommit 9 ref_env (link_net 9 ref_env dead_net (\<lambda>i. 0)) ''COMMIT 7 2 0''
       (demo_node True [] (demo_peer ''ACTIVE'' ''0'') (demo ''primary'' ''WRITING'' ''2'')) (demo_session [])
       = Ok (n', ss') \<and> has_commit 7 2 (node_log n') \<and> \<not> p_late (wld n') \<and> has_commit 7 2 (peer_log (wld n'))"
proof -
  let ?s = "demo ''primary'' ''WRITING'' ''2''" and ?h = "''COMMIT 7 2 0''"
  let ?n = "demo_node True [] (demo_peer ''ACTIVE'' ''0'') ?s"
  let ?run = "doCommit 9 ref_env (link_net 9 ref_env dead_net (\<lambda>i. 0)) ?h ?n (demo_session [])"
  have l: "lh ?n = ?s" by (simp add: demo_node_def)
  have k: "\<not> server_key (getTsn ref_env ?h)" "getTsn ref_env ?h = 7" by code_simp+
  have t: "om_find (log_trans ?s) 7 = Some (demo_txn ''WRITING'' ''2'')" by code_simp
  have "atoi_val ''2'' = 2" by code_simp
  then have a: "abs_log (log_trans ?s) (getTsn ref_env ?h) = Some (abs_txn (demo_txn ''WRITING'' ''2''))"
    "phase (abs_txn (demo_txn ''WRITING'' ''2'')) = Writing 2"
    using t by (simp_all add: abs_log_def server_key_def k(2)) (simp add: abs_txn_def demo_txn_def)
  have "case ?run of Ok (n', ss') \<Rightarrow> has_commit 7 2 (node_log n') \<and> alive (rm n') \<and> \<not> p_late (wld n') | Stop e \<Rightarrow> False"
    by code_simp
  then obtain n' ss' where run: "?run = Ok (n', ss')" "has_commit 7 2 (node_log n')" "alive (rm n')" "\<not> p_late (wld n')"
    by (auto split: res.splits)
  from commit_replicated [OF demo_pair_in_order k(1) _ a(2) run(1)] a(1) l k(2) run show ?thesis
    by auto
qed

text \<open>C8: Over a connection that stands, with nothing queued, a commit is not only safe but ends,
  within two calls, the way the backup decides it: the manager reports success exactly when the
  backup's own \<open>commit\<close> committed, and failure when it refused with an error. The backup is in
  the state its commit left, the primary is untouched, and the connection is ready for the next
  commit.\<close>

theorem backup_decides:
  assumes "is_primary (node_log n)" and "alive (rm n)" and "syncQueue (rm n) = []"
    and "peer_up E (wld n)" and "2 \<le> j"
    and "\<not> server_key t" and "in_int32 t" and "in_int32 q"
    and "commit E (commit_header E t q) (lh (p_node (wld n))) = Ok (False, code, s1)"
    and "code = ''committed'' \<or>
      genAnswerStr E ''ERROR'' (commit_header E t q) no e = Ok code \<and> no \<noteq> ''201'' \<and> plain no \<and> length e < 2147483647"
  shows "\<exists>p. rm_commit j E (link_net k E M C) (commit_header E t q) n = Ok (code = ''committed'', n\<lparr>wld := p\<rparr>)
    \<and> lh (p_node p) = s1 \<and> peer_up E p"
proof (cases "code = ''committed''")
  case True
  from pair_round [OF assms(1-9), of "''ACK''" "''0''" "''Committed successfully.''" k M C] True zero_field(1)
  show ?thesis by (auto simp: set_lh_def)
next
  case False
  with assms(10) have a: "if code = ''committed'' then ''ERROR'' = ''ACK'' \<and> no = ''0'' \<and> e = ''Committed successfully.''
      else ''ERROR'' \<in> set answer_methods \<and> plain ''ERROR'' \<and> genAnswerStr E ''ERROR'' (commit_header E t q) no e = Ok code"
    and no: "plain no" "length e < 2147483647" "no \<noteq> ''201''"
    using answer_methods_mem by (simp_all add: plain_def [of "''ERROR''"])
  from pair_round [OF assms(1-9) a no(1,2), of k M C] no(3) False show ?thesis by (auto simp: set_lh_def)
qed

lemma backup_decides_witness:
  "\<exists>p. rm_commit 2 ref_env (link_net 9 ref_env dead_net (\<lambda>i. 0)) (commit_header ref_env 7 2)
       (demo_node True [] (demo_peer ''ACTIVE'' ''0'') (demo ''primary'' ''WRITING'' ''2''))
     = Ok (True, (demo_node True [] (demo_peer ''ACTIVE'' ''0'') (demo ''primary'' ''WRITING'' ''2''))\<lparr>wld := p\<rparr>)
     \<and> has_commit 7 2 (peer_log p)"
proof -
  let ?p = "demo_peer ''ACTIVE'' ''0''" and ?h = "commit_header ref_env 7 2"
  let ?n = "demo_node True [] ?p (demo ''primary'' ''WRITING'' ''2'')"
  have n: "alive (rm ?n)" "syncQueue (rm ?n) = []" "wld ?n = ?p" "node_log ?n = log_trans (demo ''primary'' ''WRITING'' ''2'')"
    by (simp_all add: demo_node_def demo_rm_def)
  have role: "is_primary (log_trans (demo ''primary'' ''WRITING'' ''2''))" by code_simp
  have up: "peer_up ref_env ?p"
    using demo_pair_in_order n(1,3)
    by (simp add: pair_in_order_def peer_up_def) (simp add: demo_peer_def isAuth_def doAuth_def start_def Session_init_def)
  have "case commit ref_env ?h (lh (p_node ?p)) of
      Ok (r, c, s1) \<Rightarrow> \<not> r \<and> c = ''committed'' \<and> has_commit 7 2 (log_trans s1) | Stop e \<Rightarrow> False" by code_simp
  then obtain s1 where c: "commit ref_env ?h (lh (p_node ?p)) = Ok (False, ''committed'', s1)"
    "has_commit 7 2 (log_trans s1)" by (auto split: res.splits)
  have k: "\<not> server_key 7" "in_int32 7" "in_int32 2" by (simp_all add: server_key_def in_int32_def)
  from backup_decides [of ?n ref_env 2 7 2 "''committed''" s1 "''''" "''''" 9 dead_net "\<lambda>i. 0"] n role up c k
  show ?thesis by auto
qed

section \<open>The manager\<close>

text \<open>The manager never touches a transaction or a file: a commit it negotiates, a push of
  its queue and an integrity check leave every entry of the log but that of the registered
  backup, and every file, as they are.\<close>

lemma manager_frame:
  assumes "om_ok (node_log n)" and "primaryOps k E N n = Ok n'" and "p \<noteq> - 1"
  shows "om_find (node_log n') p = om_find (node_log n) p \<and> files (lh n') = files (lh n)
    \<and> (om_find (node_log n') (- 1) = om_find (node_log n) (- 1) \<or> om_find (node_log n') (- 1) = None)"
  using manager_stays(2) [OF assms(2)] stays_find [OF _ assms(1,3)] assms(1)
  unfolding stays_def by metis

lemma manager_frame_witness:
  "\<exists>n'. primaryOps 5 ref_env script_net (demo_node True [(''ABORT 9 0 0'', '' '')] [ack_reply]
       (demo ''primary'' ''ACTIVE'' ''0'')) = Ok n' \<and>
     om_find (node_log n') 7 = Some (demo_txn ''ACTIVE'' ''0'')"
proof -
  let ?n = "demo_node True [(''ABORT 9 0 0'', '' '')] [ack_reply] (demo ''primary'' ''ACTIVE'' ''0'')"
  have "is_ok (primaryOps 5 ref_env script_net ?n)" by code_simp
  then obtain n' where run: "primaryOps 5 ref_env script_net ?n = Ok n'" by (auto simp: is_ok_ex)
  have l: "lh ?n = demo ''primary'' ''ACTIVE'' ''0''" by (simp add: demo_node_def)
  have t: "om_find (log_trans (demo ''primary'' ''ACTIVE'' ''0'')) 7 = Some (demo_txn ''ACTIVE'' ''0'')"
    "om_ok (log_trans (demo ''primary'' ''ACTIVE'' ''0''))"
    by code_simp (rule wf_log_ok [OF demo_wf(1)])
  from manager_frame [OF _ run, of 7] t run l show ?thesis by auto
qed

text \<open>C20: The queue is pushed first in, first out and without loss: what a push leaves behind
  is the end of the queue, everything before it was sent and answered in order, and the
  connection counts as lost exactly when something is left.\<close>

theorem push_in_order:
  assumes "push_queue E N n = Ok n'" and "alive (rm n)"
  shows "\<exists>p w. syncQueue (rm n) = p @ syncQueue (rm n') \<and> answered E N p (wld n) = Some w
    \<and> (alive (rm n') \<longleftrightarrow> syncQueue (rm n') = [])"
proof -
  from assms(1) obtain threw q w where d: "drain E N (syncQueue (rm n)) (wld n) = Ok (threw, q, w)"
    and n': "n' = (upd_rm (\<lambda>r. r\<lparr>syncQueue := q, alive := alive r \<and> \<not> threw\<rparr>) n)\<lparr>wld := w\<rparr>"
    by (auto simp: push_queue_def)
  from drain_prefix [OF d] obtain p w1 where "syncQueue (rm n) = p @ q" "answered E N p (wld n) = Some w1"
    "threw = (q \<noteq> [])" by blast
  with n' assms(2) show ?thesis by (intro exI [of _ p] exI [of _ w1]) simp
qed

lemma push_in_order_witness:
  "\<exists>n'. push_queue ref_env script_net (demo_node True [(''ABORT 9 0 0'', '' ''), (''ABORT 8 0 0'', '' '')] [ack_reply]
       (demo ''primary'' ''ACTIVE'' ''0'')) = Ok n' \<and>
     (alive (rm n') \<longleftrightarrow> syncQueue (rm n') = []) \<and> syncQueue (rm n') = [(''ABORT 8 0 0'', '' '')]"
proof -
  let ?n = "demo_node True [(''ABORT 9 0 0'', '' ''), (''ABORT 8 0 0'', '' '')] [ack_reply] (demo ''primary'' ''ACTIVE'' ''0'')"
  have "case push_queue ref_env script_net ?n of Ok n' \<Rightarrow> syncQueue (rm n') = [(''ABORT 8 0 0'', '' '')] | Stop e \<Rightarrow> False"
    by code_simp
  then obtain n' where run: "push_queue ref_env script_net ?n = Ok n'" "syncQueue (rm n') = [(''ABORT 8 0 0'', '' '')]"
    by (auto split: res.splits)
  have "alive (rm ?n)" by (simp add: demo_node_def demo_rm_def)
  from push_in_order [OF run(1) this] run show ?thesis by blast
qed

text \<open>The fuel only says when to stop looking: a result that \<open>commit\<close> has with some fuel it
  has with all larger fuel, so two runs that both return agree.\<close>

lemma fuel_irrelevant:
  assumes "rm_commit k E N h n \<noteq> Stop Diverged" and "k \<le> j"
  shows "rm_commit j E N h n = rm_commit k E N h n"
  using fuel_mono [OF assms(2)] assms(1) unfolding below_def by metis

lemma fuel_irrelevant_witness:
  "rm_commit 20 ref_env script_net ''COMMIT 7 2 0'' (demo_node True [] [ack_reply] (demo ''primary'' ''WRITING'' ''2'')) =
   rm_commit 5 ref_env script_net ''COMMIT 7 2 0'' (demo_node True [] [ack_reply] (demo ''primary'' ''WRITING'' ''2''))"
proof -
  have "is_ok (rm_commit 5 ref_env script_net ''COMMIT 7 2 0''
      (demo_node True [] [ack_reply] (demo ''primary'' ''WRITING'' ''2'')))" by code_simp
  then show ?thesis by (intro fuel_irrelevant) (auto simp: is_ok_ex)
qed

text \<open>A well-formed log knows its server's address.\<close>

lemma own_address:
  assumes "wf_log l"
  shows "\<exists>ip port dir. getIpThis l = Ok ip \<and> getPortThis l = Ok port \<and> getNetDir l = Ok dir"
proof -
  obtain t r d where t: "om_find l 0 = Some t" "om_find t (- 1) = Some (r, d)" and "has_base t"
    using wf_log_role [OF assms] by blast
  then obtain ip port where "om_find t 0 = Some (ip, port)" by (auto simp: has_base_iff)
  with t show ?thesis by (simp add: getIpThis_def getPortThis_def getNetDir_def entry_def)
qed

text \<open>A connection attempt changes the client and the world, and nothing else of the manager.\<close>

lemma connect_rm: "connect_node E N n = (b, n') \<Longrightarrow> \<exists>c. rm n' = (rm n)\<lparr>cl := c\<rparr>"
  by (auto simp: connect_node_def split: prod.splits)

lemma stuck_integrity:
  assumes role: "getRole (node_log n) = Ok ''backup''" and q: "alive (rm n)" "syncQueue (rm n) \<noteq> []"
    and c: "getCommits E (node_log n) = Ok hs" "hs \<noteq> []"
  shows "integrityCheck k E N n = Stop Diverged"
proof (cases k)
  case (Suc j)
  obtain b m where m: "connect_node E N n = (b, m)" by fastforce
  obtain n1 where n1: "check_start E N n = Ok n1" "lh n1 = lh n" "alive (rm n1)" "syncQueue (rm n1) \<noteq> []"
    using role q m connect_lh [OF m] connect_rm [OF m] by (auto simp: check_start_def Let_def)
  have "rm_commit i E N h n1 = Stop Diverged" for i h
    using n1 role by (intro rm_commit_stuck [of _ "''backup''"]) simp_all
  then have "check_commits j E N hs n1 = Stop Diverged" using c(2) by (cases j) simp_all
  with Suc n1 c show ?thesis by simp
qed simp

section \<open>The integrity check\<close>

text \<open>What the check asks for a number of the log: its commit, if it is a committed transaction.\<close>

definition commits_of :: "env \<Rightarrow> log \<Rightarrow> int \<Rightarrow> string list" where
  "commits_of E l k =
     (case abs_log l k of
        Some a \<Rightarrow> (case phase a of Committed q \<Rightarrow> if 0 \<le> k then [commit_header E k q] else [] | _ \<Rightarrow> [])
      | None \<Rightarrow> [])"

lemma getCommits_one:
  assumes wf: "wf_log l" and k: "k \<in> set (om_keys l)"
  shows "getCommits_loop E l (k # ks) hs = getCommits_loop E l ks (hs @ commits_of E l k)"
proof (cases "is_txn l k")
  case False
  have "commits_of E l k = []"
  proof (cases "0 \<le> k \<and> \<not> server_key k")
    case True
    obtain t where "om_find l k = Some t" using k by (auto simp: om.keys_iff)
    with True False wf_txn_status [OF wf_log_txn [OF wf this]] show ?thesis by auto
  qed (auto simp: commits_of_def abs_log_def split: option.split phase.split)
  with False show ?thesis by (simp del: is_txn_iff)
next
  case True
  then obtain t where t: "om_find l k = Some t" and k0: "0 \<le> k" by auto
  obtain st d where p: "om_find t (- 1) = Some (st, d)" using True t by auto
  show ?thesis
  proof (cases "server_key k")
    case sk: True
    then have "k = 0" using k0 by (auto simp: server_key_def)
    then have "st = ''primary'' \<or> st = ''backup''" using wf_log_role [OF wf] t p by auto
    moreover have "commits_of E l k = []" using sk by (simp add: commits_of_def abs_log_def)
    ultimately show ?thesis using True getStatus_eval [OF t p] by auto
  next
    case sk: False
    then have ws: "wf_status t (st, d)" using wf_txn_status [OF wf_log_txn [OF wf t]] p by auto
    have a: "abs_log l k = Some (abs_txn t)" using t sk by (simp add: abs_log_find)
    note ph = abs_phase [OF p]
    have n: "getStatusData l k = Ok (atoi_val d)"
      using getStatusData_eval [OF t p] wf_status_int32 [OF ws] by (simp add: atoi_def)
    from ws show ?thesis
      using True getStatus_eval [OF t p] n k0
      by (cases rule: status_cases) (simp_all add: commits_of_def a ph commit_header_def)
  qed
qed

lemma getCommits_all:
  assumes "wf_log l"
  shows "getCommits E l = Ok (concat (map (commits_of E l) (om_keys l)))"
proof -
  have "getCommits_loop E l ks hs = Ok (hs @ concat (map (commits_of E l) ks))" if "set ks \<subseteq> set (om_keys l)" for ks hs
    using that
  proof (induction ks arbitrary: hs)
    case (Cons k ks)
    then show ?case using getCommits_one [OF assms, of k E ks hs] by (simp del: getCommits_loop.simps)
  qed simp
  then show ?thesis by (simp add: getCommits_def)
qed

lemma commits_of_mem:
  "h \<in> set (commits_of E l k) \<longleftrightarrow> (\<exists>q. has_commit k q l \<and> 0 \<le> k \<and> h = commit_header E k q)"
proof (cases "abs_log l k")
  case (Some a)
  then show ?thesis by (cases "phase a") (auto simp: commits_of_def has_commit_iff)
qed (simp add: commits_of_def has_commit_iff)

lemma commits_of_length: "length (concat (map (commits_of E l) ks)) \<le> length ks"
proof (induction ks)
  case (Cons k ks)
  have "length (commits_of E l k) \<le> 1" by (simp add: commits_of_def split: option.split phase.split)
  with Cons show ?case by simp
qed simp

text \<open>The integrity check covers the log: on a well-formed log the list it takes its commits
  from holds the commit of every committed transaction, in ascending order of their numbers,
  and nothing else. The check takes them from the end of the list.\<close>

lemma check_covers_commits:
  assumes "wf_log l"
  shows "getCommits E l = Ok (concat (map (commits_of E l) (om_keys l)))
    \<and> (\<forall>k q. 0 \<le> k \<longrightarrow> has_commit k q l \<longrightarrow> commit_header E k q \<in> set (concat (map (commits_of E l) (om_keys l))))"
proof -
  have "commit_header E k q \<in> set (concat (map (commits_of E l) (om_keys l)))"
    if "0 \<le> k" "has_commit k q l" for k q
  proof -
    from that(2) have "k \<in> set (om_keys l)" using abs_log_keys [of l k] by (auto simp: has_commit_iff)
    moreover have "commit_header E k q \<in> set (commits_of E l k)" using that commits_of_mem by blast
    ultimately show ?thesis by auto
  qed
  with getCommits_all [OF assms] show ?thesis by blast
qed

lemma check_covers_commits_witness:
  "getCommits ref_env (log_trans (demo ''primary'' ''COMMITTED'' ''2'')) = Ok [commit_header ref_env 7 2]"
proof -
  let ?l = "log_trans (demo ''primary'' ''COMMITTED'' ''2'')"
  have k: "om_keys ?l = [0, 7]" "om_find ?l 7 = Some (demo_txn ''COMMITTED'' ''2'')" by code_simp+
  have "atoi_val ''2'' = 2" by code_simp
  then have "commits_of ref_env ?l 7 = [commit_header ref_env 7 2]" "commits_of ref_env ?l 0 = []"
    using k by (simp_all add: commits_of_def abs_log_def server_key_def abs_txn_def demo_txn_def)
  with check_covers_commits [OF demo_wf(5), of ref_env] k show ?thesis by simp
qed

text \<open>The integrity check of a primary whose backup has every one of its commits ends well:
  with a call per commit and a few more it returns true, having changed nothing on either
  server, and the connection still stands.\<close>

lemma synced_check_passes:
  assumes "pair_in_order E n" and "alive (rm n)" and "syncQueue (rm n) = []" and "peer_up E (wld n)"
    and "\<forall>t q. has_commit t q (node_log n) \<longrightarrow> has_commit t q (peer_log (wld n))"
    and "length (om_keys (node_log n)) + 4 \<le> k"
  shows "\<exists>p. integrityCheck k E (link_net j E M C) n =
      Ok (True, upd_rm (\<lambda>r. r\<lparr>show_warning := True\<rparr>) (n\<lparr>wld := p\<rparr>))
    \<and> p_node p = p_node (wld n) \<and> peer_up E p"
proof -
  let ?hs = "concat (map (commits_of E (node_log n)) (om_keys (node_log n)))"
  let ?n = "upd_rm (\<lambda>r. r\<lparr>show_warning := False\<rparr>) n"
  have wf: "wf_log (node_log n)" and role: "is_primary (node_log n)" and sd: "sendable (fits E) E (node_log n)"
    using assms(1) by (simp_all add: pair_in_order_def)
  obtain i where k: "k = Suc i" "length ?hs + 3 \<le> i"
    using assms(6) commits_of_length [of E "node_log n" "om_keys (node_log n)"] by (cases k) auto
  have "\<exists>t q. h = commit_header E t q \<and> \<not> server_key t \<and> in_int32 t \<and> in_int32 q
      \<and> has_commit t q (peer_log (wld n))" if "h \<in> set ?hs" for h
  proof -
    from that obtain t q where h: "h = commit_header E t q" "has_commit t q (node_log n)"
      by (auto simp: commits_of_mem)
    then obtain a where a: "abs_log (node_log n) t = Some a" "phase a = Committed q" by (auto simp: has_commit_iff)
    then have sk: "\<not> server_key t" by (auto simp: abs_log_def split: if_splits)
    with a(1) obtain x where x: "om_find (node_log n) t = Some x" and ax: "a = abs_txn x" by (auto simp: abs_log_find)
    obtain st d where p: "om_find x (- 1) = Some (st, d)" and ws: "wf_status x (st, d)"
      using wf_txn_status [OF wf_log_txn [OF wf x sk]] by (metis prod.exhaust_sel)
    have "q = atoi_val d" using a(2) ax abs_phase [OF p] by (auto split: if_splits)
    with wf_status_int32 [OF ws] sendable_txn(1) [OF sd sk x] h assms(5) sk show ?thesis by blast
  qed
  then have "\<exists>p. check_commits i E (link_net j E M C) ?hs ?n =
      Ok (True, upd_rm (\<lambda>r. r\<lparr>show_warning := True\<rparr>) (?n\<lparr>wld := p\<rparr>))
    \<and> p_node p = p_node (wld n) \<and> peer_up E p"
    using pair_check_commits [of ?n E ?hs i j M C] role assms(2-4) k(2) by simp
  moreover have "check_start E (link_net j E M C) n = Ok ?n" using role by (simp add: check_start_def)
  ultimately show ?thesis
    using getCommits_all [OF wf, of E] by (auto simp: k(1) upd_rm_def)
qed

lemma synced_check_passes_witness:
  "\<exists>p. integrityCheck 6 ref_env (link_net 9 ref_env dead_net (\<lambda>i. 0))
       (demo_node True [] (demo_peer ''COMMITTED'' ''2'') (demo ''primary'' ''COMMITTED'' ''2'')) =
     Ok (True, (demo_node True [] (demo_peer ''COMMITTED'' ''2'') (demo ''primary'' ''COMMITTED'' ''2''))\<lparr>wld := p\<rparr>)
     \<and> peer_up ref_env p"
proof -
  let ?p = "demo_peer ''COMMITTED'' ''2''" and ?l = "log_trans (demo ''primary'' ''COMMITTED'' ''2'')"
  let ?n = "demo_node True [] ?p (demo ''primary'' ''COMMITTED'' ''2'')"
  have n: "alive (rm ?n)" "syncQueue (rm ?n) = []" "wld ?n = ?p" "node_log ?n = ?l" "show_warning (rm ?n)"
    by (simp_all add: demo_node_def demo_rm_def)
  have pl: "peer_log ?p = log_trans (demo ''backup'' ''COMMITTED'' ''2'')"
    by (simp add: demo_peer_def demo_node_def)
  have c: "wf_log (peer_log ?p)" "getRole (peer_log ?p) = Ok ''backup''" "is_primary ?l"
    "sendable (fits ref_env) ref_env ?l" "om_keys ?l = [0, 7]" "om_find ?l 7 = om_find (peer_log ?p) 7"
    unfolding pl by code_simp+
  then have sound: "peer_sound ref_env ?p" using demo_pair_in_order by (simp add: pair_in_order_def peer_sound_def)
  then have up: "peer_up ref_env ?p"
    by (simp add: peer_up_def) (simp add: demo_peer_def isAuth_def doAuth_def start_def Session_init_def)
  then have "pair_in_order ref_env ?n"
    using n c sound demo_wf(5) by (simp add: pair_in_order_def peer_up_ready)
  moreover have "has_commit t q (peer_log ?p)" if h: "has_commit t q ?l" for t q
  proof -
    from h have "t = 7" using abs_log_keys [of ?l t] c(5) by (auto simp: has_commit_iff abs_log_def server_key_def split: if_splits)
    moreover have "abs_log ?l 7 = abs_log (peer_log ?p) 7" by (simp only: abs_log_def c(6))
    ultimately show ?thesis using h by (simp add: has_commit_def)
  qed
  ultimately have "\<exists>p. integrityCheck 6 ref_env (link_net 9 ref_env dead_net (\<lambda>i. 0)) ?n =
      Ok (True, upd_rm (\<lambda>r. r\<lparr>show_warning := True\<rparr>) (?n\<lparr>wld := p\<rparr>)) \<and> p_node p = p_node (wld ?n) \<and> peer_up ref_env p"
    using n up c(5) by (intro synced_check_passes) simp_all
  moreover have "upd_rm (\<lambda>r. r\<lparr>show_warning := True\<rparr>) (?n\<lparr>wld := p\<rparr>) = ?n\<lparr>wld := p\<rparr>" for p
    by (simp add: upd_rm_def demo_node_def demo_rm_def)
  ultimately show ?thesis by metis
qed

end
