(* ===== verification/Resync_Properties.thy ===== *)
theory Resync_Properties
  imports Wire Replication_Properties
begin

text \<open>
  The properties of the resynchronisation: when a backup that lags behind catches up, when the
  integrity check restores a whole log, and when a commit hangs instead.
\<close>

section \<open>Servers for the witnesses\<close>

text \<open>A backup in order, up, with the transactions \<open>l\<close> and nothing in its disk's way.\<close>

definition fresh_peer :: "log \<Rightarrow> unit peer" where
  "fresh_peer l = \<lparr>p_node = demo_node False [] ()
       \<lparr>log_trans = serverData ''127.0.0.1'' ''8080'' ''backup'' ''/net'' l, files = demo_disk, rng = 0\<rparr>,
     p_sess = Some (doAuth ''127.0.0.1'' 40000 (start (Session_init ''127.0.0.1'' 40000))), p_reads = 0, p_late = False\<rparr>"

lemma fresh_peer_works:
  assumes "wf_log (serverData ''127.0.0.1'' ''8080'' ''backup'' ''/net'' l)"
    "getRole (serverData ''127.0.0.1'' ''8080'' ''backup'' ''/net'' l) = Ok ''backup''"
  shows "peer_works ref_env [''notes''] (fresh_peer l)"
proof -
  have "demo_disk fileName \<noteq> Some Dir" "demo_disk ''notes'' \<noteq> Some Dir"
    by (simp_all add: demo_disk_def fileName_def)
  with assms ref_libs_ok ref_files_ok ref_sink_opens show ?thesis
    by (simp add: peer_works_def peer_up_def peer_sound_def can_write_def fresh_peer_def demo_node_def
        doAuth_def start_def Session_init_def isAuth_def)
qed

lemma empty_peer_works: "peer_works ref_env [''notes''] (fresh_peer [])"
  by (rule fresh_peer_works) code_simp+

section \<open>One transaction\<close>



section \<open>The whole log\<close>

text \<open>The commits the check works through, as pairs of a transaction and its number.\<close>

definition commit_pairs :: "log \<Rightarrow> int \<Rightarrow> (int \<times> int) list" where
  "commit_pairs l k =
     (case abs_log l k of
        Some a \<Rightarrow> (case phase a of Committed q \<Rightarrow> if 0 \<le> k then [(k, q)] else [] | _ \<Rightarrow> [])
      | None \<Rightarrow> [])"

lemma commits_of_pairs: "commits_of E l k = map (commit_header_of E) (commit_pairs l k)"
  by (simp add: commits_of_def commit_pairs_def split: option.split phase.split)

lemma commit_pairs_fst: "map fst (concat (map (commit_pairs l) ks)) = filter (\<lambda>k. commit_pairs l k \<noteq> []) ks"
proof (induction ks)
  case (Cons k ks)
  have "map fst (commit_pairs l k) = (if commit_pairs l k \<noteq> [] then [k] else [])"
    by (simp add: commit_pairs_def split: option.split phase.split)
  with Cons show ?case by simp
qed simp

lemma commit_pairs_mem: "c \<in> set (commit_pairs l k) \<longleftrightarrow> fst c = k \<and> 0 \<le> k \<and> has_commit k (snd c) l"
  by (cases c) (auto simp: commit_pairs_def has_commit_def split: option.split phase.split)

text \<open>A commit that the backup has, or can be brought to, when the log can be sent.\<close>

definition restores :: "(nat \<Rightarrow> nat) \<Rightarrow> string list \<Rightarrow> log \<Rightarrow> 'v peer \<Rightarrow> int \<Rightarrow> int \<Rightarrow> bool" where
  "restores C F l p t q \<longleftrightarrow> has_commit t q (peer_log p) \<or>
     q < 2147483647 \<and> long_enough l t q \<and> gathers (lacks q (abs_log (peer_log p) t)) C \<and>
     (case abs_log l t of
        None \<Rightarrow> False
      | Some a \<Rightarrow> target a \<in> set F \<and>
          (case abs_log (peer_log p) t of None \<Rightarrow> True | Some b \<Rightarrow> lags q a b))"

lemma restores_restorable:
  assumes "wf_log l" "wire_log E l" "has_commit t q l" "restores C F l p t q"
  shows "restorable E C F l p t q"
proof -
  obtain a where a: "abs_log l t = Some a" "phase a = Committed q" using assms(3) by (auto simp: has_commit_iff)
  then have k: "\<not> server_key t" by (auto simp: abs_log_def split: if_splits)
  then obtain u where "om_find l t = Some u" using a(1) by (auto simp: abs_log_find)
  then have "in_int32 t" using wire_txnD [OF assms(2) k] by (simp add: wire_txn_iff)
  with assms(4) wire_echoable [OF assms(1,2) a(1)] a show ?thesis
    by (auto simp: restorable_def restores_def)
qed

text \<open>C5: The integrity check restores a backup. For a primary whose backup is up and can write its
  files, the check ends with true within a call per commit and a few more, and then the backup
  has every commit of the primary. Each commit is one that the backup has already, or that it
  can be brought to: it has nothing of the transaction or has it open on the same file with
  some of its writes, the name and every write have at least two characters, and no more
  writes are missing than one read takes of the answers that ask for them. A backup that
  starts with an empty log is one such case.\<close>

theorem check_restores_backup:
  assumes "wf_log (node_log n)" and "is_primary (node_log n)" and "alive (rm n)" and "syncQueue (rm n) = []"
    and "peer_works E F (wld n)"
    and "\<And>t q. has_commit t q (node_log n) \<Longrightarrow> 0 \<le> t \<and> restores C F (node_log n) (wld n) t q"
    and "length (om_keys (node_log n)) + 6 \<le> k" and "wire_log E (node_log n)"
  shows "\<exists>p. integrityCheck k E (link_net j E M C) n = Ok (True, requeued [] True p n) \<and> peer_works E F p
    \<and> (\<forall>t q. has_commit t q (node_log n) \<longrightarrow> has_commit t q (peer_log p))"
proof -
  let ?l = "node_log n" and ?N = "link_net j E M C"
  define cs where "cs = concat (map (commit_pairs ?l) (om_keys ?l))"
  have hs: "getCommits E ?l = Ok (map (commit_header_of E) cs)"
    using getCommits_all [OF assms(1), of E] by (simp add: cs_def map_concat comp_def commits_of_pairs [symmetric])
  have fst: "map fst cs = filter (\<lambda>k. commit_pairs ?l k \<noteq> []) (om_keys ?l)"
    by (simp add: cs_def commit_pairs_fst)
  then have "distinct (map fst cs)" "length cs \<le> length (om_keys ?l)"
    using om.keys_distinct [OF wf_log_ok [OF assms(1)]] length_filter_le length_map by (metis distinct_filter)+
  moreover obtain i where k: "k = Suc i" "length (om_keys ?l) + 5 \<le> i" using assms(7) by (cases k) auto
  let ?n = "upd_rm (\<lambda>r. r\<lparr>show_warning := False\<rparr>) n"
  have res: "restorable E C F ?l (wld n) t q" if "has_commit t q ?l" for t q
    using restores_restorable [OF assms(1,8) that] assms(6) [OF that] by blast
  have mem: "\<forall>c \<in> set cs. has_commit (fst c) (snd c) (node_log ?n) \<and> restorable E C F (node_log ?n) (wld ?n) (fst c) (snd c)"
    using res by (auto simp: cs_def commit_pairs_mem)
  ultimately obtain p where p: "check_commits i E ?N (map (commit_header_of E) cs) ?n = Ok (True, requeued [] True p ?n)"
    "peer_works E F p" "\<forall>c \<in> set cs. has_commit (fst c) (snd c) (peer_log p)"
    using resync_commits [of ?n E F cs i C j M] assms(1-5) k(2) by auto
  have "check_start E ?N n = Ok ?n" using assms(2) by (simp add: check_start_def)
  moreover have "requeued [] True p ?n = requeued [] True p n" by (simp add: requeued_def upd_rm_def)
  ultimately have "integrityCheck k E ?N n = Ok (True, requeued [] True p n)"
    using p(1) hs by (simp add: k(1))
  moreover have "has_commit t q (peer_log p)" if h: "has_commit t q ?l" for t q
  proof -
    have "t \<in> set (om_keys ?l)" using h abs_log_keys [of ?l t] by (auto simp: has_commit_iff)
    then have "(t, q) \<in> set cs" using h assms(6) by (auto simp: cs_def commit_pairs_mem)
    with p(3) show ?thesis by auto
  qed
  ultimately show ?thesis using p(2) by blast
qed

lemma demo_commits:
  assumes "has_commit t q (log_trans (demo ''primary'' ''COMMITTED'' ''2''))"
  shows "t = 7 \<and> q = 2"
proof -
  let ?l = "log_trans (demo ''primary'' ''COMMITTED'' ''2'')"
  have l: "om_keys ?l = [0, 7]" "om_find ?l 7 = Some (demo_txn ''COMMITTED'' ''2'')" "atoi_val ''2'' = 2" by code_simp+
  have "t = 7" using assms abs_log_keys [of ?l t] l(1)
    by (auto simp: has_commit_iff abs_log_def server_key_def split: if_splits)
  moreover have "abs_log ?l 7 = Some (abs_txn (demo_txn ''COMMITTED'' ''2''))"
    using l(2) by (simp add: abs_log_def server_key_def)
  moreover have "phase (abs_txn (demo_txn ''COMMITTED'' ''2'')) = Committed 2"
    using l(3) by (simp add: abs_txn_def demo_txn_def)
  ultimately show ?thesis using assms by (simp add: has_commit_def)
qed

lemma check_restores_backup_witness:
  "\<exists>p. integrityCheck 8 ref_env (link_net 9 ref_env dead_net (\<lambda>i. 1))
       (demo_node True [] (fresh_peer []) (demo ''primary'' ''COMMITTED'' ''2'')) =
     Ok (True, requeued [] True p (demo_node True [] (fresh_peer []) (demo ''primary'' ''COMMITTED'' ''2'')))
     \<and> has_commit 7 2 (peer_log p)"
proof -
  let ?l = "log_trans (demo ''primary'' ''COMMITTED'' ''2'')" and ?a = "abs_txn (demo_txn ''COMMITTED'' ''2'')"
  let ?n = "demo_node True [] (fresh_peer []) (demo ''primary'' ''COMMITTED'' ''2'')"
  have n: "node_log ?n = ?l" "alive (rm ?n)" "syncQueue (rm ?n) = []" "wld ?n = fresh_peer []"
    by (simp_all add: demo_node_def demo_rm_def)
  have l: "is_primary ?l" "wire_log ref_env ?l" "long_enough ?l 7 2" "om_find ?l 7 = Some (demo_txn ''COMMITTED'' ''2'')"
    "length (om_keys ?l) + 6 \<le> 8" "in_int32 7"
    by code_simp+
  have "atoi_val ''2'' = 2" by code_simp
  then have a: "abs_log ?l 7 = Some ?a" "phase ?a = Committed 2" "target ?a = ''notes''"
    using l(4) by (simp_all add: abs_log_def server_key_def) (simp_all add: abs_txn_def demo_txn_def)
  have "om_find (peer_log (fresh_peer [])) 7 = None" by code_simp
  then have none: "abs_log (peer_log (fresh_peer [])) 7 = None" by (simp add: abs_log_def)
  have "restores (\<lambda>i. 1) [''notes''] ?l (fresh_peer []) 7 2" using l a none by (simp add: restores_def lacks_def gathers_def)
  then have "\<And>t q. has_commit t q ?l \<Longrightarrow> 0 \<le> t \<and> restores (\<lambda>i. 1) [''notes''] ?l (fresh_peer []) t q"
    using demo_commits by fastforce
  then have "\<exists>p. integrityCheck 8 ref_env (link_net 9 ref_env dead_net (\<lambda>i. 1)) ?n = Ok (True, requeued [] True p ?n)
    \<and> peer_works ref_env [''notes''] p \<and> (\<forall>t q. has_commit t q (node_log ?n) \<longrightarrow> has_commit t q (peer_log p))"
    using l empty_peer_works n demo_wf(5) by (intro check_restores_backup) simp_all
  moreover have "has_commit 7 2 (node_log ?n)" using a n by (simp add: has_commit_iff)
  ultimately show ?thesis by blast
qed

section \<open>What never returns\<close>




section \<open>Answers that are left behind\<close>

text \<open>A read that takes one answer: the exchange ends with the first answer there is.\<close>

lemma late_reply:
  assumes E: "text_ok E" and up: "p_sess p \<noteq> None" and one: "C (p_reads p) = 0"
    and D: "p_sess (deliver k E M pkt p) = Some ss" "sent ss = a # as"
    and h: "tokens E h = x # b # c # ds" and pl: "plain mt" "plain b" "plain c" "plain no"
    and e: "length e < 2147483647" and a: "genAnswerStr E mt h no e = Ok a"
  shows "\<exists>result. sendReceive E (link_net k E M C) pkt p = Ok (Some result, (deliver k E M pkt p)
      \<lparr>p_sess := Some (ss\<lparr>sent := as\<rparr>), p_reads := Suc (p_reads p), p_late := p_late p \<or> as \<noteq> []\<rparr>)
    \<and> take 4 (split_any E '' '' result) = [mt, b, c, no]"
proof -
  let ?p = "(deliver k E M pkt p)
      \<lparr>p_sess := Some (ss\<lparr>sent := as\<rparr>), p_reads := Suc (p_reads p), p_late := p_late p \<or> as \<noteq> []\<rparr>"
  have s: "sublist (crlf @ crlf) a" using genAnswerStr_parts [OF E h e a] by (metis append_assoc sublist_appendI)
  have "\<not> sublist (crlf @ crlf) []" by (simp add: crlf_def)
  with s have "arrivals (crlf @ crlf) [] 0 (a # as) = (a, as)" by (cases as) simp_all
  then have r: "net_read_until (link_net k E M C) (crlf @ crlf) [] (deliver k E M pkt p) = (Some (a @ []), ?p)"
    using D one s \<open>\<not> sublist (crlf @ crlf) []\<close> by (simp add: link_read)
  have more: "net_read_until (link_net k E M C) crlf (u @ crlf @ []) ?p = (Some (u @ crlf @ []), ?p)" for u
    by (simp add: link_read)
  have w: "net_write (link_net k E M C) pkt p = (True, deliver k E M pkt p)" using up by simp
  show ?thesis by (rule answers_received [OF E h pl e a w r more])
qed

text \<open>The answer to a commit message goes behind those that are there.\<close>

lemma deliver_commit_sent:
  assumes E: "text_ok E" and tq: "in_int32 t" "in_int32 q" and g: "genEcho E (commit_header E t q) '' '' = Ok pkt"
    and ss: "p_sess p = Some ss" "listening ss \<longrightarrow> buf_b ss = []" and D: "p_sess (deliver k E M pkt p) = Some ss'"
  shows "\<exists>xs. sent ss' = sent ss @ xs"
proof (cases "listening ss")
  case True
  let ?ss = "ss\<lparr>buf_b := pkt, incoming := [], listening := False\<rparr>"
  have b: "buf_b ?ss = pkt" by simp
  have "act k E M (commit_header E t q) '' '' (p_node p) (?ss\<lparr>buf_b := []\<rparr>) = Ok (p_node (deliver k E M pkt p), ss')"
    using commit_arrives(1) [OF E tq g b, of k M "p_node p"] ss True D
    by (auto simp: deliver_def handle_read_def split: res.splits prod.splits)
  from act_only [OF this] show ?thesis by (auto simp: answers_only_def)
qed (use ss D in \<open>auto simp: deliver_def Let_def\<close>)

text \<open>C21: An answer that is left in the socket decides the next commit. When an earlier exchange has
  left an acknowledgement behind, of whatever packet, and the next read takes one answer, the
  primary's commit returns true, with nothing queued and a backup whose handler returns: the
  backup has made of the commit message what it makes of it (it may lack the transaction, or
  ask for its writes), its answer goes behind those that are there, and the commit after this
  one will take the next of them for its own. The network
  may do so: \<open>read_until\<close> takes what it needs, and one resend of several writes is enough
  (\<open>late_answer_commits\<close>).\<close>

theorem late_answer_decides:
  assumes "is_primary (node_log n)" and "alive (rm n)" and "syncQueue (rm n) = []" and "2 \<le> k"
    and "in_int32 t" and "in_int32 q" and "genEcho E (commit_header E t q) '' '' = Ok pkt"
    and "peer_ready E (wld n)" and "p_sess (wld n) = Some ss" and "sent ss = a # as"
    and "tokens E h = x # b # c # ds" and "plain b" and "plain c" and "plain no"
    and "length e < 2147483647" and "genAnswerStr E ''ACK'' h no e = Ok a"
    and "C (p_reads (wld n)) = 0" and "p_sess (deliver j E M pkt (wld n)) \<noteq> None"
  shows "\<exists>p ss' xs. rm_commit k E (link_net j E M C) (commit_header E t q) n = Ok (True, n\<lparr>wld := p\<rparr>)
    \<and> p_node p = p_node (deliver j E M pkt (wld n)) \<and> p_sess p = Some ss' \<and> sent ss' = as @ xs"
proof -
  let ?N = "link_net j E M C" and ?h = "commit_header E t q"
  have E: "text_ok E" using assms(8) by (simp add: peer_ready_def peer_sound_def libs_ok_def)
  obtain s1 where s1: "p_sess (deliver j E M pkt (wld n)) = Some s1" using assms(18) by blast
  have "listening ss \<longrightarrow> buf_b ss = []" using assms(8,9) by (simp add: peer_ready_def)
  from deliver_commit_sent [OF E assms(5-7,9) this s1] obtain xs where xs: "sent s1 = a # as @ xs"
    using assms(10) by auto
  have ack: "plain ''ACK''" by (simp add: plain_def)
  have up: "p_sess (wld n) \<noteq> None" using assms(9) by simp
  from late_reply [where C = C, OF E up assms(17) s1 xs assms(11) ack assms(12-16)] obtain result p
    where r: "sendReceive E ?N pkt (wld n) = Ok (Some result, p)" "take 4 (split_any E '' '' result) = [''ACK'', b, c, no]"
    and p: "p_node p = p_node (deliver j E M pkt (wld n))" "p_sess p = Some (s1\<lparr>sent := as @ xs\<rparr>)"
    by fastforce
  obtain i where k: "k = Suc (Suc i)" using assms(4) by (metis add_2_eq_Suc le_Suc_ex)
  have dr: "drain E ?N (syncQueue (rm n)) (wld n) = Ok (False, [], wld n)" using assms(3) by simp
  have "commit_reply E ?N ?h False result n1 = Ok (Return True n1)" for n1
    using fields_at [OF r(2)] by (simp add: commit_reply_def Let_def)
  then have "rm_commit k E ?N ?h n = Ok (True, (upd_rm (\<lambda>r. r\<lparr>syncQueue := []\<rparr>) n)\<lparr>wld := p\<rparr>)"
    unfolding k by (subst rm_commit_round [OF assms(1,2) dr assms(7) r(1)]) (simp add: Let_def after_body_def)
  moreover have "upd_rm (\<lambda>r. r\<lparr>syncQueue := []\<rparr>) n = n" using assms(3) by (simp add: upd_rm_def)
  ultimately show ?thesis using p by (intro exI [of _ p] exI) auto
qed

definition left_over :: "unit peer" where
  "left_over = (fresh_peer [])
     \<lparr>p_sess := map_option (\<lambda>ss. ss\<lparr>sent := case genAnswerStr ref_env ''ACK'' ''WRITE 7 1 5'' ''0'' '' '' of
        Ok a \<Rightarrow> [a] | Stop e \<Rightarrow> []\<rparr>) (p_sess (fresh_peer [])), p_late := True\<rparr>"

lemma late_answer_decides_witness:
  "\<exists>p. rm_commit 2 ref_env (link_net 9 ref_env dead_net (\<lambda>i. 0)) (commit_header ref_env 7 2)
       (demo_node True [] left_over (demo ''primary'' ''WRITING'' ''2'')) =
     Ok (True, (demo_node True [] left_over (demo ''primary'' ''WRITING'' ''2''))\<lparr>wld := p\<rparr>)
     \<and> \<not> has_commit 7 2 (peer_log p)"
proof -
  let ?n = "demo_node True [] left_over (demo ''primary'' ''WRITING'' ''2'')" and ?h = "commit_header ref_env 7 2"
  have n: "alive (rm ?n)" "syncQueue (rm ?n) = []" "wld ?n = left_over"
    "node_log ?n = log_trans (demo ''primary'' ''WRITING'' ''2'')"
    by (simp_all add: demo_node_def demo_rm_def)
  have role: "is_primary (log_trans (demo ''primary'' ''WRITING'' ''2''))" by code_simp
  have k: "in_int32 7" "in_int32 2" by (simp_all add: in_int32_def)
  obtain pkt where g: "genEcho ref_env ?h '' '' = Ok pkt" using commit_packet(1) [OF ref_text_ok k] by blast
  have "case genEcho ref_env ?h '' '' of
      Ok pkt \<Rightarrow> p_sess (deliver 9 ref_env dead_net pkt left_over) \<noteq> None
        \<and> \<not> has_commit 7 2 (peer_log (deliver 9 ref_env dead_net pkt left_over))
    | Stop e \<Rightarrow> False" by code_simp
  then have D: "p_sess (deliver 9 ref_env dead_net pkt left_over) \<noteq> None"
    "\<not> has_commit 7 2 (peer_log (deliver 9 ref_env dead_net pkt left_over))" by (simp_all add: g)
  have t: "tokens ref_env ''WRITE 7 1 5'' = [''WRITE'', ''7'', ''1'', ''5'']" by code_simp
  obtain a where a: "genAnswerStr ref_env ''ACK'' ''WRITE 7 1 5'' ''0'' '' '' = Ok a"
    using genAnswerStr_shape [OF t] by blast
  let ?ss = "(doAuth ''127.0.0.1'' 40000 (start (Session_init ''127.0.0.1'' 40000)))\<lparr>sent := [a]\<rparr>"
  have ss: "p_sess left_over = Some ?ss" "p_reads left_over = 0" "p_late left_over" "p_node left_over = p_node (fresh_peer [])"
    by (simp_all add: left_over_def a) (simp_all add: fresh_peer_def)
  then have "peer_ready ref_env left_over"
    using empty_peer_works
    by (simp add: peer_ready_def peer_works_def peer_up_def peer_sound_def doAuth_def start_def Session_init_def)
  then have "\<exists>p ss' xs. rm_commit 2 ref_env (link_net 9 ref_env dead_net (\<lambda>i. 0)) ?h ?n = Ok (True, ?n\<lparr>wld := p\<rparr>)
    \<and> p_node p = p_node (deliver 9 ref_env dead_net pkt (wld ?n)) \<and> p_sess p = Some ss' \<and> sent ss' = [] @ xs"
    by (intro late_answer_decides [OF _ _ _ _ k g _ _ _ t _ _ _ _ a, where ss = ?ss])
      (use n role ss D(1) in \<open>simp_all add: plain_def\<close>)
  with D(2) n(3) show ?thesis by (metis (no_types))
qed

definition three_writes :: "unit peer node" where
  "three_writes = demo_node True []
     (fresh_peer [(7, [(- 1, (''ACTIVE'', ''0'')), (0, (''NEW_TXN'', ''notes''))])])
     \<lparr>log_trans = serverData ''127.0.0.1'' ''8080'' ''primary'' ''/net''
       [(7, [(- 1, (''WRITING'', ''3'')), (0, (''NEW_TXN'', ''notes'')), (1, (''WRITE 7 1 4'', ''one'')),
          (2, (''WRITE 7 2 4'', ''two'')), (3, (''WRITE 7 3 2'', ''x''))])], files = demo_disk, rng = 0\<rparr>"

lemma late_answer_commits:
  "case doCommit 9 ref_env (link_net 9 ref_env dead_net (\<lambda>i. 0)) ''COMMIT 7 3 0'' three_writes (demo_session []) of
     Ok (n', ss') \<Rightarrow> has_commit 7 3 (node_log n') \<and> alive (rm n') \<and> \<not> has_commit 7 3 (peer_log (wld n'))
   | Stop e \<Rightarrow> False"
  by code_simp

end
