(* ===== verification/Wire_Runs.thy ===== *)
theory Wire_Runs
  imports Wire
begin

text \<open>
  The queue and the runs of a server: whatever packets, connections and timers come, on
  whatever network, what the server stores and what it has queued stays well formed on the
  wire.
\<close>

section \<open>The queue\<close>

definition node_wire :: "env \<Rightarrow> 'w node \<Rightarrow> bool" where
  "node_wire E n \<longleftrightarrow> wire_log E (node_log n) \<and> list_all (fits E) (syncQueue (rm n))"

lemma wire_sendable:
  assumes w: "wire_log E l" shows "sendable (fits E) E l"
proof -
  have "server_key k \<or> in_int32 k \<and>
     (case om_find l k of
        None \<Rightarrow> True
      | Some t \<Rightarrow>
          (case om_find t 0 of Some p \<Rightarrow> fits E (make_header E k, snd p) | None \<Rightarrow> True) \<and>
          list_all (\<lambda>q. q < 1 \<or> (case om_find t q of Some p \<Rightarrow> fits E p | None \<Rightarrow> True)) (om_keys t))"
    if k: "k \<in> set (om_keys l)" for k
  proof (cases "server_key k")
    case False
    obtain t where t: "om_find l k = Some t" using k by (auto simp: om.keys_iff)
    from wire_txnD [OF w False t] show ?thesis
      by (auto simp: t wire_txn_iff packet_is_def list_all_iff split: option.split) (metis not_less)+
  qed simp
  then show ?thesis unfolding sendable_def list_all_iff by blast
qed

lemma enqueue_wire: "enqueue h x n = Ok n' \<Longrightarrow> fits E (h, x) \<Longrightarrow> node_wire E n \<Longrightarrow> node_wire E n'"
  by (auto simp: enqueue_def node_wire_def upd_rm_def)

lemma set_lh_wire: "node_wire E n \<Longrightarrow> wire_log E (log_trans s) \<Longrightarrow> node_wire E (set_lh s n)"
  by (simp add: node_wire_def)

text \<open>On whatever network: the interface of a replica asks nothing of it but the packets' form.\<close>

interpretation anynet: replica E N "\<lambda>_. text_ok E" "\<lambda>_. text_ok E" "fits E" "\<lambda>_ _ _. True" for E N
proof
  show "text_ok E \<Longrightarrow> \<not> server_key t \<Longrightarrow> in_int32 t \<Longrightarrow> in_int32 q \<Longrightarrow> fits E (commit_header E t q, '' '')" for t q
    using commit_header_fields [of E t q] commit_packet(2) [of E t q]
    by (simp add: fits_def proper_def plain_def [of "''COMMIT''"])
qed simp_all

lemma wire_in_order:
  "text_ok E \<Longrightarrow> om_ok (node_log n) \<Longrightarrow> is_primary (node_log n) \<Longrightarrow> node_wire E n \<Longrightarrow> anynet.in_order E n"
  unfolding anynet.in_order_def node_wire_def using wire_sendable by blast

text \<open>On a primary the manager queues nothing but packets.\<close>

lemma primary_wire:
  assumes E: "text_ok E" and ok: "om_ok (node_log n)" and role: "is_primary (node_log n)" and w: "node_wire E n"
  shows "anynet.commit_of E h t q \<Longrightarrow> rm_commit k E N h n = Ok (b, n') \<Longrightarrow> node_wire E n'"
    and "primaryOps k E N n = Ok n' \<Longrightarrow> node_wire E n'"
proof -
  note o = wire_in_order [OF assms]
  note adv = anynet.manager_advances [of E k N, THEN conjunct1, rule_format, OF o]
    anynet.manager_advances [of E k N, THEN conjunct2, THEN conjunct1, rule_format, OF o]
  have wire: "node_wire E n'" if "stays (lh n) (lh n')" "anynet.in_order E n'" for n' :: "'a node"
    using narrows_wire [OF stays_narrows [OF that(1) ok]] that(2) w
    by (simp add: node_wire_def anynet.in_order_def)
  show "anynet.commit_of E h t q \<Longrightarrow> rm_commit k E N h n = Ok (b, n') \<Longrightarrow> node_wire E n'"
    using adv(1) wire [OF manager_stays(1)] unfolding anynet.advances_def by blast
  show "primaryOps k E N n = Ok n' \<Longrightarrow> node_wire E n'"
    using adv(2) wire [OF manager_stays(2)] unfolding anynet.advances_def by blast
qed

text \<open>On a server that is not primary the manager leaves the queue alone.\<close>

definition idle :: "'w node \<Rightarrow> bool" where
  "idle n \<longleftrightarrow> om_ok (node_log n) \<and> (\<exists>r. getRole (node_log n) = Ok r \<and> r \<noteq> ''primary'')"

lemma idle_body:
  assumes "idle n" "commit_body E N h True n = Ok m"
  shows "lh (move_node m) = lh n \<and> syncQueue (rm (move_node m)) = syncQueue (rm n) \<and> (\<forall>n'. m \<noteq> Resend n')"
  using assms commit_body_lh [OF assms(2)]
  by (auto simp: commit_body_def commit_lost_def commit_reply_def kill_primary_def enqueue_def idle_def Let_def upd_rm_def
      redirect_def close_node_def split: if_splits option.splits prod.splits)

lemma idle_same: "idle n \<Longrightarrow> lh n' = lh n \<Longrightarrow> idle n'"
  by (simp add: idle_def)

lemma idle_manager:
  "(\<forall>h n b n'. idle n \<longrightarrow> rm_commit k E N h n = Ok (b, n') \<longrightarrow> lh n' = lh n \<and> syncQueue (rm n') = syncQueue (rm n)) \<and>
   (\<forall>hs n b n'. idle n \<longrightarrow> check_commits k E N hs n = Ok (b, n') \<longrightarrow> lh n' = lh n \<and> syncQueue (rm n') = syncQueue (rm n))"
proof (induction k)
  case (Suc k)
  note IHc = Suc.IH [THEN conjunct1, rule_format] and IHh = Suc.IH [THEN conjunct2, rule_format]
  have commit: "lh n' = lh n \<and> syncQueue (rm n') = syncQueue (rm n)"
    if n: "idle n" and run: "rm_commit (Suc k) E N h n = Ok (b, n')" for h n b n'
  proof -
    obtain r where r: "getRole (node_log n) = Ok r" "r \<noteq> ''primary''" using n by (auto simp: idle_def)
    with run obtain m where m: "commit_body E N h True n = Ok m" and rest: "after_body (rm_commit k E N h) m = Ok (b, n')"
      by (auto simp: rm_commit_Suc simp del: rm_commit.simps elim!: bndE)
    note body = idle_body [OF n m]
    show ?thesis
    proof (cases m)
      case (Return b2 n2)
      with rest body show ?thesis by (simp add: after_body_def)
    next
      case (Loop n2)
      with rest body IHc [OF idle_same [OF n], of n2 h b n'] show ?thesis by (simp add: after_body_def)
    qed (use body in blast)
  qed
  have check: "lh n' = lh n \<and> syncQueue (rm n') = syncQueue (rm n)"
    if n: "idle n" and run: "check_commits (Suc k) E N hs n = Ok (b, n')" for hs n b n'
  proof (cases "hs = []")
    case True
    with run show ?thesis by (auto simp: check_passed_def Let_def upd_rm_def close_node_def split: if_splits)
  next
    case False
    with run obtain c n1 where c: "rm_commit k E N (last hs) n = Ok (c, n1)"
      and rest: "(if c then check_commits k E N (butlast hs) n1 else check_failed N n1) = Ok (b, n')"
      by (auto elim!: bndE)
    note c1 = IHc [OF n c]
    show ?thesis
    proof (cases c)
      case True
      with rest c1 IHh [OF idle_same [OF n], of n1 "butlast hs" b n'] show ?thesis by simp
    next
      case False
      with rest have "check_failed N n1 = Ok (b, n')" by simp
      then have "lh n' = lh n1 \<and> syncQueue (rm n') = syncQueue (rm n1)"
        by (auto simp: check_failed_def Let_def upd_rm_def close_node_def split: if_splits)
      with c1 show ?thesis by simp
    qed
  qed
  show ?case using commit check by blast
qed simp

lemma connect_queue: "connect_node E N n = (b, n') \<Longrightarrow> lh n' = lh n \<and> syncQueue (rm n') = syncQueue (rm n)"
  by (auto simp: connect_node_def upd_rm_def split: prod.splits)

lemma idle_check:
  assumes "idle n" "integrityCheck k E N n = Ok (b, n')"
  shows "lh n' = lh n \<and> syncQueue (rm n') = syncQueue (rm n)"
proof (cases k)
  case (Suc j)
  with assms(2) obtain n1 hs where s: "check_start E N n = Ok n1" "check_commits j E N hs n1 = Ok (b, n')"
    by (auto elim!: bndE)
  have "lh n1 = lh n \<and> syncQueue (rm n1) = syncQueue (rm n)"
    using s(1) by (auto simp: check_start_def Let_def upd_rm_def split: if_splits prod.splits dest!: connect_queue)
  with idle_manager [of j E N] idle_same [OF assms(1)] s(2) show ?thesis by metis
qed (use assms in simp)

section \<open>The daemon\<close>

lemma primary_found_wire:
  assumes i: "idle n" and w: "node_wire E n" and run: "primary_found k E N n = Ok n'"
  shows "node_wire E n'"
proof -
  let ?n = "upd_rm (\<lambda>r. r\<lparr>backup_did_sync := True\<rparr>) n"
  from run obtain ip port n2 where n2: "(if \<not> backup_did_sync (rm n) \<and> \<not> restarted (rm n) then
            bnd (integrityCheck k E N ?n) (\<lambda>(b, n1). Ok n1)
          else
            bnd (sendReceive E N (genRequest2 E ''PING'' (ip @ ''|'' @ port)) (wld n)) (\<lambda>(reply, w).
              if reply = None then Stop Thrown else Ok (n\<lparr>wld := w\<rparr>))) = Ok n2"
    and n': "n' = close_node N n2"
    by (auto simp: primary_found_def simp del: bnd_eq_Ok Ok_eq_bnd elim!: bndE)
  have "idle ?n" using i by (rule idle_same) simp
  then have "lh n2 = lh n \<and> syncQueue (rm n2) = syncQueue (rm n)"
    using n2 idle_check [of ?n k E N] by (auto simp: upd_rm_def split: if_splits)
  with w n' show ?thesis by (simp add: node_wire_def close_node_def)
qed

lemma switchToPrimary_wire:
  assumes "om_ok (node_log n)" "node_wire E n" "switchToPrimary E n = Ok (b, n')"
  shows "node_wire E n'"
  using assms narrows_wire [OF serverData_narrows [OF assms(1)]]
  by (auto simp: switchToPrimary_def node_wire_def split: if_splits)

lemma switchToBackup_wire:
  assumes "om_ok (node_log n)" "node_wire E n" "switchToBackup N n = Ok (b, n')"
  shows "node_wire E n'"
  using assms narrows_wire [OF serverData_narrows [OF assms(1)]]
  by (auto simp: switchToBackup_def node_wire_def Let_def upd_rm_def redirect_def close_node_def set_log_def split: if_splits)

lemma primary_lost_wire:
  assumes ok: "om_ok (node_log n)" and w: "node_wire E n" and run: "primary_lost E n = Ok n'"
  shows "node_wire E n'"
proof -
  from run obtain n1 where n1: "(if 3 < tries (rm n) then
            bnd (switchToPrimary E n) (\<lambda>(b, n1). Ok (if b then upd_rm (\<lambda>r. r\<lparr>tries := 0\<rparr>) n1 else n1))
          else Ok n) = Ok n1" and n': "lh n' = lh n1" "syncQueue (rm n') = syncQueue (rm n1)"
    unfolding primary_lost_def by (rule bndE) (auto simp: Let_def upd_rm_def redirect_def split: if_splits)
  have "node_wire E n1"
    using n1 w switchToPrimary_wire [OF ok w]
    by (auto simp: node_wire_def upd_rm_def split: if_splits)
  with n' show ?thesis by (simp add: node_wire_def)
qed

lemma rm_check_wire:
  assumes E: "text_ok E" and wf: "wf_log (node_log n)" and w: "node_wire E n" and run: "rm_check k E N n = Ok n'"
  shows "node_wire E n'"
proof (cases "is_primary (node_log n)")
  case True
  with run show ?thesis
    using primary_wire(2) [OF E wf_log_ok [OF wf] True w] by (simp add: rm_check_def)
next
  case False
  with run obtain r where r: "getRole (node_log n) = Ok r" "r \<noteq> ''primary''" "backupOps k E N n = Ok n'"
    by (auto simp: rm_check_def)
  obtain good n1 where c: "connect_node E N (close_node N n) = (good, n1)" by fastforce
  have n1: "lh n1 = lh n" "syncQueue (rm n1) = syncQueue (rm n)"
    using connect_queue [OF c] by (simp_all add: close_node_def)
  then have i: "idle n1" and w1: "node_wire E n1" and ok: "om_ok (node_log n1)"
    using r w wf_log_ok [OF wf] by (simp_all add: idle_def node_wire_def)
  show ?thesis
    using r(3) primary_found_wire [OF i w1] primary_lost_wire [OF ok w1]
    by (simp add: backupOps_def c split: if_splits)
qed

section \<open>Commands\<close>

text \<open>A request as the session hands it on: a header line of four fields, and its data.\<close>

definition heard :: "env \<Rightarrow> int \<Rightarrow> string \<Rightarrow> string \<Rightarrow> bool" where
  "heard E i h x \<longleftrightarrow> validHeader E h \<and> nl \<notin> set h \<and> cr \<notin> set h \<and> parse E h = Ok i \<and> proper E i h
     \<and> nl \<notin> set x \<and> int (length x) < 2147483647 \<and> (carries_data i \<or> length x < 2)"

lemma heard_fits: "text_ok E \<Longrightarrow> heard E i h x \<Longrightarrow> i \<noteq> 0 \<Longrightarrow> fits E (h, x)"
  by (auto simp: heard_def intro!: header_fits)

lemma do_write_wire:
  assumes E: "text_ok E" and wf: "wf_log (node_log n)" and w: "node_wire E n" and h: "heard E 5 h x"
    and run: "do_write E h x n ss = Ok (ex, err, n', ss')"
  shows "node_wire E n'"
proof -
  have f: "fits E (h, x)" using heard_fits [OF E h] by simp
  have k: "\<not> server_key (getTsn E h)" using h by (simp add: heard_def proper_def)
  have p: "write_packet E (getTsn E h) (getSeq E h) (h, x)" using f h by (simp add: packet_is_def heard_def)
  from run obtain ret error s1 where a: "addLogEntry E h x (lh n) = Ok (ret, error, s1)"
    and q: "enqueue h x (set_lh s1 n) = Ok n' \<or> n' = set_lh s1 n"
    by (auto simp: do_write_def split: if_splits)
  have "wire_log E (node_log n)" using w by (simp add: node_wire_def)
  from set_lh_wire [OF w addLogEntry_wire [OF E wf this k p a]] q enqueue_wire [OF _ f] show ?thesis by blast
qed

lemma executeCommand_wire:
  assumes E: "text_ok E" "random_ok E" and wf: "wf_log (node_log n)" and w: "node_wire E n" and h: "heard E i h x"
    and run: "executeCommand E N i h x n ss = Ok (ex, err, n', ss')"
  shows "node_wire E n'"
proof -
  have wl: "wire_log E (node_log n)" using w by (simp add: node_wire_def)
  have ok: "om_ok (node_log n)" by (rule wf_log_ok [OF wf])
  have x: "nl \<notin> set x" "int (length x) < 2147483647" using h by (simp_all add: heard_def)
  consider "n' = n" | "i = 1" "do_abort E h x n ss = Ok (ex, err, n', ss')"
    | "do_new_txn E h x n ss = Ok (ex, err, n', ss')"
    | "i = 3" "do_commit_cmd E h x n ss = Ok (ex, err, n', ss')"
    | "i = 5" "do_write E h x n ss = Ok (ex, err, n', ss')"
    | "i = 6" "do_make_txn E h x n ss = Ok (ex, err, n', ss')"
    | "do_ping E h x n ss = Ok (ex, err, n', ss')"
    | b where "switchToBackup N n = Ok (b, n')"
    using run by (auto simp: executeCommand_def do_read_def Let_def split: if_splits prod.splits)
  then show ?thesis
  proof cases
    case 2
    then obtain ret error s1 where a: "abort_txn E h (lh n) = Ok (ret, error, s1)"
      and q: "enqueue h x (set_lh s1 n) = Ok n' \<or> n' = set_lh s1 n"
      by (auto simp: do_abort_def split: if_splits)
    have "wire_log E (log_trans s1)" by (rule narrows_wire [OF abort_narrows [OF ok a] wl])
    from set_lh_wire [OF w this] q enqueue_wire [OF _ heard_fits [OF E(1) h]] 2(1) show ?thesis by auto
  next
    case 3
    then obtain rn s1 where a: "newTxn E x (lh n) = Ok (rn, s1)"
      and q: "rn \<noteq> 0 \<and> enqueue (''MAKE_TXN '' @ lex_str E rn @ '' 0 0 0'') x (set_lh s1 n) = Ok n' \<or> n' = set_lh s1 n"
      by (auto simp: do_new_txn_def split: if_splits)
    note new = newTxn_wire [OF E wl x a]
    from set_lh_wire [OF w] new q enqueue_wire [OF _ new_packet_fits [OF E(1) _ _ x]] show ?thesis by blast
  next
    case 4
    then obtain ret error s1 where a: "commit E h (lh n) = Ok (ret, error, s1)"
      and q: "ret \<and> enqueue h x (set_lh s1 n) = Ok n' \<or> n' = set_lh s1 n"
      by (auto simp: do_commit_cmd_def split: if_splits)
    have "wire_log E (log_trans s1)" by (rule narrows_wire [OF commit_narrows [OF a] wl])
    from set_lh_wire [OF w this] q enqueue_wire [OF _ heard_fits [OF E(1) h]] 4(1) show ?thesis by auto
  next
    case 5
    with do_write_wire [OF E(1) wf w] h show ?thesis by blast
  next
    case 6
    then obtain made s1 where m: "makeTxn E x (getTsn E h) (lh n) = Ok (made, s1)" "n' = set_lh s1 n"
      by (auto simp: do_make_txn_def)
    have "\<not> server_key (getTsn E h)" using h 6(1) by (simp add: heard_def proper_def)
    from makeTxn_wire [OF E(1) wl getTsn_in32 [OF E(1)] this x m(1)] set_lh_wire [OF w] m(2) show ?thesis by blast
  next
    case 7
    then consider "n' = n" | l where "backupServerData E x (node_log n) = Ok l" "n' = set_log l n"
      by (auto simp: do_ping_def split: if_splits)
    then show ?thesis
      using w narrows_wire [OF backupServerData_narrows] by cases (auto simp: node_wire_def set_log_def)
  next
    case 8
    from switchToBackup_wire [OF ok w this] show ?thesis .
  qed (use w in simp)
qed

section \<open>The commit of the session\<close>

lemma commit_message_of:
  assumes "text_ok E" "getStatusData l k = Ok seq" "\<not> server_key (getTsn E h)"
  shows "\<exists>q. anynet.commit_of E (commit_message E h seq) (getTsn E h) q"
  using assms getTsn_in32 [OF assms(1)] getSeq_in32 [OF assms(1)] getStatusData_in32 [OF assms(2)]
  by (auto simp: anynet.commit_of_def commit_message_def commit_header_def)

lemma doCommit_wire:
  assumes E: "text_ok E" and wf: "wf_log (node_log n)" and w: "node_wire E n" and k: "\<not> server_key (getTsn E h)"
    and run: "doCommit j E N h n ss = Ok (n', ss')"
  shows "node_wire E n'"
proof (cases "is_primary (node_log n)")
  case True
  with run obtain seq good n1 where seq: "getStatusData (node_log n) (getTsn E h) = Ok seq"
    and rm: "rm_commit j E N (commit_message E h seq) n = Ok (good, n1)"
    and rest: "n' = n1 \<or> (\<exists>s1. commit_local E (getTsn E h) (lh n1) = Ok s1 \<and> n' = n1\<lparr>lh := s1\<rparr>)"
    by (auto simp: doCommit_def split: if_splits)
  obtain q where "anynet.commit_of E (commit_message E h seq) (getTsn E h) q"
    using commit_message_of [OF E seq k] by blast
  from primary_wire(1) [OF E wf_log_ok [OF wf] True w this rm] have w1: "node_wire E n1" .
  with rest narrows_wire [OF commit_local_narrows] show ?thesis by (auto simp: node_wire_def)
next
  case False
  with run have "n' = n" by (auto simp: doCommit_def split: if_splits)
  with w show ?thesis by simp
qed

lemma act_wire:
  assumes E: "text_ok E" "random_ok E" "files_ok E" and wf: "wf_log (node_log n)" and w: "node_wire E n"
    and h: "\<And>i. parse E h = Ok i \<Longrightarrow> heard E i h x" and run: "act j E N h x n ss = Ok (n', ss')"
  shows "node_wire E n'"
proof -
  from run obtain i ex err n1 ss1 where i: "parse E h = Ok i"
    and e: "executeCommand E N i h x n (start ss) = Ok (ex, err, n1, ss1)"
    and r: "respond j E N h (ex, err, n1, ss1) = Ok (n', ss')"
    by (auto simp: act_def)
  have p: "proper E i h" using h [OF i] by (simp add: heard_def)
  note g = executeCommand_good [OF E wf p e]
  have w1: "node_wire E n1" by (rule executeCommand_wire [OF E(1,2) wf w h [OF i] e])
  consider "n' = n1" | "\<not> ex" "err = ''committed''" "doCommit j E N h n1 ss1 = Ok (n', ss')"
    using r by (auto simp: respond_def split: if_splits)
  then show ?thesis
  proof cases
    case 2
    with g have "wf_log (node_log n1)" "\<not> server_key (getTsn E h)" by (simp_all add: good_outcome_def kept_def)
    from doCommit_wire [OF E(1) this(1) w1 this(2) 2(3)] show ?thesis .
  qed (use w1 in simp)
qed

section \<open>Reading a packet\<close>

text \<open>A line has no newline, and neither it nor what is left is longer than what there was.\<close>

lemma getline_parts:
  assumes "getline st cur = (g, line, st')"
  shows "nl \<notin> set cur \<Longrightarrow> nl \<notin> set line" "length line \<le> max (length cur) (length (fst st))"
    "length (fst st') \<le> length (fst st)"
proof -
  obtain buf eof where st: "st = (buf, eof)" by fastforce
  have "length (tl (dropWhile (\<lambda>c. c \<noteq> nl) buf)) \<le> length buf"
    using length_dropWhile_le [of "\<lambda>c. c \<noteq> nl" buf] by simp
  moreover have "length (takeWhile (\<lambda>c. c \<noteq> nl) buf) \<le> length buf" by (rule length_takeWhile_le)
  ultimately show "length line \<le> max (length cur) (length (fst st))" "length (fst st') \<le> length (fst st)"
    using assms by (auto simp: st getline.simps split: if_splits)
  show "nl \<notin> set cur \<Longrightarrow> nl \<notin> set line"
    using assms by (auto simp: st getline.simps dest: set_takeWhileD split: if_splits)
qed

lemma skip_short_parts:
  "skip_short h st = Some (h', st') \<Longrightarrow> nl \<notin> set h \<Longrightarrow> cr \<notin> set h \<Longrightarrow>
     nl \<notin> set h' \<and> cr \<notin> set h' \<and> length (fst st') \<le> length (fst st)"
proof (induction h st rule: skip_short.induct)
  case (1 h st)
  obtain g line st1 where g: "getline st h = (g, line, st1)" by (metis prod_cases3)
  note p = getline_parts [OF g]
  show ?case
  proof (cases "length h < 8")
    case True
    with 1 g have g': "g" "skip_short (strip_cr line) st1 = Some (h', st')"
      by (auto simp: skip_short.simps [of h st] split: if_splits)
    have "nl \<notin> set (strip_cr line)" "cr \<notin> set (strip_cr line)"
      using p(1) "1.prems"(2) by (auto simp: strip_cr_def)
    with "1.IH" [OF True g [symmetric] refl g'(1,2)] p(3) show ?thesis by simp
  next
    case False
    with 1 show ?thesis by (simp add: skip_short.simps [of h st])
  qed
qed

text \<open>What the session holds of its peer's bytes is less than an \<open>int\<close> can count.\<close>

definition sized :: "session \<Rightarrow> bool" where
  "sized ss \<longleftrightarrow> int (length (buf_b ss) + length (buf_c ss) + length (incoming ss)) < 2147483647"

text \<open>The header of the packet in a buffer, if it holds one.\<close>

definition packet_header :: "env \<Rightarrow> string \<Rightarrow> string option" where
  "packet_header E buf =
     (case getline (buf, False) [] of (g, line, st) \<Rightarrow> map_option fst (skip_short (strip_cr line) st))"

lemma packet_header_proper:
  "proper_packet E buf \<Longrightarrow> packet_header E buf = Some h \<Longrightarrow> parse E h = Ok i \<Longrightarrow> proper E i h"
  by (auto simp: proper_packet_def packet_header_def split: prod.splits)

text \<open>
  What becomes of a packet: a command runs on it, it is rejected, or the peer closed before
  its data was there. \<open>ss1\<close> is the session in between.
\<close>

lemma packet_body_cases:
  assumes h: "validHeader E h" "nl \<notin> set h" "cr \<notin> set h" "\<forall>i. parse E h = Ok i \<longrightarrow> proper E i h"
    and x: "nl \<notin> set x" "int (length x + length (buf_c ss) + length (incoming ss)) < 2147483647"
    and run: "packet_body j E N h x n ss = Ok (n', ss')"
  obtains (acts) y ss1 where "\<And>i. parse E h = Ok i \<Longrightarrow> heard E i h y" "act j E N h y n ss1 = Ok (n', ss')" "sent ss1 = sent ss"
  | (rejects) u where "reject E h u n ss = Ok (n', ss')"
  | (broken) "n' = n" "ss' = ss\<lparr>buf_c := buf_c ss @ incoming ss, incoming := []\<rparr>"
proof -
  from run obtain attached where att: "dataAttached E h = Ok attached" and rest: "(if attached then
           bnd (getBytes E h) (\<lambda>len.
             if len \<noteq> int_of_size (length x) + 1 then
               case read_rest (len - int_of_size (length x)) ss of
                 None \<Rightarrow> Ok (n, ss\<lparr>buf_c := buf_c ss @ incoming ss, incoming := []\<rparr>)
               | Some (line, ss1) \<Rightarrow> act j E N h (x @ line) n ss1
             else act j E N h x n ss)
         else
           bnd (needsData E h) (\<lambda>needs.
             if needs then reject E h ''Method requires data.'' n ss
             else act j E N h '' '' n ss)) = Ok (n', ss')"
    by (auto simp: packet_body_def Let_def simp del: bnd_eq_Ok Ok_eq_bnd elim!: bndE)
  have data: "nl \<notin> set line \<and> length line \<le> length (buf_c ss) + length (incoming ss) \<and> sent ss1 = sent ss"
    if r: "read_rest a ss = Some (line, ss1)" for a line ss1
  proof -
    from r obtain g st m where g: "getline (buf_c ss @ take m (incoming ss), False) [] = (g, line, st)" "sent ss1 = sent ss"
      by (auto simp: read_rest_def Let_def split: if_splits prod.splits)
    from getline_parts [OF g(1)] g(2) show ?thesis by auto
  qed
  show thesis
  proof (cases attached)
    case True
    have hd: "heard E i h (x @ y)" if "parse E h = Ok i" "nl \<notin> set y" "length y \<le> length (buf_c ss) + length (incoming ss)" for i y
      using h x that att True by (auto simp: heard_def dataAttached_def)
    from True rest obtain len where "(if len \<noteq> int_of_size (length x) + 1 then
               case read_rest (len - int_of_size (length x)) ss of
                 None \<Rightarrow> Ok (n, ss\<lparr>buf_c := buf_c ss @ incoming ss, incoming := []\<rparr>)
               | Some (line, ss1) \<Rightarrow> act j E N h (x @ line) n ss1
             else act j E N h x n ss) = Ok (n', ss')"
      by (auto simp del: bnd_eq_Ok Ok_eq_bnd elim!: bndE)
    then consider "n' = n" "ss' = ss\<lparr>buf_c := buf_c ss @ incoming ss, incoming := []\<rparr>"
      | "act j E N h x n ss = Ok (n', ss')"
      | a line ss1 where "read_rest a ss = Some (line, ss1)" "act j E N h (x @ line) n ss1 = Ok (n', ss')"
      by (elim branchE; cases "read_rest (len - int_of_size (length x)) ss") auto
    then show ?thesis
    proof cases
      case 1
      then show ?thesis by (rule broken)
    next
      case 2
      from acts [OF _ this refl] hd [of _ "[]"] show ?thesis by simp
    next
      case 3
      with data [OF 3(1)] acts [OF hd 3(2)] show ?thesis by blast
    qed
  next
    case False
    have "heard E i h '' ''" if "parse E h = Ok i" for i
      using h that by (simp add: heard_def)
    note hd = this
    from False rest consider "reject E h ''Method requires data.'' n ss = Ok (n', ss')" | "act j E N h '' '' n ss = Ok (n', ss')"
      by (auto split: if_splits)
    then show ?thesis using rejects acts [OF hd _ refl] by cases
  qed
qed

lemma read_packet_cases:
  assumes p: "proper_packet E (buf_b ss)" and z: "sized ss" and run: "read_packet j E N n ss = Ok (n', ss')"
  obtains (acts) h y ss1 where "packet_header E (buf_b ss) = Some h"
      "\<And>i. parse E h = Ok i \<Longrightarrow> heard E i h y" "act j E N h y n ss1 = Ok (n', ss')" "sent ss1 = sent ss"
  | (rejects) h u ss1 where "nl \<notin> set h" "cr \<notin> set h" "reject E h u n ss1 = Ok (n', ss')" "sent ss1 = sent ss"
  | (broken) "n' = n" "sent ss' = sent ss" "incoming ss' = []" "listening ss' = listening ss"
proof -
  obtain g line st where g: "getline (buf_b ss, False) [] = (g, line, st)" by (metis prod_cases3)
  note gp = getline_parts [OF g]
  show thesis
  proof (cases "skip_short (strip_cr line) st")
    case None
    have "nl \<notin> set ''a -2 0 0''" "cr \<notin> set ''a -2 0 0''" by simp_all
    with run g None rejects [of "''a -2 0 0''" _ "ss\<lparr>buf_b := []\<rparr>"] show ?thesis by (auto simp: read_packet_def)
  next
    case (Some hs)
    obtain h st1 where hs: "hs = (h, st1)" by (metis surj_pair)
    have ph: "packet_header E (buf_b ss) = Some h" using g Some hs by (simp add: packet_header_def)
    have p': "\<forall>i. parse E h = Ok i \<longrightarrow> proper E i h" using packet_header_proper [OF p ph] by blast
    have h: "nl \<notin> set h" "cr \<notin> set h" "length (fst st1) \<le> length (buf_b ss)"
      using skip_short_parts [OF Some [unfolded hs]] gp by (auto simp: strip_cr_def)
    have run': "handle_packet j E N h st1 n ss = Ok (n', ss')"
      using run g Some hs by (simp add: read_packet_def)
    show ?thesis
    proof (cases "validHeader E h")
      case True
      obtain g1 blank st2 where b: "getline st1 [] = (g1, blank, st2)" by (metis prod_cases3)
      obtain g2 x st3 where x: "getline st2 blank = (g2, x, st3)" by (metis prod_cases3)
      let ?ss = "ss\<lparr>buf_b := fst st3\<rparr>"
      have x': "nl \<notin> set x" "int (length x + length (buf_c ?ss) + length (incoming ?ss)) < 2147483647"
        using getline_parts [OF b] getline_parts [OF x] h(3) z by (auto simp: sized_def)
      have body: "packet_body j E N h x n ?ss = Ok (n', ss')"
        using run' True b x by (simp add: handle_packet_def)
      from True h(1,2) p' x' body show ?thesis
      proof (cases rule: packet_body_cases)
        case (acts y ss1)
        from acts(3) have "sent ss1 = sent ss" by simp
        from that(1) [OF ph _ acts(2) this] acts(1) show ?thesis by blast
      next
        case (rejects u)
        with that(2) [OF h(1,2)] show ?thesis by simp
      next
        case broken
        with that(3) show ?thesis by simp
      qed
    next
      case False
      have "nl \<notin> set ''a -1 0 0''" "cr \<notin> set ''a -1 0 0''" by simp_all
      with run' False rejects [of "''a -1 0 0''" _ "ss\<lparr>buf_b := fst st1\<rparr>"] show ?thesis
        by (auto simp: handle_packet_def)
    qed
  qed
qed

lemma read_packet_wire:
  assumes E: "text_ok E" "random_ok E" "files_ok E" and wf: "wf_log (node_log n)" and w: "node_wire E n"
    and p: "proper_packet E (buf_b ss)" and z: "sized ss" and run: "read_packet j E N n ss = Ok (n', ss')"
  shows "node_wire E n'"
  using p z run
proof (cases rule: read_packet_cases)
  case (acts h y ss1)
  from act_wire [OF E wf w acts(2,3)] show ?thesis .
next
  case (rejects h u ss1)
  with w show ?thesis by (auto simp: reject_def)
qed (use w in simp)

section \<open>Runs\<close>

fun fair_event :: "env \<Rightarrow> 'w server \<Rightarrow> event \<Rightarrow> bool" where
  "fair_event E s (Arrived i error u tail up) \<longleftrightarrow> error \<or> proper_packet E (buf_b (live s ! i) @ u)
     \<and> sized ((live s ! i)\<lparr>buf_b := buf_b (live s ! i) @ u, incoming := tail\<rparr>)"
| "fair_event E s e \<longleftrightarrow> True"

lemma fair_proper: "fair_event E s e \<Longrightarrow> proper_event E s e"
  by (cases e) auto

lemma server_step_wire:
  assumes E: "libs_ok E" and wf: "wf_log (server_log s)" and w: "node_wire E (node s)" and f: "fair_event E s e"
    and run: "server_step k E N e s = Ok s'"
  shows "node_wire E (node s')"
proof (cases e)
  case (Accepted error ip port)
  with run w show ?thesis by (auto simp: handle_accept_def split: option.splits)
next
  case (Arrived i error u tail up)
  let ?ss = "(live s ! i)\<lparr>buf_b := buf_b (live s ! i) @ u, incoming := tail, writable := up = There, known := up \<noteq> Gone\<rparr>"
  show ?thesis
  proof (cases "i < length (live s) \<and> listening (live s ! i) \<and> \<not> error")
    case True
    with run Arrived obtain ss where "read_packet k E N (node s) (?ss\<lparr>listening := False\<rparr>) = Ok (node s', ss)"
      by (auto simp: handle_read_def)
    moreover have "proper_packet E (buf_b ?ss)" "sized (?ss\<lparr>listening := False\<rparr>)"
      using f Arrived True by (simp_all add: sized_def)
    ultimately show ?thesis
      using read_packet_wire [OF _ _ _ wf w, of "?ss\<lparr>listening := False\<rparr>" k N] E by (simp add: libs_ok_def)
  next
    case False
    with run Arrived w show ?thesis by (auto simp: handle_read_def split: if_splits)
  qed
next
  case Txn_timer
  with run w narrows_wire [OF tm_check_narrows] show ?thesis by (auto simp: node_wire_def)
next
  case Rep_timer
  with run rm_check_wire [OF _ wf w] E show ?thesis by (auto simp: libs_ok_def)
qed

definition srv_wire :: "env \<Rightarrow> 'w server \<Rightarrow> bool" where
  "srv_wire E s \<longleftrightarrow> srv_ok E s \<and> node_wire E (node s)"

inductive fair_step :: "env \<Rightarrow> 'w net \<Rightarrow> 'w server \<Rightarrow> 'w server \<Rightarrow> bool" for E N where
  fair: "fair_event E s e \<Longrightarrow> server_step k E N e s = Ok s' \<Longrightarrow> fair_step E N s s'"

inductive_cases fair_stepE: "fair_step E N s s'"

interpretation wires: step_system "fair_step E N" "srv_wire E" srv_keep for E N
proof
  show "srv_wire E s \<Longrightarrow> fair_step E N s t \<Longrightarrow> srv_wire E t \<and> srv_keep s t" for s t :: "'a server"
  proof (elim fair_stepE)
    fix e k
    assume a: "srv_wire E s" "fair_event E s e" "server_step k E N e s = Ok t"
    then have "libs_ok E" "wf_log (server_log s)" "node_wire E (node s)" by (simp_all add: srv_wire_def srv_ok_def)
    with a server_step_kept [of E s e k N t] server_step_wire [of E s e k N t] fair_proper [OF a(2)]
    show "srv_wire E t \<and> srv_keep s t" by (simp add: srv_wire_def srv_ok_def srv_keep_def kept_def)
  qed
  show "srv_wire E s \<Longrightarrow> srv_keep s s" for s :: "'a server"
    by (simp add: srv_wire_def srv_ok_def srv_keep_def kept_refl)
  show "srv_keep a b \<Longrightarrow> srv_keep b c \<Longrightarrow> srv_keep a c" for a b c :: "'a server"
    by (auto simp: srv_keep_def intro: kept_trans)
qed

fun fair_run :: "nat \<Rightarrow> env \<Rightarrow> 'w net \<Rightarrow> event list \<Rightarrow> 'w server \<Rightarrow> bool" where
  "fair_run k E N [] s \<longleftrightarrow> True"
| "fair_run k E N (e # es) s \<longleftrightarrow> fair_event E s e \<and>
     (case server_step k E N e s of Ok s1 \<Rightarrow> fair_run k E N es s1 | Stop x \<Rightarrow> True)"

lemma fair_run_steps:
  "run_server k E N es s = Ok s' \<Longrightarrow> fair_run k E N es s \<Longrightarrow> (fair_step E N)\<^sup>*\<^sup>* s s'"
proof (induction es arbitrary: s)
  case (Cons e es)
  then obtain s1 where s1: "server_step k E N e s = Ok s1" "run_server k E N es s1 = Ok s'" by auto
  with Cons.prems have p: "fair_event E s e" "fair_run k E N es s1" by simp_all
  from fair [where N = N, OF p(1) s1(1)] Cons.IH [OF s1(2) p(2)] show ?case
    by (rule converse_rtranclp_into_rtranclp)
qed simp

end
