(* ===== verification/Answers.thy ===== *)
theory Answers
  imports Wire_Runs
begin

text \<open>
  What a session sends: every packet that arrives is answered, with one answer of the
  protocol or with the requests for what is missing, and nothing else is ever sent.
\<close>

section \<open>The form of an answer\<close>

text \<open>
  As a client of the server reads it: a line of five fields, the first a kind of answer, a
  blank line, and text that ends a line.
\<close>

definition answer_form :: "env \<Rightarrow> string \<Rightarrow> bool" where
  "answer_form E a \<longleftrightarrow>
     (case getline (a, False) [] of (g, head, st) \<Rightarrow>
        g \<and> length (tokens E head) = 5 \<and> hd (tokens E head) \<in> set answer_methods \<and>
        (case getline st [] of (g2, blank, st2) \<Rightarrow>
           g2 \<and> blank = [cr] \<and> 2 \<le> length (fst st2) \<and> drop (length (fst st2) - 2) (fst st2) = crlf))"

text \<open>A request for a missing write.\<close>

definition asks :: "env \<Rightarrow> string \<Rightarrow> bool" where
  "asks E a \<longleftrightarrow> (case getline (a, False) [] of (g, head, st) \<Rightarrow> hd (tokens E head) = ''ACK_RESEND'')"

lemma answer_lines:
  assumes "nl \<notin> set h"
  shows "answer_form E (h @ crlf @ crlf @ u @ crlf) \<longleftrightarrow>
      length (tokens E (h @ [cr])) = 5 \<and> hd (tokens E (h @ [cr])) \<in> set answer_methods"
    "asks E (h @ crlf @ crlf @ u @ crlf) \<longleftrightarrow> hd (tokens E (h @ [cr])) = ''ACK_RESEND''"
proof -
  have nlcr: "nl \<noteq> cr" by simp
  have a: "h @ crlf @ crlf @ u @ crlf = (h @ [cr]) @ nl # ([cr] @ nl # (u @ crlf))" by (simp add: crlf_def)
  have "nl \<notin> set (h @ [cr])" using assms nlcr by auto
  note g1 = getline_line [OF this, of "[cr] @ nl # (u @ crlf)" "[]"]
  have g2: "getline ([cr] @ nl # (u @ crlf), False) [] = (True, [cr], (u @ crlf, False))"
    using nlcr by (intro getline_line) auto
  have "length crlf = 2" by (simp add: crlf_def)
  with g1 g2 show "answer_form E (h @ crlf @ crlf @ u @ crlf) \<longleftrightarrow>
      length (tokens E (h @ [cr])) = 5 \<and> hd (tokens E (h @ [cr])) \<in> set answer_methods"
    "asks E (h @ crlf @ crlf @ u @ crlf) \<longleftrightarrow> hd (tokens E (h @ [cr])) = ''ACK_RESEND''"
    unfolding a answer_form_def asks_def by simp_all
qed

text \<open>The last field of a header line, with the carriage return that ends it.\<close>

lemma tokens_cr: "text_ok E \<Longrightarrow> plain s \<Longrightarrow> tokens E (s @ [cr]) = [s @ [cr]]"
  unfolding tokens_def text_ok_def by (rule text_lib.spl_last) (auto simp: plain_def)

lemma answer_tokens:
  assumes E: "text_ok E" and p: "plain a" "plain b" "plain c" "plain d" "plain e"
  shows "tokens E ((header_line a b c d @ '' '' @ e) @ [cr]) = [a, b, c, d, e @ [cr]]"
proof -
  have "(header_line a b c d @ '' '' @ e) @ [cr]
    = a @ CHR '' '' # (b @ CHR '' '' # (c @ CHR '' '' # (d @ CHR '' '' # (e @ [cr]))))"
    by (simp add: header_line_def)
  then show ?thesis
    by (simp only: tokens_blank [OF E p(1)] tokens_blank [OF E p(2)] tokens_blank [OF E p(3)] tokens_blank [OF E p(4)]
        tokens_cr [OF E p(5)])
qed

lemma kind_plain: "mt \<in> set answer_methods \<Longrightarrow> plain mt"
  by (auto simp: answer_methods_def plain_def)

lemma int_of_size_in32: "in_int32 (int_of_size n)"
proof -
  have "- (2 ^ 31) \<le> sint (word_of_nat n :: 32 word)" "sint (word_of_nat n :: 32 word) < 2 ^ 31"
    using sint_greater_eq [of "word_of_nat n :: 32 word"] sint_less [of "word_of_nat n :: 32 word"] by simp_all
  then show ?thesis by (simp add: int_of_size_def in_int32_def)
qed

lemma genAnswerStr_form:
  assumes E: "text_ok E" and h: "nl \<notin> set h" "cr \<notin> set h" and mt: "mt \<in> set answer_methods" and code: "plain code"
    and g: "genAnswerStr E mt h code e = Ok s"
  shows "answer_form E s" "asks E s \<longleftrightarrow> mt = ''ACK_RESEND''"
proof -
  have "3 \<le> length (tokens E h)" using g genAnswerStr_defined by blast
  then obtain a b c ds where t: "tokens E h = a # b # c # ds"
    by (auto simp: numeral_3_eq_3 Suc_le_length_iff)
  have p: "plain b" "plain c" using token_plain [OF E h] t by simp_all
  have "decimal 0 = ''0''" by code_simp
  then have z: "lex_str E (int_of_size 0) = ''0''"
    using text_lib.lstr_decimal [OF E [unfolded text_ok_def], of 0] by simp
  obtain n u where s: "s = (header_line mt b c code @ '' '' @ lex_str E (int_of_size n)) @ crlf @ crlf @ u @ crlf"
  proof (cases "e = '' ''")
    case True
    with genAnswerStr_shape [OF t, of mt code e] g z show ?thesis by (intro that [of 0 "[]"]) simp
  next
    case False
    with genAnswerStr_shape [OF t, of mt code e] g show ?thesis by (intro that [of "length e" e]) simp
  qed
  let ?e = "lex_str E (int_of_size n)"
  have e: "plain ?e" by (rule lex_str_plain [OF E int_of_size_in32])
  have "nl \<notin> set (header_line mt b c code @ '' '' @ ?e)"
    using header_line_no_nl [OF kind_plain [OF mt] p code] plain_line [OF e] by simp
  note l = answer_lines [OF this, of E u] and tk = answer_tokens [OF E kind_plain [OF mt] p code e]
  from l tk mt show "answer_form E s" "asks E s \<longleftrightarrow> mt = ''ACK_RESEND''" by (simp_all add: s)
qed

lemma code_plain [simp]:
  "plain ''201''" "plain ''202''" "plain ''204''" "plain ''205''" "plain ''206''" "plain ''220''" "plain ''301''"
  "plain ''321''" "plain ''404''" "plain ''200''"
  by (simp_all add: plain_def)

lemma kind_mem [simp]:
  "''ACK'' \<in> set answer_methods" "''ERROR'' \<in> set answer_methods" "''WARNING'' \<in> set answer_methods"
  "''AUTH_FAIL'' \<in> set answer_methods" "''ACK_RESEND'' \<in> set answer_methods"
  by (simp_all add: answer_methods_def)

section \<open>What the log handler reports\<close>

text \<open>A header whose fields an answer repeats: one line.\<close>

definition line_of :: "string \<Rightarrow> bool" where
  "line_of h \<longleftrightarrow> nl \<notin> set h \<and> cr \<notin> set h"

lemma form: "text_ok E \<Longrightarrow> line_of h \<Longrightarrow> mt \<in> set answer_methods \<Longrightarrow> plain code \<Longrightarrow>
    genAnswerStr E mt h code e = Ok s \<Longrightarrow> answer_form E s"
  unfolding line_of_def by (rule genAnswerStr_form) auto

definition report :: "env \<Rightarrow> bool \<Rightarrow> string \<Rightarrow> bool" where
  "report E r c \<longleftrightarrow> r \<and> c = [] \<or> \<not> r \<and> (c = ''committed'' \<or> c = ''incomplete'' \<or> answer_form E c)"

lemma report_form:
  assumes "text_ok E" "line_of h" "genAnswerStr E mt h code e = Ok c" "mt \<in> set answer_methods" "plain code"
  shows "report E False c"
  using form [OF assms(1,2,4,5,3)] by (simp add: report_def)

lemma commit_wait_report: "commit_wait E k q s = Ok (r, c, s') \<Longrightarrow> \<not> r \<and> report E r c"
  by (auto simp: commit_wait_def report_def)

lemma commit_ready_report:
  assumes "text_ok E" "line_of h" "commit_ready E h k q s = Ok (r, c, s')" shows "\<not> r \<and> report E r c"
proof -
  from assms(3) have "\<not> r \<and> (c = ''committed'' \<or> genAnswerStr E ''ERROR'' h ''205'' ''commit fail, i/o error'' = Ok c)"
    unfolding commit_ready_def by (elim bndE branchE) (auto split: if_splits)
  then show ?thesis by (auto simp: report_def dest: form [OF assms(1,2) kind_mem(2) code_plain(4)])
qed

lemma commit_report:
  assumes E: "text_ok E" and h: "line_of h" and run: "commit E h s = Ok (r, c, s')" shows "\<not> r \<and> report E r c"
  using run unfolding commit_def Let_def
  by (elim branchE bndE)
    (auto split: if_splits dest: commit_wait_report commit_ready_report [OF E h] intro: report_form [OF E h])

lemma fake_line:
  assumes "text_ok E" "in_int32 k" "in_int32 n" shows "line_of (fake_header E k n)"
  using plain_line [OF lex_str_plain [OF assms(1,2)]] plain_line [OF lex_str_plain [OF assms(1,3)]]
  by (simp add: line_of_def fake_header_def iToS_def)

lemma store_entry_report:
  assumes E: "text_ok E" and n: "in_int32 n" and run: "store_entry E h x st n t s = Ok (r, c, s')"
  shows "report E r c"
proof -
  consider "r \<and> c = []" | s1 where "commit E (fake_header E (getTsn E h) n) s1 = Ok (r, c, s')"
    using run unfolding store_entry_def Let_def by (elim branchE bndE) (auto split: if_splits)
  then show ?thesis
    using commit_report [OF E fake_line [OF E getTsn_in32 [OF E] n]] by cases (auto simp: report_def)
qed

lemma addLogEntry_report:
  assumes E: "text_ok E" and h: "line_of h" and run: "addLogEntry E h x s = Ok (r, c, s')"
  shows "report E r c"
proof (cases "getSeq E h < 1")
  case True
  with run show ?thesis by (auto simp: addLogEntry_def intro: report_form [OF E h])
next
  case seq: False
  show ?thesis
  proof (cases "om_find (log_trans s) (getTsn E h)")
    case None
    with seq run show ?thesis by (auto simp: addLogEntry_def intro: report_form [OF E h])
  next
    case (Some t)
    with seq run have "bnd (getStatus (log_trans s) (getTsn E h)) (\<lambda>status.
           if status = ''COMMITTED''
             then refuse E h ''ERROR'' ''202'' ''Transaction was previously committed'' s
           else if status = ''EXPIRED''
             then refuse E h ''ERROR'' ''220'' ''Transaction expired, please start a new one.'' s
           else if om_find t (getSeq E h) \<noteq> None
             then refuse E h ''WARNING'' ''301''
               ''SeqNum for current tsnID already received, ignored'' s
           else
             bnd (if status = ''WAITING'' then getStatusData (log_trans s) (getTsn E h) else Ok 0) (\<lambda>n.
             if status = ''WAITING'' \<and> n < getSeq E h
               then refuse E h ''ERROR'' ''202''
                 ''Sequence number for write is higher than pending commit. Ignored.'' s
             else store_entry E h x status n t s)) = Ok (r, c, s')"
      unfolding addLogEntry_def Let_def by (simp only: if_False option.case)
    then obtain st where "(if st = ''COMMITTED''
             then refuse E h ''ERROR'' ''202'' ''Transaction was previously committed'' s
           else if st = ''EXPIRED''
             then refuse E h ''ERROR'' ''220'' ''Transaction expired, please start a new one.'' s
           else if om_find t (getSeq E h) \<noteq> None
             then refuse E h ''WARNING'' ''301''
               ''SeqNum for current tsnID already received, ignored'' s
           else
             bnd (if st = ''WAITING'' then getStatusData (log_trans s) (getTsn E h) else Ok 0) (\<lambda>n.
             if st = ''WAITING'' \<and> n < getSeq E h
               then refuse E h ''ERROR'' ''202''
                 ''Sequence number for write is higher than pending commit. Ignored.'' s
             else store_entry E h x st n t s)) = Ok (r, c, s')" by (elim bndE)
    then show ?thesis
    proof (elim branchE bndE)
      fix n
      assume "getStatusData (log_trans s) (getTsn E h) = Ok n" "store_entry E h x st n t s = Ok (r, c, s')"
      from store_entry_report [OF E getStatusData_in32 [OF this(1)] this(2)] show ?thesis .
    next
      fix n :: int
      assume "Ok 0 = Ok n" "store_entry E h x st n t s = Ok (r, c, s')"
      then show ?thesis using store_entry_report [OF E, of 0] by simp
    qed (auto intro: report_form [OF E h])
  qed
qed

lemma abort_report:
  assumes E: "text_ok E" and h: "line_of h" and run: "abort_txn E h s = Ok (r, c, s')" shows "report E r c"
  using run unfolding abort_txn_def Let_def
  by (elim branchE bndE) (auto split: if_splits intro: report_form [OF E h] simp: report_def [of E True])

section \<open>Answers of the commands\<close>

definition one_more :: "env \<Rightarrow> session \<Rightarrow> session \<Rightarrow> bool" where
  "one_more E ss ss' \<longleftrightarrow> (\<exists>a. sent ss' = sent ss @ [a] \<and> answer_form E a)"

lemma sendACK_more: "sendACK a ss = Ok ss' \<Longrightarrow> answer_form E a \<Longrightarrow> one_more E ss ss'"
  by (auto simp: sendACK_def one_more_def split: if_splits)

lemma answer_more:
  assumes "text_ok E" "line_of h" "answer E mt h code e ss = Ok ss'" "mt \<in> set answer_methods" "plain code"
  shows "one_more E ss ss'"
  using assms(3) sendACK_more form [OF assms(1,2,4,5)] by (auto simp: answer_def)

text \<open>A transaction that waits for writes it does not have.\<close>

definition lacking :: "int \<Rightarrow> log \<Rightarrow> bool" where
  "lacking k l \<longleftrightarrow> \<not> server_key k \<and> (\<exists>a q. abs_log l k = Some a \<and> phase a = Waiting q \<and> 1 \<le> q \<and> \<not> unbroken (writes a) q)"

definition outcome :: "env \<Rightarrow> int \<Rightarrow> string \<Rightarrow> session \<Rightarrow> bool \<Rightarrow> string \<Rightarrow> 'w node \<Rightarrow> session \<Rightarrow> bool" where
  "outcome E i h ss ex err n' ss' \<longleftrightarrow>
     (if ex then one_more E ss ss' \<or> (i = 8 \<or> i = 9) \<and> sent ss' = sent ss
      else sent ss' = sent ss \<and> report E False err \<and> (err = ''incomplete'' \<longrightarrow> lacking (getTsn E h) (node_log n')))"

lemma says_incomplete:
  assumes "says E h v r ''incomplete''" "\<And>mt c e. v = Refuse mt c e \<Longrightarrow> mt \<in> set answer_methods" shows "v = Incomplete"
  using assms genAnswerStr_code by (fastforce simp: says_def split: verdict.splits)

lemma try_commit_lacks:
  "try_commit prim io q a = (Incomplete, a') \<Longrightarrow> phase a' = Waiting q \<and> 1 \<le> q \<and> \<not> unbroken (writes a') q"
  by (auto simp: try_commit_def split: if_splits)

lemma on_txn_at:
  assumes "on_txn f k m = (v, m')" "v \<noteq> not_found" shows "\<exists>a a'. m k = Some a \<and> f a = (v, a') \<and> m' = m(k \<mapsto> a')"
  using assms by (auto simp: on_txn_def split: option.splits prod.splits)

lemma commit_lacking:
  assumes E: "text_ok E" and wf: "wf_log (log_trans s)" and k: "\<not> server_key (getTsn E h)"
    and run: "commit E h s = Ok (r, ''incomplete'', s')"
  shows "lacking (getTsn E h) (log_trans s')"
proof -
  obtain v io where v: "spec_commit (is_primary (log_trans s)) io (getTsn E h) (getSeq E h) (abs_log (log_trans s))
      = (v, abs_log (log_trans s'))" "says E h v r ''incomplete''"
    using commit_sim [OF E wf k run] by blast
  have "v = Incomplete" using says_incomplete [OF v(2)] spec_commit_methods v(1) by blast
  with v(1) obtain a a' where c: "commit_txn (is_primary (log_trans s)) io (getSeq E h) a = (Incomplete, a')"
    and m: "abs_log (log_trans s') = (abs_log (log_trans s))(getTsn E h \<mapsto> a')"
    unfolding spec_commit_def by (auto simp: not_found_def dest!: on_txn_at)
  have "try_commit (is_primary (log_trans s)) io (getSeq E h) a = (Incomplete, a')"
    using c by (auto simp: commit_txn_def Let_def split: phase.splits if_splits)
  from try_commit_lacks [OF this] m k show ?thesis by (auto simp: lacking_def)
qed

lemma write_never_lacks:
  assumes E: "text_ok E" and wf: "wf_log (log_trans s)" and k: "\<not> server_key (getTsn E h)"
    and run: "addLogEntry E h x s = Ok (r, c, s')"
  shows "c \<noteq> ''incomplete''"
proof
  assume c: "c = ''incomplete''"
  obtain v io where v: "spec_write (is_primary (log_trans s)) io (getTsn E h) (getSeq E h) x (abs_log (log_trans s))
      = (v, abs_log (log_trans s'))" "says E h v r ''incomplete''"
    using write_sim [OF E wf k run] c by blast
  have vi: "v = Incomplete" using says_incomplete [OF v(2)] spec_write_methods v(1) by blast
  have "1 \<le> getSeq E h" using v(1) vi by (auto simp: spec_write_def split: if_splits)
  with v(1) vi obtain a a' where w: "write_txn (is_primary (log_trans s)) io (getSeq E h) x a = (Incomplete, a')"
    unfolding spec_write_def by (auto simp: not_found_def dest!: on_txn_at)
  then show False
    by (auto simp: write_txn_def try_commit_def Let_def split: phase.splits if_splits)
qed

lemma abort_never_lacks: "abort_txn E h s = Ok (r, c, s') \<Longrightarrow> c \<noteq> ''incomplete''"
  unfolding abort_txn_def Let_def
  by (elim branchE bndE) (auto split: if_splits dest: genAnswerStr_code(2))

text \<open>The answer to \<open>NEW_TXN\<close>, which separates its fields with tabs.\<close>

lemma new_answer_form:
  assumes E: "text_ok E" and k: "in_int32 k"
  shows "answer_form E (''ACK'' @ [tab] @ lex_str E k @ [tab] @ ''0'' @ [tab] @ ''0'' @ [tab] @ ''0'' @ crlf @ crlf @ crlf)"
proof -
  let ?h = "''ACK'' @ tab # (lex_str E k @ tab # (''0'' @ tab # (''0'' @ tab # ''0'')))"
  note pk = lex_str_plain [OF E k] and pa = kind_plain [OF kind_mem(1)]
  have nl: "nl \<notin> set ?h" using plain_line [OF pk] by simp
  have "?h @ [cr] = ''ACK'' @ tab # (lex_str E k @ tab # (''0'' @ tab # (''0'' @ tab # (''0'' @ [cr]))))" by simp
  then have "tokens E (?h @ [cr]) = [''ACK'', lex_str E k, ''0'', ''0'', ''0'' @ [cr]]"
    by (simp only: tokens_tab [OF E pa] tokens_tab [OF E pk] tokens_tab [OF E zero_field(1)] tokens_cr [OF E zero_field(1)])
  then have "answer_form E (?h @ crlf @ crlf @ [] @ crlf)"
    unfolding answer_lines(1) [OF nl] by simp
  then show ?thesis by simp
qed

lemma failed_outcome:
  assumes "text_ok E" "line_of h" "mt \<in> set answer_methods" "plain code"
    and "failed E mt h code e n ss = Ok (ex, err, n', ss')"
  shows "outcome E i h ss ex err n' ss'"
  using assms report_form [OF assms(1,2) _ assms(3,4)] genAnswerStr_code(2)
  by (fastforce simp: outcome_def)

lemma ex_outcome: "one_more E ss ss' \<Longrightarrow> outcome E i h ss True err n' ss'"
  by (simp add: outcome_def)

lemma do_abort_outcome:
  assumes E: "text_ok E" and h: "line_of h" and run: "do_abort E h x n ss = Ok (ex, err, n', ss')"
  shows "outcome E i h ss ex err n' ss'"
proof -
  from run obtain ret c s1 where a: "abort_txn E h (lh n) = Ok (ret, c, s1)"
    and rest: "ret \<and> ex \<and> answer E ''ACK'' h ''0'' ''Aborted'' ss = Ok ss' \<or> \<not> ret \<and> \<not> ex \<and> err = c \<and> ss' = ss"
    by (auto simp: do_abort_def split: if_splits)
  from rest show ?thesis
    using answer_more [OF E h _ kind_mem(1) zero_field(1)] abort_report [OF E h a] abort_never_lacks [OF a]
    by (auto simp: outcome_def report_def)
qed

lemma do_new_txn_outcome:
  assumes E: "text_ok E" "random_ok E" and h: "line_of h" and w: "wire_log E (node_log n)"
    and x: "nl \<notin> set x" "int (length x) < 2147483647" and run: "do_new_txn E h x n ss = Ok (ex, err, n', ss')"
  shows "outcome E i h ss ex err n' ss'"
proof -
  from run obtain rn s1 where a: "newTxn E x (lh n) = Ok (rn, s1)"
    and rest: "(if rn = 0 then failed E ''ERROR'' h ''205'' ''Invalid file name.'' (set_lh s1 n) ss
       else
         bnd (sendACK (''ACK'' @ [tab] @ lex_str E rn @ [tab] @ ''0'' @ [tab] @ ''0'' @ [tab] @ ''0''
           @ crlf @ crlf @ crlf) ss) (\<lambda>ss1.
         bnd (enqueue (''MAKE_TXN '' @ lex_str E rn @ '' 0 0 0'') x (set_lh s1 n)) (\<lambda>n1.
           Ok (True, [], n1, ss1)))) = Ok (ex, err, n', ss')"
    by (auto simp: do_new_txn_def simp del: bnd_eq_Ok Ok_eq_bnd elim!: bndE)
  show ?thesis
  proof (cases "rn = 0")
    case True
    with rest have "failed E ''ERROR'' h ''205'' ''Invalid file name.'' (set_lh s1 n) ss = Ok (ex, err, n', ss')"
      by (simp del: failed_Ok)
    from failed_outcome [OF E(1) h kind_mem(2) code_plain(4) this] show ?thesis .
  next
    case False
    with newTxn_wire [OF E w x a] have "in_int32 rn" by simp
    from new_answer_form [OF E(1) this] rest False show ?thesis
      by (auto intro!: ex_outcome sendACK_more)
  qed
qed

lemma do_commit_outcome:
  assumes E: "text_ok E" and h: "line_of h" and wf: "wf_log (node_log n)" and k: "\<not> server_key (getTsn E h)"
    and run: "do_commit_cmd E h x n ss = Ok (ex, err, n', ss')"
  shows "outcome E i h ss ex err n' ss'"
proof -
  from run obtain s1 where a: "commit E h (lh n) = Ok (ex, err, s1)" and n': "\<not> ex \<longrightarrow> n' = set_lh s1 n \<and> ss' = ss"
    by (auto simp: do_commit_cmd_def split: if_splits)
  note r = commit_report [OF E h a]
  have "lacking (getTsn E h) (log_trans s1)" if "err = ''incomplete''"
    using commit_lacking [OF E wf k] a that by blast
  with r n' show ?thesis by (auto simp: outcome_def)
qed

lemma do_write_outcome:
  assumes E: "text_ok E" and h: "line_of h" and wf: "wf_log (node_log n)" and k: "\<not> server_key (getTsn E h)"
    and run: "do_write E h x n ss = Ok (ex, err, n', ss')"
  shows "outcome E i h ss ex err n' ss'"
proof -
  from run obtain s1 where a: "addLogEntry E h x (lh n) = Ok (ex, err, s1)"
    and rest: "ex \<and> answer E ''ACK'' h ''0'' '' '' ss = Ok ss' \<or> \<not> ex \<and> ss' = ss"
    by (auto simp: do_write_def split: if_splits)
  from rest show ?thesis
    using answer_more [OF E h _ kind_mem(1) zero_field(1)] addLogEntry_report [OF E h a] write_never_lacks [OF E wf k a]
    by (auto simp: outcome_def report_def)
qed

lemma executeCommand_outcome:
  assumes E: "text_ok E" "random_ok E" and wf: "wf_log (node_log n)" and w: "node_wire E n" and h: "heard E i h x"
    and run: "executeCommand E N i h x n ss = Ok (ex, err, n', ss')"
  shows "outcome E i h ss ex err n' ss'"
proof -
  have l: "line_of h" and x: "nl \<notin> set x" "int (length x) < 2147483647" using h by (simp_all add: heard_def line_of_def)
  have wl: "wire_log E (node_log n)" using w by (simp add: node_wire_def)
  have k: "i = 3 \<or> i = 5 \<Longrightarrow> \<not> server_key (getTsn E h)" using h by (auto simp: heard_def proper_def)
  note more = answer_more [OF E(1) l _ kind_mem(1)]
  consider mt code e where "failed E mt h code e n ss = Ok (ex, err, n', ss')" "mt \<in> set answer_methods" "plain code"
    | "do_abort E h x n ss = Ok (ex, err, n', ss')" | "do_new_txn E h x n ss = Ok (ex, err, n', ss')"
    | "i = 3" "do_commit_cmd E h x n ss = Ok (ex, err, n', ss')" | "do_read E h x n ss = Ok (ex, err, n', ss')"
    | "i = 5" "do_write E h x n ss = Ok (ex, err, n', ss')" | "do_make_txn E h x n ss = Ok (ex, err, n', ss')"
    | "do_ping E h x n ss = Ok (ex, err, n', ss')" | "ex" "i = 8 \<or> i = 9" "sent ss' = sent ss"
  proof -
    from run obtain auth where run: "(if \<not> auth then failed E ''AUTH_FAIL'' h ''321'' ''Not authorized'' n ss
       else if i < 1 then failed E ''ERROR'' h ''204'' ''Invalid method'' n ss
       else if i = 1 then do_abort E h x n ss
       else if i = 2 then do_new_txn E h x n ss
       else if i = 3 then do_commit_cmd E h x n ss
       else if i = 4 then do_read E h x n ss
       else if i = 5 then do_write E h x n ss
       else if i = 6 then do_make_txn E h x n ss
       else if i = 7 then do_ping E h x n ss
       else if i = 8 then Ok (True, [], n, doAuth (rem_ip ss) (rem_port ss) ss)
       else if i = 9 then bnd (switchToBackup N n) (\<lambda>(b, n1). Ok (True, [], n1, ss))
       else failed E ''ERROR'' h ''204'' ''Invalid method'' n ss) = Ok (ex, err, n', ss')"
      by (rule executed)
    show thesis
      using run that(1) [OF _ kind_mem(4) code_plain(8)] that(1) [OF _ kind_mem(2) code_plain(3)] that(2-9)
      by (simp del: failed_Ok bnd_eq_Ok split: if_split_asm) (auto simp: doAuth_def)
  qed
  then show ?thesis
  proof cases
    case 1
    from failed_outcome [OF E(1) l 1(2,3,1)] show ?thesis .
  next
    case 5
    then have "ex \<and> (\<exists>u. answer E ''ACK'' h ''0'' u ss = Ok ss') \<or> (\<exists>e. failed E ''ERROR'' h ''206'' e n ss = Ok (ex, err, n', ss'))"
      by (auto simp: do_read_def Let_def split: prod.splits if_splits)
    with more [OF _ zero_field(1)] failed_outcome [OF E(1) l kind_mem(2) code_plain(5)] ex_outcome show ?thesis by metis
  next
    case 7
    then have "ex" "answer E ''ACK'' h ''0'' ''Created'' ss = Ok ss'" by (auto simp: do_make_txn_def)
    with more [OF _ zero_field(1)] ex_outcome show ?thesis by metis
  next
    case 8
    then have "ex" "answer E ''ACK'' h ''200'' '' '' ss = Ok ss'" by (auto simp: do_ping_def split: if_splits)
    with more [OF _ code_plain(10)] ex_outcome show ?thesis by metis
  next
    case 9
    then show ?thesis by (simp add: outcome_def)
  qed (use do_abort_outcome [OF E(1) l] do_new_txn_outcome [OF E l wl x] do_commit_outcome [OF E(1) l wf k]
      do_write_outcome [OF E(1) l wf k] in blast)+
qed

section \<open>The whole packet\<close>

text \<open>
  What a packet of method \<open>i\<close> adds to what the session has sent: nothing for \<open>AUTH\<close> and
  \<open>KILL\<close>, one answer, or requests for missing writes.
\<close>

definition answered :: "env \<Rightarrow> bool \<Rightarrow> session \<Rightarrow> session \<Rightarrow> bool" where
  "answered E silent ss ss' \<longleftrightarrow> (\<exists>as. sent ss' = sent ss @ as \<and> list_all (answer_form E) as
     \<and> (as = [] \<longrightarrow> silent) \<and> (2 \<le> length as \<longrightarrow> list_all (asks E) as))"

lemma answered_more: "one_more E ss ss' \<Longrightarrow> answered E silent ss ss'"
  by (auto simp: one_more_def answered_def)

lemma answered_weak: "answered E s1 ss ss' \<Longrightarrow> (s1 \<Longrightarrow> s2) \<Longrightarrow> answered E s2 ss ss'"
  by (auto simp: answered_def)

lemma answered_start: "answered E s (start ss) ss' \<Longrightarrow> answered E s ss ss'"
  by (simp add: answered_def start_def)

lemma ask_form:
  assumes E: "text_ok E" and k: "in_int32 k" "in_int32 i"
  shows "answer_form E (ask E k i)" "asks E (ask E k i)"
proof -
  let ?h = "header_line ''ACK_RESEND'' (lex_str E k) (lex_str E i) ''0'' @ '' 0''"
  have z: "'' 0'' = '' '' @ ''0''" by simp
  note p = kind_plain [OF kind_mem(5)] lex_str_plain [OF E k(1)] lex_str_plain [OF E k(2)] zero_field(1)
  have nl: "nl \<notin> set ?h" using header_line_no_nl [OF p] by simp
  have a: "ask E k i = ?h @ crlf @ crlf @ [] @ crlf" by (simp add: ask_def)
  show "answer_form E (ask E k i)" "asks E (ask E k i)"
    unfolding a answer_lines [OF nl] unfolding z answer_tokens [OF E p p(4)] by simp_all
qed

lemma resend_answered:
  assumes E: "text_ok E" and wf: "wf_log l" and w: "wire_log E l" and k: "in_int32 k" "lacking k l"
    and run: "sendACK_RESEND E k l ss = Ok ss'"
  shows "answered E False ss ss'"
proof -
  obtain a q where a: "abs_log l k = Some a" "phase a = Waiting q" "1 \<le> q" "\<not> unbroken (writes a) q" and sk: "\<not> server_key k"
    using k(2) by (auto simp: lacking_def)
  obtain t where t: "om_find l k = Some t" "a = abs_txn t" using a(1) sk by (auto simp: abs_log_find)
  have q: "in_int32 q"
  proof -
    obtain st d where p: "om_find t (- 1) = Some (st, d)" and ws: "wf_status t (st, d)"
      using wf_txn_status [OF wf_log_txn [OF wf t(1) sk]] by (metis prod.exhaust_sel)
    have "q = atoi_val d" using a(2) t(2) abs_phase [OF p] by (auto split: if_splits)
    with wf_status_int32 [OF ws] show ?thesis by simp
  qed
  have keys: "in_int32 j" if j: "writes a j \<noteq> None" for j
    using wire_txnD [OF w sk t(1)] j t(2) unfolding wire_txn_iff
    by (auto simp: abs_txn_def split: if_splits)
  from resend_missing [OF E wf k(1) sk a(1,2) keys] obtain ms where
    r: "\<forall>ss. writable ss \<longrightarrow> sendACK_RESEND E k l ss = Ok (ss\<lparr>sent := sent ss @ map (ask E k) (rev ms)\<rparr>)"
    and ms: "set ms = {i. 1 \<le> i \<and> (i \<le> q \<or> (\<exists>j. writes a j \<noteq> None \<and> i \<le> j)) \<and> writes a i = None}" by blast
  have "set ms \<noteq> {}" unfolding ms using a(4) by (auto simp: unbroken_def)
  then have ne: "ms \<noteq> []" by auto
  have i32: "in_int32 i" if i: "i \<in> set ms" for i
  proof -
    from i ms obtain "1 \<le> i" "i \<le> q \<or> (\<exists>j. writes a j \<noteq> None \<and> i \<le> j)" by auto
    with q keys show ?thesis by (force simp: in_int32_def)
  qed
  have "writable ss"
  proof (rule ccontr)
    assume nw: "\<not> writable ss"
    from run obtain n can qs where c: "getStatusData l k = Ok n" "canCommit l k n [] = Ok (can, qs)"
      and "resend_loop E k (rev qs) ss = Ok ss'"
      by (auto simp: sendACK_RESEND_def)
    with nw have "qs = []" by (cases "rev qs") (auto simp: answer_def sendACK_def)
    with c have "sendACK_RESEND E k l (ss\<lparr>writable := True\<rparr>) = Ok (ss\<lparr>writable := True\<rparr>)"
      by (simp add: sendACK_RESEND_def)
    moreover have "sendACK_RESEND E k l (ss\<lparr>writable := True\<rparr>) =
        Ok ((ss\<lparr>writable := True\<rparr>)\<lparr>sent := sent (ss\<lparr>writable := True\<rparr>) @ map (ask E k) (rev ms)\<rparr>)"
      using r by simp
    ultimately have "sent (ss\<lparr>writable := True\<rparr>)
        = sent ((ss\<lparr>writable := True\<rparr>)\<lparr>sent := sent (ss\<lparr>writable := True\<rparr>) @ map (ask E k) (rev ms)\<rparr>)"
      by (metis res.inject(1))
    with ne show False by simp
  qed
  with r run have s: "ss' = ss\<lparr>sent := sent ss @ map (ask E k) (rev ms)\<rparr>" by simp
  have "list_all (answer_form E) (map (ask E k) (rev ms)) \<and> list_all (asks E) (map (ask E k) (rev ms))"
    using ask_form [OF E k(1) i32] by (simp add: list_all_iff)
  with s ne show ?thesis by (auto simp: answered_def)
qed

lemma doCommit_more:
  assumes E: "text_ok E" and h: "line_of h" and run: "doCommit j E N h n ss = Ok (n', ss')"
  shows "one_more E ss ss'"
proof -
  from run obtain ack role where ack: "genAnswerStr E ''ACK'' h ''0'' ''Committed successfully.'' = Ok ack"
    and rest: "(if role = ''primary'' then
         bnd (getStatusData (node_log n) (getTsn E h)) (\<lambda>seq.
         bnd (rm_commit j E N (commit_message E h seq) n) (\<lambda>(good, n1).
           if good then
             bnd (commit_local E (getTsn E h) (lh n1)) (\<lambda>s1.
             bnd (sendACK ack ss) (\<lambda>ss1. Ok (n1\<lparr>lh := s1\<rparr>, ss1)))
           else
             bnd (answer E ''ERROR'' h ''205'' ''commit fail, i/o error'' ss) (\<lambda>ss1. Ok (n1, ss1))))
       else bnd (sendACK ack ss) (\<lambda>ss1. Ok (n, ss1))) = Ok (n', ss')"
    unfolding doCommit_def by (elim bndE)
  have "sendACK ack ss = Ok ss' \<or> answer E ''ERROR'' h ''205'' ''commit fail, i/o error'' ss = Ok ss'"
    using rest by (elim branchE bndE) (auto split: if_splits)
  then show ?thesis
    using sendACK_more form [OF E h kind_mem(1) zero_field(1) ack] answer_more [OF E h _ kind_mem(2) code_plain(4)] by blast
qed

lemma act_answered:
  assumes E: "text_ok E" "random_ok E" "files_ok E" and wf: "wf_log (node_log n)" and w: "node_wire E n"
    and h: "\<And>i. parse E h = Ok i \<Longrightarrow> heard E i h x" and run: "act j E N h x n ss = Ok (n', ss')"
  shows "answered E (parse E h = Ok 8 \<or> parse E h = Ok 9) ss ss'"
proof -
  from run obtain i ex err n1 ss1 where i: "parse E h = Ok i"
    and e: "executeCommand E N i h x n (start ss) = Ok (ex, err, n1, ss1)"
    and r: "respond j E N h (ex, err, n1, ss1) = Ok (n', ss')"
    by (auto simp: act_def)
  have p: "proper E i h" and l: "line_of h" using h [OF i] by (simp_all add: heard_def line_of_def)
  note g = executeCommand_good [OF E wf p e] and o = executeCommand_outcome [OF E(1,2) wf w h [OF i] e]
  have w1: "wire_log E (node_log n1)" using executeCommand_wire [OF E(1,2) wf w h [OF i] e] by (simp add: node_wire_def)
  have wf1: "wf_log (node_log n1)" using g by (simp add: good_outcome_def kept_def)
  have "answered E (i = 8 \<or> i = 9) (start ss) ss'"
  proof (cases ex)
    case True
    with o r have "ss' = ss1" "one_more E (start ss) ss' \<or> (i = 8 \<or> i = 9) \<and> sent ss' = sent (start ss)"
      by (auto simp: outcome_def respond_simps)
    then show ?thesis using answered_more by (auto simp: answered_def)
  next
    case False
    with o have s: "sent ss1 = sent (start ss)" and rep: "report E False err"
      and lk: "err = ''incomplete'' \<longrightarrow> lacking (getTsn E h) (node_log n1)" by (simp_all add: outcome_def)
    have "answered E False ss1 ss'"
    proof (cases "err = ''incomplete''")
      case True
      with False r have "sendACK_RESEND E (getTsn E h) (node_log n1) ss1 = Ok ss'" by (auto simp: respond_simps)
      with resend_answered [OF E(1) wf1 w1 getTsn_in32 [OF E(1)]] lk True show ?thesis by blast
    next
      case ni: False
      show ?thesis
      proof (cases "err = ''committed''")
        case True
        with False r have "doCommit j E N h n1 ss1 = Ok (n', ss')" by (simp add: respond_simps)
        from answered_more [OF doCommit_more [OF E(1) l this]] show ?thesis .
      next
        case nc: False
        with ni False r rep show ?thesis
          by (auto simp: respond_simps report_def intro: answered_more sendACK_more)
      qed
    qed
    with s show ?thesis by (auto simp: answered_def)
  qed
  from answered_start [OF this] show ?thesis by (rule answered_weak) (use i in auto)
qed

lemma reject_more:
  assumes "text_ok E" "nl \<notin> set h" "cr \<notin> set h" "reject E h u n ss = Ok (n', ss')"
  shows "one_more E ss ss'"
proof -
  from assms(4) obtain ss1 where a: "answer E ''ERROR'' h ''204'' u ss = Ok ss1" "ss' = start ss1"
    by (auto simp: reject_def)
  have "line_of h" using assms(2,3) by (simp add: line_of_def)
  from answer_more [OF assms(1) this a(1) kind_mem(2) code_plain(3)] a(2) show ?thesis
    by (simp add: one_more_def start_def)
qed

text \<open>Methods that are not answered.\<close>

definition unanswered :: "env \<Rightarrow> string \<Rightarrow> bool" where
  "unanswered E buf \<longleftrightarrow> (case packet_header E buf of Some h \<Rightarrow> parse E h = Ok 8 \<or> parse E h = Ok 9 | None \<Rightarrow> False)"

lemma read_packet_answered:
  assumes E: "text_ok E" "random_ok E" "files_ok E" and wf: "wf_log (node_log n)" and w: "node_wire E n"
    and p: "proper_packet E (buf_b ss)" and z: "sized ss" and l: "\<not> listening ss"
    and run: "read_packet j E N n ss = Ok (n', ss')"
  shows "answered E (unanswered E (buf_b ss) \<or> incoming ss' = [] \<and> \<not> listening ss') ss ss'"
  using p z run
proof (cases rule: read_packet_cases)
  case (acts h y ss1)
  from act_answered [OF E wf w acts(2,3)] acts(1,4) show ?thesis
    by (auto simp: answered_def unanswered_def)
next
  case (rejects h u ss1)
  with answered_more [OF reject_more [OF E(1) rejects(1-3)]] show ?thesis by (auto simp: answered_def)
next
  case broken
  with l show ?thesis by (simp add: answered_def)
qed

section \<open>Runs\<close>

text \<open>Nothing but answers was ever sent to the peers of the sessions that are there.\<close>

definition sent_answers :: "env \<Rightarrow> 'w server \<Rightarrow> bool" where
  "sent_answers E s \<longleftrightarrow> list_all (\<lambda>ss. list_all (answer_form E) (sent ss)) (live s)
     \<and> (case accepting s of Some ss \<Rightarrow> sent ss = [] | None \<Rightarrow> True)"

lemma list_all_update: "list_all P xs \<Longrightarrow> P x \<Longrightarrow> list_all P (xs[i := x])"
  by (induction xs arbitrary: i) (auto split: nat.split)

lemma server_step_answers:
  assumes w: "srv_wire E s" and a: "sent_answers E s" and f: "fair_event E s e" and run: "server_step k E N e s = Ok s'"
  shows "sent_answers E s'"
proof (cases e)
  case (Accepted error ip port)
  with run have s': "s' = handle_accept error ip port s" by simp
  show ?thesis
  proof (cases "accepting s")
    case None
    with a show ?thesis by (simp add: s' handle_accept_def)
  next
    case (Some ss)
    with a show ?thesis
      by (cases error) (simp_all add: s' sent_answers_def handle_accept_def start_def Session_init_def)
  qed
next
  case (Arrived i error u tail up)
  let ?ss = "(live s ! i)\<lparr>buf_b := buf_b (live s ! i) @ u, incoming := tail, writable := up = There, known := up \<noteq> Gone\<rparr>"
  have E: "text_ok E" "random_ok E" "files_ok E" and wf: "wf_log (server_log s)" and nw: "node_wire E (node s)"
    using w by (simp_all add: srv_wire_def srv_ok_def libs_ok_def)
  have al: "list_all (\<lambda>ss. list_all (answer_form E) (sent ss)) (live s)" using a by (simp add: sent_answers_def)
  show ?thesis
  proof (cases "i < length (live s) \<and> listening (live s ! i)")
    case True
    with run Arrived obtain n so where h: "handle_read k E N error (node s) ?ss = Ok (n, so)"
      and s': "s' = s\<lparr>node := n, live := (case so of Some ss1 \<Rightarrow> (live s)[i := ss1]
        | None \<Rightarrow> take i (live s) @ drop (Suc i) (live s))\<rparr>"
      by auto
    show ?thesis
    proof (cases error)
      case True
      have "list_all (\<lambda>ss. list_all (answer_form E) (sent ss)) (take i (live s) @ drop (Suc i) (live s))"
        using al by (auto simp: list_all_iff dest: in_set_takeD in_set_dropD)
      with True h s' a show ?thesis by (simp add: sent_answers_def handle_read_def)
    next
      case ok: False
      with h obtain ss where ss: "read_packet k E N (node s) (?ss\<lparr>listening := False\<rparr>) = Ok (n, ss)" "so = Some ss"
        by (auto simp: handle_read_def)
      have p: "proper_packet E (buf_b (?ss\<lparr>listening := False\<rparr>))" "sized (?ss\<lparr>listening := False\<rparr>)"
        "\<not> listening (?ss\<lparr>listening := False\<rparr>)"
        using f Arrived ok by (simp_all add: sized_def)
      from read_packet_answered [OF E wf nw p ss(1)] obtain as where
        as: "sent ss = sent (live s ! i) @ as" "list_all (answer_form E) as" by (auto simp: answered_def)
      have "list_all (answer_form E) (sent (live s ! i))" using al True by (simp add: list_all_length)
      with as have "list_all (answer_form E) (sent ss)" by simp
      with al have "list_all (\<lambda>ss. list_all (answer_form E) (sent ss)) ((live s)[i := ss])"
        by (intro list_all_update)
      with a s' ss(2) show ?thesis by (simp add: sent_answers_def)
    qed
  next
    case False
    with run Arrived a show ?thesis by simp
  qed
next
  case Txn_timer
  with run obtain n1 t1 where "s' = s\<lparr>tm := t1, node := n1\<rparr>" by auto
  with a show ?thesis by (simp add: sent_answers_def)
next
  case Rep_timer
  with run obtain n1 where "s' = s\<lparr>node := n1\<rparr>" by auto
  with a show ?thesis by (simp add: sent_answers_def)
qed

interpretation talk: step_system "fair_step E N" "\<lambda>s. srv_wire E s \<and> sent_answers E s" srv_keep for E N
proof
  show "srv_wire E s \<and> sent_answers E s \<Longrightarrow> fair_step E N s t \<Longrightarrow> (srv_wire E t \<and> sent_answers E t) \<and> srv_keep s t"
    for s t :: "'a server"
    using wires.step_ok [of E s N t] server_step_answers [of E s] by (auto elim!: fair_stepE)
  show "srv_wire E s \<and> sent_answers E s \<Longrightarrow> srv_keep s s" for s :: "'a server"
    using wires.keep_refl by blast
  show "srv_keep a b \<Longrightarrow> srv_keep b c \<Longrightarrow> srv_keep a c" for a b c :: "'a server"
    by (rule wires.keep_trans)
qed

end
