(* ===== verification/Session_Safety.thy ===== *)
theory Session_Safety
  imports Answers Log_Safety
begin

text \<open>
  A client cannot bring a backup into undefined behaviour: a packet that names no entry of the
  server's own and whose numbers stay in range is handled, or the handler throws where the log
  cannot be saved or the client is gone, or the search for a free number does not end.
\<close>

section \<open>Results that are defined\<close>

definition tame :: "'a res \<Rightarrow> bool" where
  "tame m \<longleftrightarrow> is_ok m \<or> m = Stop Thrown \<or> m = Stop Diverged"

lemma tame_simps [simp]:
  "tame (Ok a)" "tame (Stop e) \<longleftrightarrow> e = Thrown \<or> e = Diverged"
  by (simp_all add: tame_def is_ok_def)

lemma tame_bnd: "tame m \<Longrightarrow> (\<And>a. m = Ok a \<Longrightarrow> tame (f a)) \<Longrightarrow> tame (bnd m f)"
  by (cases m) auto

lemma defined_tame: "defined m \<Longrightarrow> tame m"
  by (auto simp: defined_def tame_def)

lemma tame_not_undefined: "tame m \<Longrightarrow> m \<noteq> Stop Undefined \<and> m \<noteq> Stop (Exited i)"
  by (auto simp: tame_def is_ok_def)

lemma tame_save: "tame (save E s)"
  by (rule defined_tame [OF defined_save])

lemma tame_sendACK: "tame (sendACK a ss)"
  by (simp add: sendACK_def)

lemma tame_answer: "3 \<le> length (tokens E h) \<Longrightarrow> tame (answer E mt h c e ss)"
  unfolding answer_def by (intro tame_bnd defined_tame [OF defined_answer] tame_sendACK)

lemma tame_failed: "3 \<le> length (tokens E h) \<Longrightarrow> tame (failed E mt h c e n ss)"
  unfolding failed_def by (intro tame_bnd defined_tame [OF defined_answer]) simp_all

lemma tame_enqueue: "wf_log (log_trans s) \<Longrightarrow> tame (enqueue h x (set_lh s n))"
  using wf_log_role [of "log_trans s"] by (auto simp: enqueue_def)

lemma tame_newTxn: "tame (newTxn E f s)"
  by (auto simp: newTxn_def tame_save intro: tame_bnd split: option.split prod.split)

lemma tame_makeTxn: "tame (makeTxn E f k s)"
  unfolding makeTxn_def by (auto intro: tame_bnd tame_save)

lemma tame_resend: "text_ok E \<Longrightarrow> in_int32 k \<Longrightarrow> tame (resend_loop E k qs ss)"
proof (induction qs arbitrary: ss)
  case (Cons i qs)
  have p: "plain ''empty''" by (simp add: plain_def)
  have "tokens E (''empty'' @ tab # (lex_str E k @ tab # u)) = ''empty'' # lex_str E k # tokens E u" for u
    by (simp only: tokens_tab [OF Cons.prems(1) p] tokens_tab [OF Cons.prems(1) lex_str_plain [OF Cons.prems]])
  moreover have "tokens E (lex_str E i @ [tab]) \<noteq> []" by (rule tokens_nonempty [OF Cons.prems(1)])
  ultimately have "3 \<le> length (tokens E (''empty'' @ [tab] @ iToS E k @ [tab] @ iToS E i @ [tab]))"
    by (cases "tokens E (lex_str E i @ [tab])") (simp_all add: iToS_def)
  then show ?case
    using Cons by (auto intro!: tame_bnd tame_answer)
qed simp

lemma tame_ask:
  assumes E: "text_ok E" and wf: "wf_log l" and k: "in_int32 k" "lacking k l"
  shows "tame (sendACK_RESEND E k l ss)"
proof -
  obtain t where t: "om_find l k = Some t" using k(2) by (auto simp: lacking_def abs_log_find)
  have wt: "wf_txn t" using wf_log_txn [OF wf t] k(2) by (simp add: lacking_def)
  obtain st d where p: "om_find t (- 1) = Some (st, d)" "wf_status t (st, d)"
    using wf_txn_status [OF wt] by (metis prod.exhaust_sel)
  have "atoi d = Ok (atoi_val d)" using wf_status_int32 [OF p(2)] by (simp add: atoi_def)
  with t p(1) canCommit_eval [OF t wf_txn_base [OF wt]] tame_resend [OF E k(1)] show ?thesis
    by (simp add: sendACK_RESEND_def getStatusData_eval)
qed

section \<open>Commands on a backup\<close>

text \<open>A request whose numbers are in range, on a log whose pending commits are.\<close>

definition ranged :: "env \<Rightarrow> int \<Rightarrow> string \<Rightarrow> log \<Rightarrow> bool" where
  "ranged E i h l \<longleftrightarrow> is_ok (getBytes E h) \<and> proper E i h \<and> (i = 3 \<longrightarrow> getSeq E h < 2147483647)
     \<and> (i = 7 \<longrightarrow> backupRegistered l)
     \<and> (i = 5 \<longrightarrow> (\<forall>a n. abs_log l (getTsn E h) = Some a \<and> phase a = Waiting n \<longrightarrow> n < 2147483647))"

lemma validHeader_3: "validHeader E h \<Longrightarrow> 3 \<le> length (tokens E h)"
  by (simp add: validHeader_def)

lemma write_wf:
  "text_ok E \<Longrightarrow> wf_log (log_trans s) \<Longrightarrow> \<not> server_key (getTsn E h) \<Longrightarrow> addLogEntry E h x s = Ok (r, c, s') \<Longrightarrow>
     wf_log (log_trans s')"
  using write_sim by blast

lemma executeCommand_tame:
  assumes E: "text_ok E" "random_ok E" "files_ok E" and wf: "wf_log (node_log n)"
    and role: "getRole (node_log n) = Ok ''backup''" and v: "validHeader E h" and r: "ranged E i h (node_log n)"
  shows "tame (executeCommand E N i h x n ss)"
proof -
  note h = validHeader_3 [OF v]
  have k: "\<not> server_key (getTsn E h)" if "i = 1 \<or> i = 3 \<or> i = 5 \<or> i = 6"
    using r that by (auto simp: ranged_def proper_def)
  note ans = tame_answer [OF h] and bad = tame_failed [OF h]
  have "tame (do_abort E h x n ss)" if "i = 1"
    using abort_sim [OF wf k] k that
    by (auto simp: do_abort_def intro!: tame_bnd defined_tame [OF abort_defined [OF wf _ h]] ans tame_enqueue)
  moreover have "tame (do_new_txn E h x n ss)"
    using newTxn_kept [OF E(3,2) wf]
    by (auto simp: do_new_txn_def kept_def intro!: tame_bnd tame_newTxn bad tame_sendACK tame_enqueue)
  moreover have "tame (do_commit_cmd E h x n ss)" if "i = 3"
    using commit_sim [OF E(1) wf k] k that r
    by (auto simp: do_commit_cmd_def ranged_def intro!: tame_bnd defined_tame [OF commit_defined [OF E(1) wf _ h]] tame_enqueue)
  moreover have "tame (do_read E h x n ss)"
    by (auto simp: do_read_def Let_def intro!: tame_bnd ans bad split: prod.split)
  moreover have "tame (do_write E h x n ss)" if i: "i = 5"
    using write_wf [OF E(1) wf k] k i r
    by (auto simp: do_write_def ranged_def
        intro!: tame_bnd defined_tame [OF addLogEntry_defined [OF E(1) wf _ h]] ans tame_enqueue)
  moreover have "tame (do_make_txn E h x n ss)"
    by (auto simp: do_make_txn_def intro!: tame_bnd tame_makeTxn ans)
  moreover have "tame (do_ping E h x n ss)" if "i = 7"
    using that r by (auto simp: do_ping_def ranged_def intro!: tame_bnd ans)
  moreover have "tame (switchToBackup N n)" using role by (simp add: switchToBackup_def)
  ultimately show ?thesis
    using role by (auto simp: executeCommand_def authorized_def bad intro!: tame_bnd)
qed

text \<open>Only a commit ends with the report that writes are missing.\<close>

lemma command_lacking:
  assumes E: "text_ok E" and wf: "wf_log (node_log n)" and p: "proper E i h"
    and run: "executeCommand E N i h x n ss = Ok (False, ''incomplete'', n', ss')"
  shows "lacking (getTsn E h) (node_log n')"
proof -
  have k: "\<not> server_key (getTsn E h)" if "i = 3 \<or> i = 5" using p that by (auto simp: proper_def)
  have "i = 3 \<and> do_commit_cmd E h x n ss = Ok (False, ''incomplete'', n', ss')
    \<or> i = 5 \<and> do_write E h x n ss = Ok (False, ''incomplete'', n', ss')"
    using run abort_never_lacks [of E h "lh n" False "''incomplete''"]
    by (auto simp: executeCommand_def do_abort_def do_new_txn_def do_read_def do_make_txn_def do_ping_def Let_def
        split: if_splits prod.splits)
  moreover have "addLogEntry E h x (lh n) \<noteq> Ok (r, ''incomplete'', s1)" if "i = 5" for r s1
    using write_never_lacks [OF E wf k] that by blast
  ultimately show ?thesis
    using commit_lacking [OF E wf k] by (auto simp: do_commit_cmd_def do_write_def split: if_splits)
qed

lemma act_tame:
  assumes E: "text_ok E" "random_ok E" "files_ok E" and wf: "wf_log (node_log n)"
    and role: "getRole (node_log n) = Ok ''backup''" and v: "validHeader E h"
    and r: "\<And>i. parse E h = Ok i \<Longrightarrow> ranged E i h (node_log n)"
  shows "tame (act j E N h x n ss)"
proof -
  obtain i where i: "parse E h = Ok i" using parse_total [OF E(1)] by blast
  have p: "proper E i h" using r [OF i] by (simp add: ranged_def)
  have "tame (respond j E N h (ex, err, n1, ss1))"
    if run: "executeCommand E N i h x n (start ss) = Ok (ex, err, n1, ss1)" for ex err n1 ss1
  proof -
    note g = executeCommand_good [OF E wf p run]
    have wf1: "wf_log (node_log n1)" using g by (simp add: good_outcome_def kept_def)
    have "tame (sendACK_RESEND E (getTsn E h) (node_log n1) ss1)" if "\<not> ex" "err = ''incomplete''"
      using tame_ask [OF E(1) wf1 getTsn_in32 [OF E(1)]] command_lacking [OF E(1) wf p] run that by simp
    moreover have "tame (doCommit j E N h n1 ss1)" if "\<not> ex" "err = ''committed''"
      using g that role defined_tame [OF defined_answer [OF validHeader_3 [OF v]]] tame_sendACK
      by (auto simp: good_outcome_def doCommit_def intro!: tame_bnd)
    ultimately show ?thesis
      using tame_sendACK by (auto simp: respond_def intro!: tame_bnd)
  qed
  with executeCommand_tame [OF E wf role v r [OF i]] i show ?thesis
    by (auto simp: act_def intro!: tame_bnd)
qed

section \<open>Packets\<close>

lemma reject_tame: "3 \<le> length (tokens E h) \<Longrightarrow> tame (reject E h u n ss)"
  unfolding reject_def by (intro tame_bnd tame_answer) simp_all

lemma fixed_headers:
  assumes "text_ok E"
  shows "3 \<le> length (tokens E ''a -1 0 0'')" "3 \<le> length (tokens E ''a -2 0 0'')"
proof -
  have p: "plain ''a''" "plain ''-1''" "plain ''-2''" "plain ''0''" by (simp_all add: plain_def)
  note cut = tokens_blank [OF assms p(1)] tokens_blank [OF assms p(2)] tokens_blank [OF assms p(3)]
    tokens_blank [OF assms p(4)] tokens_last [OF assms p(4)]
  have "tokens E (''a'' @ CHR '' '' # (''-1'' @ CHR '' '' # (''0'' @ CHR '' '' # ''0''))) = [''a'', ''-1'', ''0'', ''0'']"
    "tokens E (''a'' @ CHR '' '' # (''-2'' @ CHR '' '' # (''0'' @ CHR '' '' # ''0''))) = [''a'', ''-2'', ''0'', ''0'']"
    by (simp_all only: cut)
  then show "3 \<le> length (tokens E ''a -1 0 0'')" "3 \<le> length (tokens E ''a -2 0 0'')" by simp_all
qed

lemma read_packet_tame:
  assumes E: "text_ok E" "random_ok E" "files_ok E" and wf: "wf_log (node_log n)"
    and role: "getRole (node_log n) = Ok ''backup''"
    and r: "\<And>h i. packet_header E (buf_b ss) = Some h \<Longrightarrow> validHeader E h \<Longrightarrow> parse E h = Ok i \<Longrightarrow> ranged E i h (node_log n)"
  shows "tame (read_packet j E N n ss)"
proof -
  obtain g line st where g: "getline (buf_b ss, False) [] = (g, line, st)" by (metis prod_cases3)
  show ?thesis
  proof (cases "skip_short (strip_cr line) st")
    case None
    with g show ?thesis by (simp add: read_packet_def reject_tame fixed_headers [OF E(1)])
  next
    case (Some hs)
    obtain h st1 where hs: "hs = (h, st1)" by (metis surj_pair)
    have ph: "packet_header E (buf_b ss) = Some h" using g Some hs by (simp add: packet_header_def)
    obtain i where i: "parse E h = Ok i" using parse_total [OF E(1)] by blast
    have body: "tame (packet_body j E N h x n ss1)" if v: "validHeader E h" for x ss1
    proof -
      have b: "is_ok (getBytes E h)" using r [OF ph v i] by (simp add: ranged_def)
      note a = act_tame [OF E wf role v r [OF ph v]] and rej = reject_tame [OF validHeader_3 [OF v]]
      show ?thesis
        using b i a rej
        by (auto simp: packet_body_def dataAttached_def needsData_def is_ok_ex Let_def split: option.split prod.split)
    qed
    then have "tame (handle_packet j E N h st1 n ss)"
      by (auto simp: handle_packet_def Let_def reject_tame fixed_headers [OF E(1)] split: prod.split)
    with g Some hs show ?thesis by (simp add: read_packet_def)
  qed
qed

end
