(* ===== verification/Role_Properties.thy ===== *)
theory Role_Properties
  imports Replication_Properties
begin

text \<open>
  The properties of the roles: how a backup makes itself known to the primary, how it takes
  over when the primary is gone, and how it finds the address it needs.
\<close>

section \<open>Registration\<close>

lemma split_pipe_two:
  assumes "text_ok E" "CHR ''|'' \<notin> set a" "CHR ''|'' \<notin> set b"
  shows "split_any E ''|'' (a @ ''|'' @ b) = [a, b]"
proof -
  have "split_any E ''|'' (a @ CHR ''|'' # b) = a # split_any E ''|'' b"
    using assms(1,2) unfolding text_ok_def by (intro text_lib.spl_cut) auto
  moreover have "split_any E ''|'' b = [b]"
    using assms(1,3) unfolding text_ok_def by (intro text_lib.spl_last) auto
  ultimately show ?thesis by simp
qed

lemma ping_packet:
  assumes "text_ok E" "length x < 2147483647" "x \<noteq> '' ''"
  shows "genRequest2 E ''PING'' x = header_line ''PING'' ''-1'' ''0'' (lex_str E (int (length x) + 1))
     @ crlf @ crlf @ x @ nl # []"
  using assms by (simp add: genRequest2_def genRequest4_def header_line_def)

text \<open>C30: The \<open>PING\<close> a backup sends registers it: the packet that carries its address, read by
  a session of a primary that has no backup, is acknowledged, and from then on the log names
  exactly that address as the backup's; no transaction and no role changes.\<close>

theorem ping_registers:
  assumes "text_ok E" and "wf_log (node_log n)" and "is_primary (node_log n)" and "\<not> backupRegistered (node_log n)"
    and "set ip \<inter> {CHR ''|'', nl} = {}" and "set port \<inter> {CHR ''|'', nl} = {}"
    and "length (ip @ ''|'' @ port) < 2147483647"
    and "buf_b ss = genRequest2 E ''PING'' (ip @ ''|'' @ port)" and "writable ss" and "known ss"
  shows "\<exists>n' ss'. read_packet k E N n ss = Ok (n', ss') \<and> length (sent ss') = length (sent ss) + 1
    \<and> getIpBackup (node_log n') = Ok ip \<and> getPortBackup (node_log n') = Ok port
    \<and> abs_log (node_log n') = abs_log (node_log n) \<and> is_primary (node_log n') \<and> wf_log (node_log n')"
proof -
  let ?x = "ip @ ''|'' @ port"
  let ?c = "lex_str E (int (length ?x) + 1)"
  let ?h = "header_line ''PING'' ''-1'' ''0'' ?c"
  note E = assms(1)
  have n: "in_int32 (int (length ?x) + 1)" using assms(7) by (simp add: in_int32_def)
  have pl: "plain ''PING''" "plain ''-1''" "plain ''0''" "plain ?c"
    using lex_str_plain [OF E n] by (simp_all add: plain_def)
  have cd: "carries_data (meth ''PING'')" and m: "meth ''PING'' = 7"
    by (simp_all add: meth_def method_map_def carries_data_def)
  have nlx: "nl \<notin> set ?x" using assms(5,6) by auto
  have "?x \<noteq> '' ''" by (cases ip) auto
  then have buf: "buf_b ss = ?h @ crlf @ crlf @ ?x @ nl # []"
    using assms(8) ping_packet [OF E assms(7)] by simp
  have len: "8 \<le> length ?h" by (rule header_line_len [OF E n]) (simp add: header_line_def)
  let ?s = "start (ss\<lparr>buf_b := []\<rparr>)"
  let ?l = "om_put (- 1) [(0, (ip, port))] (node_log n)"
  obtain a where a: "genAnswerStr E ''ACK'' ?h ''200'' '' '' = Ok a"
    using genAnswerStr_valid [OF header_fields(2) [OF E pl]] by blast
  have "backupServerData E ?x (node_log n) = Ok ?l"
    using assms(4) split_pipe_two [OF E, of ip port] assms(5,6)
    by (simp add: backupServerData_def backupRegistered_def vec_at_def)
  then have "do_ping E ?h ?x n ?s = Ok (True, [], set_log ?l n, ?s\<lparr>sent := sent ?s @ [a]\<rparr>)"
    using a assms(4,9) by (simp add: do_ping_def answer_def sendACK_def start_def)
  moreover have "parse E ?h = Ok 7" using header_fields(1) [OF E pl] m by simp
  moreover have kn: "known ?s" using assms(10) by (simp add: start_def)
  ultimately have "act k E N ?h ?x n (ss\<lparr>buf_b := []\<rparr>) = Ok (set_log ?l n, ?s\<lparr>sent := sent ?s @ [a]\<rparr>)"
    using assms(3) kn by (simp add: act_def executeCommand_def authorized_def respond_simps del: bnd_eq_Ok Ok_eq_bnd)
  then have "read_packet k E N n ss = Ok (set_log ?l n, ?s\<lparr>sent := sent ?s @ [a]\<rparr>)"
    using packet_with_data [OF E pl(1-3) cd nlx assms(7) len buf, of k N n] by simp
  moreover have "wf_log ?l \<and> abs_log ?l = abs_log (node_log n)"
    using backupServerData_wf [OF assms(2,4) \<open>backupServerData E ?x (node_log n) = Ok ?l\<close>] .
  moreover have "is_primary ?l" using assms(3) by (simp add: getRole_def entry_def om_simps)
  ultimately show ?thesis
    by (simp add: getIpBackup_def getPortBackup_def entry_def om_simps start_def)
qed

lemma ping_registers_witness:
  "\<exists>n' ss'. read_packet 3 ref_env dead_net (demo_node False [] () (demo ''primary'' ''ACTIVE'' ''0''))
       (demo_session (genRequest2 ref_env ''PING'' ''10.0.0.2|8081'')) = Ok (n', ss') \<and>
     getIpBackup (node_log n') = Ok ''10.0.0.2'' \<and> getPortBackup (node_log n') = Ok ''8081''"
proof -
  let ?n = "demo_node False [] () (demo ''primary'' ''ACTIVE'' ''0'')"
  have p: "is_primary (node_log ?n)" "\<not> backupRegistered (node_log ?n)" by code_simp+
  have l: "wf_log (node_log ?n)" using demo_wf(1) by (simp add: demo_node_def)
  have "length (''10.0.0.2'' @ ''|'' @ ''8081'') < 2147483647" by simp
  from ping_registers [OF ref_text_ok l p _ _ this, of "demo_session (genRequest2 ref_env ''PING'' ''10.0.0.2|8081'')" 3 dead_net]
  show ?thesis by (auto simp: demo_session_def start_def Session_init_def)
qed

text \<open>A \<open>PING\<close> whose data has no \<open>|\<close> runs into undefined behaviour on a server that has no
  backup yet: the code reads a second field that is not there. The acknowledgement is already
  on its way.\<close>

lemma ping_without_port:
  assumes "text_ok E" and "\<not> backupRegistered (node_log n)" and "CHR ''|'' \<notin> set x"
    and "3 \<le> length (tokens E h)" and "writable ss"
  shows "do_ping E h x n ss = Stop Undefined"
proof -
  obtain a where "genAnswerStr E ''ACK'' h ''200'' '' '' = Ok a"
    using genAnswerStr_defined assms(4) by blast
  moreover have "split_any E ''|'' x = [x]"
    using assms(1,3) unfolding text_ok_def by (intro text_lib.spl_last) auto
  ultimately show ?thesis
    using assms(2,5) by (simp add: do_ping_def answer_def sendACK_def backupServerData_def vec_at_def)
qed

lemma ping_without_port_witness:
  "do_ping ref_env ''PING 0 0 6'' ''hello'' (demo_node False [] () (demo ''primary'' ''ACTIVE'' ''0''))
     (demo_session []) = Stop Undefined"
proof -
  have "\<not> backupRegistered (node_log (demo_node False [] () (demo ''primary'' ''ACTIVE'' ''0'')))"
    "3 \<le> length (tokens ref_env ''PING 0 0 6'')" "writable (demo_session [])" by code_simp+
  then show ?thesis by (intro ping_without_port) simp_all
qed

section \<open>Taking over\<close>

text \<open>C31: The new primary announces itself where its peers look: after a backup has taken
  over, \<open>primary.txt\<close> in the network directory reads back as the server's own address, the role
  is primary and every transaction is as it was.\<close>

theorem takeover_announces:
  assumes "text_ok E" and "wf_log (node_log n)" and "getRole (node_log n) = Ok ''backup''"
    and "switchToPrimary E n = Ok (b, n')"
    and "getNetDir (node_log n) = Ok dir" and "getIpThis (node_log n) = Ok ip" and "getPortThis (node_log n) = Ok port"
    and "set ip \<inter> {CHR ''|'', nl} = {}" and "set port \<inter> {CHR ''|'', nl} = {}"
    and "os_read E (files (lh n')) (primary_file dir)"
  shows "is_primary (node_log n') \<and> loadPrimary E (lh n') = Ok (ip, port)
    \<and> abs_log (node_log n') = abs_log (node_log n) \<and> wf_log (node_log n')"
proof -
  note ok = wf_log_ok [OF assms(2)]
  note r = switchToPrimary_result [OF assms(4) ok]
  have n': "n' = n\<lparr>lh := (lh n)\<lparr>files := (files (lh n))(primary_file dir \<mapsto> File (primary_line ip port)),
       log_trans := serverData ip port ''primary'' dir (node_log n)\<rparr>\<rparr>"
    using assms(3-7) by (auto simp: switchToPrimary_def split: if_splits)
  have "getNetDir (node_log n') = Ok dir" using ok by (simp add: n')
  moreover have "files (lh n') (primary_file dir) = Some (File (primary_line ip port))" by (simp add: n')
  ultimately have "loadPrimary E (lh n') = Ok (ip, port)"
    using loadPrimary_line [OF assms(1) _ _ assms(10,8,9)] by blast
  with r assms(2) show ?thesis by simp
qed

lemma takeover_announces_witness:
  "\<exists>n'. switchToPrimary ref_env (demo_node False [] () (demo ''backup'' ''ACTIVE'' ''0'')) = Ok (True, n') \<and>
     is_primary (node_log n') \<and> loadPrimary ref_env (lh n') = Ok (''127.0.0.1'', ''8080'')"
proof -
  let ?n = "demo_node False [] () (demo ''backup'' ''ACTIVE'' ''0'')"
  have l: "lh ?n = demo ''backup'' ''ACTIVE'' ''0''" by (simp add: demo_node_def)
  have "case switchToPrimary ref_env ?n of Ok (b, n') \<Rightarrow> b \<and> os_read ref_env (files (lh n')) (primary_file ''/net'') | Stop e \<Rightarrow> False"
    by code_simp
  then obtain n' where run: "switchToPrimary ref_env ?n = Ok (True, n')" "os_read ref_env (files (lh n')) (primary_file ''/net'')"
    by (cases "switchToPrimary ref_env ?n") auto
  have "getRole (node_log ?n) = Ok ''backup''" "getNetDir (node_log ?n) = Ok ''/net''"
    "getIpThis (node_log ?n) = Ok ''127.0.0.1''" "getPortThis (node_log ?n) = Ok ''8080''" by code_simp+
  from takeover_announces [OF ref_text_ok _ this(1) run(1) this(2-4) _ _ run(2)] demo_wf(2) l run(1)
  show ?thesis by simp
qed

text \<open>A network on which no connection stands, and the daemon's rounds.\<close>

definition silent :: "'w net \<Rightarrow> bool" where
  "silent N \<longleftrightarrow> (\<forall>ip port w. fst (net_connect N ip port w) \<noteq> Some True)"

fun daemon_rounds :: "nat \<Rightarrow> nat \<Rightarrow> env \<Rightarrow> 'w net \<Rightarrow> 'w node \<Rightarrow> 'w node res" where
  "daemon_rounds 0 k E N n = Ok n"
| "daemon_rounds (Suc j) k E N n = bnd (rm_check k E N n) (daemon_rounds j k E N)"

lemma silent_connect:
  assumes "silent N" shows "\<exists>n'. connect_node E N n = (False, n')"
proof -
  obtain o1 w where "net_connect N (c_ip (cl (rm n))) (c_port (cl (rm n))) (wld n) = (o1, w)" "o1 \<noteq> Some True"
    using assms unfolding silent_def by (metis prod.collapse)
  then show ?thesis
    by (cases o1) (auto simp: connect_node_def connectSocket_def)
qed

lemma silent_round:
  assumes "silent N" and role: "getRole (node_log n) = Ok ''backup''" and wf: "wf_log (node_log n)"
    and p: "loadPrimary E (lh n) = Ok a" and t: "tries (rm n) \<le> 3"
  shows "\<exists>n'. rm_check k E N n = Ok n' \<and> lh n' = lh n \<and> tries (rm n') = tries (rm n) + 1"
proof -
  obtain n1 where c: "connect_node E N (close_node N n) = (False, n1)"
    using silent_connect [OF assms(1)] by blast
  obtain cc where r: "rm n1 = (rm n)\<lparr>cl := cc\<rparr>" using connect_rm [OF c] by auto
  have l: "lh n1 = lh n" using connect_lh [OF c] by simp
  obtain ip port where own: "getIpThis (node_log n) = Ok ip" "getPortThis (node_log n) = Ok port"
    using own_address [OF wf] by blast
  show ?thesis
    using role c r l own p t
    by (cases a) (simp add: rm_check_def backupOps_def primary_lost_def Let_def redirect_def upd_rm_def)
qed

lemma last_round:
  assumes "silent N" and E: "text_ok E" and role: "getRole (node_log n) = Ok ''backup''" and wf: "wf_log (node_log n)"
    and t: "3 < tries (rm n)"
    and own: "getNetDir (node_log n) = Ok dir" "getIpThis (node_log n) = Ok ip" "getPortThis (node_log n) = Ok port"
    and clean: "set ip \<inter> {CHR ''|'', nl} = {}" "set port \<inter> {CHR ''|'', nl} = {}"
    and io: "os_open E (files (lh n)) (primary_file dir)"
    "os_read E ((files (lh n))(primary_file dir \<mapsto> File (primary_line ip port))) (primary_file dir)"
  shows "\<exists>n'. rm_check k E N n = Ok n' \<and> is_primary (node_log n') \<and> abs_log (node_log n') = abs_log (node_log n)
    \<and> loadPrimary E (lh n') = Ok (ip, port)"
proof -
  obtain n1 where c: "connect_node E N (close_node N n) = (False, n1)"
    using silent_connect [OF assms(1)] by blast
  obtain cc where r: "rm n1 = (rm n)\<lparr>cl := cc\<rparr>" using connect_rm [OF c] by auto
  have l: "lh n1 = lh n" using connect_lh [OF c] by simp
  let ?s = "(lh n)\<lparr>files := (files (lh n))(primary_file dir \<mapsto> File (primary_line ip port)),
      log_trans := serverData ip port ''primary'' dir (node_log n)\<rparr>"
  have ok: "om_ok (node_log n)" by (rule wf_log_ok [OF wf])
  have sw: "switchToPrimary E n1 = Ok (True, n1\<lparr>lh := ?s\<rparr>)"
    using role own io(1) l by (simp add: switchToPrimary_def)
  have lp: "loadPrimary E ?s = Ok (ip, port)"
    by (rule loadPrimary_line [OF E _ _ _ clean, where dir = dir]) (use ok io(2) in simp_all)
  show ?thesis
    using role c r t sw lp ok
    by (simp add: rm_check_def backupOps_def primary_lost_def Let_def redirect_def upd_rm_def serverData_abs)
qed

text \<open>C15: A backup whose primary is gone takes over: with its count of failed attempts at
  \<open>4 - j\<close>, the first \<open>j\<close> rounds of its daemon without a connection leave it a backup and the
  next one makes it primary, with its address in \<open>primary.txt\<close> and every transaction as it
  was. A freshly started backup takes five rounds, a demoted primary fifteen.\<close>

theorem backup_takes_over:
  assumes "silent N" and "text_ok E" and "wf_log (node_log n)" and "getRole (node_log n) = Ok ''backup''"
    and "tries (rm n) = 4 - int j" and "loadPrimary E (lh n) = Ok a"
    and "getNetDir (node_log n) = Ok dir" and "getIpThis (node_log n) = Ok ip" and "getPortThis (node_log n) = Ok port"
    and "set ip \<inter> {CHR ''|'', nl} = {}" and "set port \<inter> {CHR ''|'', nl} = {}"
    and "os_open E (files (lh n)) (primary_file dir)"
    and "os_read E ((files (lh n))(primary_file dir \<mapsto> File (primary_line ip port))) (primary_file dir)"
  shows "(\<exists>m. daemon_rounds j k E N n = Ok m \<and> lh m = lh n)
    \<and> (\<exists>n'. daemon_rounds (Suc j) k E N n = Ok n' \<and> is_primary (node_log n')
        \<and> abs_log (node_log n') = abs_log (node_log n) \<and> loadPrimary E (lh n') = Ok (ip, port))"
  using assms
proof (induction j arbitrary: n)
  case 0
  then have "3 < tries (rm n)" by simp
  from last_round [OF 0(1,2,4,3) this 0(7-13), of k] show ?case by auto
next
  case (Suc j)
  then have "tries (rm n) \<le> 3" by simp
  from silent_round [OF Suc.prems(1,4,3,6) this, of k] obtain m
    where m: "rm_check k E N n = Ok m" "lh m = lh n" "tries (rm m) = 4 - int j"
    using Suc.prems(5) by auto
  from Suc.IH [of m] Suc.prems m show ?case by simp
qed

lemma backup_takes_over_witness:
  "\<exists>n'. daemon_rounds 5 3 ref_env dead_net (demo_node False [] () (demo ''backup'' ''ACTIVE'' ''0'')) = Ok n' \<and>
     is_primary (node_log n') \<and> loadPrimary ref_env (lh n') = Ok (''127.0.0.1'', ''8080'')"
proof -
  let ?n = "demo_node False [] () (demo ''backup'' ''ACTIVE'' ''0'')"
  have s: "silent dead_net" by (simp add: silent_def dead_net_def)
  have w: "wf_log (node_log ?n)" using demo_wf(2) by (simp add: demo_node_def)
  have t: "tries (rm ?n) = 4 - int 4" by (simp add: demo_node_def demo_rm_def)
  have f: "getRole (node_log ?n) = Ok ''backup''" "loadPrimary ref_env (lh ?n) = Ok (''127.0.0.1'', ''8080'')"
    "getNetDir (node_log ?n) = Ok ''/net''" "getIpThis (node_log ?n) = Ok ''127.0.0.1''"
    "getPortThis (node_log ?n) = Ok ''8080''" "os_open ref_env (files (lh ?n)) (primary_file ''/net'')"
    by code_simp+
  have "Suc 4 = (5 :: nat)" by simp
  with backup_takes_over [OF s ref_text_ok w f(1) t f(2-5) _ _ f(6), of 3] show ?thesis
    unfolding \<open>Suc 4 = 5\<close> by auto
qed

section \<open>A demoted primary\<close>

text \<open>
  A backup that counts a connection as standing, has something queued, which only a primary
  pushes, and has a committed transaction for the integrity check that is still to come.
\<close>

definition stuck :: "int \<Rightarrow> int \<Rightarrow> 'w node \<Rightarrow> bool" where
  "stuck t q n \<longleftrightarrow> getRole (node_log n) = Ok ''backup'' \<and> wf_log (node_log n) \<and> has_commit t q (node_log n)
     \<and> alive (rm n) \<and> syncQueue (rm n) \<noteq> [] \<and> \<not> backup_did_sync (rm n) \<and> \<not> restarted (rm n)"

lemma commits_listed:
  assumes wf: "wf_log l" and t: "0 \<le> t" and c: "has_commit t q l"
  shows "\<exists>hs. getCommits E l = Ok hs \<and> hs \<noteq> []"
proof -
  have "t \<in> set (om_keys l)" using abs_log_keys [of l t] c by (auto simp: has_commit_iff)
  moreover have "commits_of E l t \<noteq> []" using commits_of_mem [of _ E l t] t c by force
  ultimately have "concat (map (commits_of E l) (om_keys l)) \<noteq> []" by auto
  with getCommits_all [OF wf] show ?thesis by blast
qed

lemma stuck_found:
  assumes s: "stuck t q n" and t: "0 \<le> t" and c: "fst (connect_node E N (close_node N n))"
  shows "rm_check k E N n = Stop Diverged"
proof -
  obtain n1 where c1: "connect_node E N (close_node N n) = (True, n1)" using c by (metis prod.collapse)
  have l: "lh n1 = lh n" using connect_lh [OF c1] by simp
  obtain cc where r: "rm n1 = (rm n)\<lparr>cl := cc\<rparr>" using connect_rm [OF c1] by auto
  have wf: "wf_log (node_log n)" using s by (simp add: stuck_def)
  obtain ip port where own: "getIpThis (node_log n) = Ok ip" "getPortThis (node_log n) = Ok port"
    using own_address [OF wf] by blast
  obtain hs where hs: "getCommits E (node_log n) = Ok hs" "hs \<noteq> []"
    using commits_listed [OF wf t] s by (auto simp: stuck_def)
  have "integrityCheck k E N (upd_rm (\<lambda>r. r\<lparr>backup_did_sync := True\<rparr>) n1) = Stop Diverged"
    using s hs l r by (intro stuck_integrity) (simp_all add: stuck_def)
  with s c1 l r own show ?thesis
    by (simp add: rm_check_def backupOps_def primary_found_def stuck_def)
qed

lemma stuck_lost:
  assumes s: "stuck t q n" and c: "\<not> fst (connect_node E N (close_node N n))"
    and t: "tries (rm n) \<le> 3" and run: "rm_check k E N n = Ok n'"
  shows "stuck t q n' \<and> tries (rm n') = tries (rm n) + 1"
proof -
  obtain n1 where c1: "connect_node E N (close_node N n) = (False, n1)" using c by (metis prod.collapse)
  have l: "lh n1 = lh n" using connect_lh [OF c1] by simp
  obtain cc where r: "rm n1 = (rm n)\<lparr>cl := cc\<rparr>" using connect_rm [OF c1] by auto
  have "primary_lost E n1 = Ok n'"
    using run s c1 by (simp add: rm_check_def backupOps_def stuck_def)
  then obtain ip port ip0 port0 where "n' = upd_rm (\<lambda>r. r\<lparr>tries := tries r + 1, backup_did_sync := False\<rparr>)
      (if ip = ip0 \<and> port = port0 then upd_rm (\<lambda>r. r\<lparr>prim_ip := ip, prim_port := port\<rparr>) n1
       else redirect ip port (upd_rm (\<lambda>r. r\<lparr>prim_ip := ip, prim_port := port\<rparr>) n1))"
    using t r by (auto simp: primary_lost_def Let_def)
  with s l r show ?thesis by (simp add: stuck_def redirect_def upd_rm_def)
qed

text \<open>C22: A primary that \<open>KILL\<close> demotes keeps its connection flag and what it had queued, and
  only a primary pushes the queue. With a committed transaction in the log its daemon then
  hangs: its client points nowhere, so its first rounds fail, and up to fourteen of them leave
  it a backup; the first round that finds the new primary starts the integrity check, whose
  commit calls itself without end, however much fuel it is given.\<close>

theorem demoted_daemon_hangs:
  assumes "is_primary (node_log n0)" and "switchToBackup N n0 = Ok (b, n)" and "wf_log (node_log n0)"
    and "alive (rm n0)" and "syncQueue (rm n0) \<noteq> []"
    and "\<not> backup_did_sync (rm n0)" and "\<not> restarted (rm n0)"
    and "has_commit t q (node_log n0)" and "0 \<le> t"
    and "m \<le> 14" and "daemon_rounds m k E N n = Ok n1"
    and "fst (connect_node E N (close_node N n1))"
  shows "rm_check k E N n1 = Stop Diverged"
proof -
  note sw = switchToBackup_result [OF assms(2) wf_log_ok [OF assms(3)]]
  have "tries (rm n) = - 10" "backup_did_sync (rm n) = backup_did_sync (rm n0)" "restarted (rm n) = restarted (rm n0)"
    using assms(1,2) by (auto simp: switchToBackup_def Let_def redirect_def close_node_def set_log_def upd_rm_def)
  then have start: "stuck t q n" "tries (rm n) = - 10"
    using sw assms(3-8) by (simp_all add: stuck_def has_commit_def)
  have "stuck t q n1" if "stuck t q x" "tries (rm x) = 4 - int j" "m \<le> j" "daemon_rounds m k E N x = Ok n1" for x j
    using that
  proof (induction m arbitrary: x j)
    case (Suc m)
    then obtain y where y: "rm_check k E N x = Ok y" "daemon_rounds m k E N y = Ok n1" by auto
    then have "\<not> fst (connect_node E N (close_node N x))"
      using stuck_found [OF Suc.prems(1) assms(9), of E N k] by auto
    moreover obtain i where j: "j = Suc i" using Suc.prems(3) by (cases j) auto
    ultimately have "stuck t q y" "tries (rm y) = 4 - int i"
      using stuck_lost [OF Suc.prems(1) _ _ y(1)] Suc.prems(2) by simp_all
    from Suc.IH [OF this _ y(2)] Suc.prems(3) j show ?case by simp
  qed simp
  from this [OF start(1) _ assms(10,11)] start(2) have "stuck t q n1" by simp
  from stuck_found [OF this assms(9,12)] show ?thesis .
qed

definition far_net :: "unit net" where
  "far_net = \<lparr>net_connect = (\<lambda>ip port w. (Some (ip = ''10.0.0.3''), w)), net_write = (\<lambda>s w. (True, w)),
     net_read_until = (\<lambda>d b w. (None, w)), net_close = (\<lambda>w. w)\<rparr>"

definition far_primary :: "unit node" where
  "far_primary = (demo_node True [(''ABORT 9 0 0'', '' '')] () (demo ''primary'' ''COMMITTED'' ''2''))
     \<lparr>lh := (demo ''primary'' ''COMMITTED'' ''2'')
       \<lparr>files := [primary_file ''/net'' \<mapsto> File (primary_line ''10.0.0.3'' ''8080'')]\<rparr>\<rparr>"

lemma demoted_daemon_hangs_witness:
  "\<exists>n n1. switchToBackup far_net far_primary = Ok (True, n) \<and> \<not> fst (connect_node ref_env far_net (close_node far_net n)) \<and>
     rm_check 1000 ref_env far_net n = Ok n1 \<and> rm_check 1000 ref_env far_net n1 = Stop Diverged"
proof -
  let ?l = "demo ''primary'' ''COMMITTED'' ''2''" and ?n = far_primary and ?N = far_net
  let ?ok = "\<lambda>n. \<not> fst (connect_node ref_env ?N (close_node ?N n)) \<and>
    (case rm_check 1000 ref_env ?N n of Ok n1 \<Rightarrow> fst (connect_node ref_env ?N (close_node ?N n1)) | Stop e \<Rightarrow> False)"
  have "case switchToBackup ?N ?n of Ok (b, n) \<Rightarrow> b \<and> ?ok n | Stop e \<Rightarrow> False" by code_simp
  then obtain n where sw: "switchToBackup ?N ?n = Ok (True, n)" "?ok n" by (cases "switchToBackup ?N ?n") auto
  then obtain n1 where run: "\<not> fst (connect_node ref_env ?N (close_node ?N n))"
    "rm_check 1000 ref_env ?N n = Ok n1" "fst (connect_node ref_env ?N (close_node ?N n1))"
    by (cases "rm_check 1000 ref_env ?N n") auto
  have l: "node_log ?n = log_trans ?l" "alive (rm ?n)" "syncQueue (rm ?n) \<noteq> []"
    "\<not> backup_did_sync (rm ?n)" "\<not> restarted (rm ?n)"
    by (simp_all add: far_primary_def demo_node_def demo_rm_def)
  have f: "is_primary (log_trans ?l)" "om_find (log_trans ?l) 7 = Some (demo_txn ''COMMITTED'' ''2'')"
    "atoi_val ''2'' = 2" by code_simp+
  then have "has_commit 7 2 (log_trans ?l)"
    by (simp add: has_commit_iff abs_log_def server_key_def) (simp add: abs_txn_def demo_txn_def)
  moreover have "daemon_rounds 1 1000 ref_env ?N n = Ok n1" using run(2) by simp
  ultimately have "rm_check 1000 ref_env ?N n1 = Stop Diverged"
    using demoted_daemon_hangs [OF _ sw(1) _ l(2-5) _ _ _ _ run(3), of 7 2 1 1000] f(1) demo_wf(5) l(1) by simp
  with sw run show ?thesis by blast
qed

end
