(* ===== verification/Session_Properties.thy ===== *)
theory Session_Properties
  imports Backup_Progress Cluster Demo Log_Properties
begin

text \<open>
  The properties of a session: who may ask, what is asked for again, how much is read, and
  what the packets and answers of the two ends are to each other.
\<close>

section \<open>Who may ask\<close>

text \<open>C33: On a backup a request of a session that has not authenticated itself changes nothing:
  whatever its method but \<open>AUTH\<close>, the answer is \<open>AUTH_FAIL\<close> with code 321, and the server is as
  it was.\<close>

theorem backup_refuses_strangers:
  assumes "getRole (node_log n) = Ok ''backup''" and "\<not> isAuth (rem_ip ss) (rem_port ss) ss"
    and "parse E h = Ok i" and "i \<noteq> 8" and "act k E N h x n ss = Ok (n', ss')"
  shows "n' = n \<and> (\<exists>a. genAnswerStr E ''AUTH_FAIL'' h ''321'' ''Not authorized'' = Ok a \<and> sent ss' = sent ss @ [a])"
proof -
  have "authorized i n (start ss) = Ok False"
    using assms(1,2,4) by (auto simp: authorized_def isAuth_def start_def)
  then obtain a where a: "genAnswerStr E ''AUTH_FAIL'' h ''321'' ''Not authorized'' = Ok a"
    and r: "respond k E N h (False, a, n, start ss) = Ok (n', ss')"
    using assms(3,5) by (auto simp: act_def executeCommand_def)
  with genAnswerStr_code [OF a] have "bnd (sendACK a (start ss)) (\<lambda>ss1. Ok (n, ss1)) = Ok (n', ss')"
    by (simp add: respond_simps)
  with a show ?thesis by (auto simp: sendACK_def start_def split: if_splits)
qed

lemma backup_refuses_strangers_witness:
  "\<exists>ss'. act 3 ref_env dead_net ''COMMIT 7 2 0'' '' '' (demo_node False [] () (demo ''backup'' ''ACTIVE'' ''0''))
       (demo_session []) = Ok (demo_node False [] () (demo ''backup'' ''ACTIVE'' ''0''), ss') \<and> length (sent ss') = 1"
proof -
  let ?n = "demo_node False [] () (demo ''backup'' ''ACTIVE'' ''0'')"
  let ?run = "act 3 ref_env dead_net ''COMMIT 7 2 0'' '' '' ?n (demo_session [])"
  have p: "getRole (node_log ?n) = Ok ''backup''" "\<not> isAuth (rem_ip (demo_session [])) (rem_port (demo_session [])) (demo_session [])"
    "parse ref_env ''COMMIT 7 2 0'' = Ok 3" by code_simp+
  have "is_ok ?run" by code_simp
  then obtain n' ss' where run: "?run = Ok (n', ss')" by (auto simp: is_ok_ex)
  from backup_refuses_strangers [OF p _ run] run show ?thesis
    by (auto simp: demo_session_def start_def Session_init_def)
qed

section \<open>Missing writes\<close>

text \<open>C18: Where a commit waits for writes, the client is asked for exactly those: one
  \<open>ACK_RESEND\<close> for every missing number up to the pending commit or the last write, whichever
  is larger, each once, from the highest down.\<close>

theorem resend_exactly_missing:
  assumes "text_ok E" and "wf_log l" and "in_int32 k" and "\<not> server_key k"
    and "abs_log l k = Some a" and "phase a = Waiting q"
    and "\<And>j. writes a j \<noteq> None \<Longrightarrow> in_int32 j" and "writable ss"
  shows "\<exists>ss' ms. sendACK_RESEND E k l ss = Ok ss' \<and> sorted_wrt (<) ms
    \<and> set ms = {i. 1 \<le> i \<and> (i \<le> q \<or> (\<exists>j. writes a j \<noteq> None \<and> i \<le> j)) \<and> writes a i = None}
    \<and> sent ss' = sent ss @
        map (\<lambda>i. header_line ''ACK_RESEND'' (lex_str E k) (lex_str E i) ''0'' @ '' 0'' @ crlf @ crlf @ crlf) (rev ms)"
proof -
  from resend_missing [OF assms(1-7)] assms(8) obtain ms where
    "sendACK_RESEND E k l ss = Ok (ss\<lparr>sent := sent ss @ map (ask E k) (rev ms)\<rparr>)" "sorted_wrt (<) ms"
    "set ms = {i. 1 \<le> i \<and> (i \<le> q \<or> (\<exists>j. writes a j \<noteq> None \<and> i \<le> j)) \<and> writes a i = None}" by blast
  then show ?thesis
    by (intro exI [of _ "ss\<lparr>sent := sent ss @ map (ask E k) (rev ms)\<rparr>"] exI [of _ ms]) (simp add: ask_def [abs_def])
qed

lemma resend_exactly_missing_witness:
  "\<exists>ss'. sendACK_RESEND ref_env 7 (log_trans (demo ''backup'' ''WAITING'' ''3'')) (demo_session []) = Ok ss' \<and>
     sent ss' = [''ACK_RESEND 7 3 0 0'' @ crlf @ crlf @ crlf]"
proof -
  let ?l = "log_trans (demo ''backup'' ''WAITING'' ''3'')"
  let ?a = "abs_txn (demo_txn ''WAITING'' ''3'')"
  have t: "om_find ?l 7 = Some (demo_txn ''WAITING'' ''3'')" by code_simp
  have d: "decimal 7 = ''7''" "decimal 3 = ''3''" "atoi_val ''3'' = 3" by code_simp+
  have a: "abs_log ?l 7 = Some ?a" "phase ?a = Waiting 3"
    using t d(3) by (simp_all add: abs_log_def server_key_def) (simp add: abs_txn_def demo_txn_def)
  have w: "writes ?a j = (if j = 1 then Some ''ab'' else if j = 2 then Some ''cd'' else None)" for j
    by (simp add: abs_txn_def demo_txn_def)
  then have "\<And>j. writes ?a j \<noteq> None \<Longrightarrow> in_int32 j" by (auto simp: in_int32_def split: if_splits)
  from resend_exactly_missing [OF ref_text_ok demo_wf(6) _ _ a this, of "demo_session []"]
  obtain ss' ms where r: "sendACK_RESEND ref_env 7 ?l (demo_session []) = Ok ss'" "sorted_wrt (<) ms"
    "set ms = {i. 1 \<le> i \<and> (i \<le> 3 \<or> (\<exists>j. writes ?a j \<noteq> None \<and> i \<le> j)) \<and> writes ?a i = None}"
    "sent ss' = map (\<lambda>i. header_line ''ACK_RESEND'' ''7'' (decimal i) ''0'' @ '' 0'' @ crlf @ crlf @ crlf) (rev ms)"
    by (auto simp: in_int32_def server_key_def demo_session_def start_def Session_init_def d)
  have "set ms = {3}" unfolding r(3) w by auto
  with r(2) have "ms = [3]"
    by (cases ms; cases "tl ms") (auto simp: subset_singleton_iff)
  with r d show ?thesis by (simp add: header_line_def)
qed

section \<open>Reading the rest of a packet\<close>

text \<open>C36: How much the blocking read asks for: with a size that exceeds the fragment it takes
  exactly the difference, and fails where the peer closes before. The test \<open>ret > 0\<close> of the
  completion condition is made on an unsigned number and never stops anything else: with a
  size below the fragment's the difference wraps around, more bytes are asked for than any
  stream delivers, and everything the peer still sends is swallowed without an answer.\<close>

theorem read_rest_amount:
  assumes "- 2147483648 \<le> m" and "m < 2147483648" and "length (incoming ss) < 2 ^ 63"
  shows "read_rest m ss =
    (if 0 \<le> m \<and> nat m \<le> length (incoming ss) then
       (let st = getline (buf_c ss @ take (nat m) (incoming ss), False) []
        in Some (fst (snd st), ss\<lparr>buf_c := fst (snd (snd st)), incoming := drop (nat m) (incoming ss)\<rparr>))
     else None)"
proof -
  have c: "completion_condition False 0 m = word_of_int m"
    by (simp add: completion_condition_def Let_def word_gt_0)
  show ?thesis
  proof (cases "0 \<le> m")
    case True
    have "m mod 2 ^ 64 = m" using True assms(2) by (intro mod_pos_pos_trivial) simp_all
    then have "uint (word_of_int m :: 64 word) = m" by (simp add: uint_word_of_int)
    then have "unat (word_of_int m :: 64 word) = nat m" by (simp add: unat_eq_nat_uint)
    with True show ?thesis
      by (simp add: read_rest_def c Let_def split: prod.split)
  next
    case False
    have "m mod 2 ^ 64 = (m + 2 ^ 64) mod 2 ^ 64" by simp
    also have "\<dots> = m + 2 ^ 64" using False assms(1) by (intro mod_pos_pos_trivial) simp_all
    finally have "m mod 2 ^ 64 = m + 2 ^ 64" .
    then have "uint (word_of_int m :: 64 word) = m + 2 ^ 64"
      by (simp add: uint_word_of_int)
    then have "2 ^ 63 \<le> unat (word_of_int m :: 64 word)"
      using assms(1) by (simp add: unat_eq_nat_uint le_nat_iff)
    with False assms(3) show ?thesis by (simp add: read_rest_def c Let_def)
  qed
qed

lemma read_rest_amount_witness:
  "read_rest 3 ((demo_session [])\<lparr>incoming := ''ab'' @ [nl] @ ''rest''\<rparr>) =
     Some (''ab'', (demo_session [])\<lparr>incoming := ''rest''\<rparr>)
   \<and> read_rest (- 1) ((demo_session [])\<lparr>incoming := ''ab'' @ [nl] @ ''rest''\<rparr>) = None"
proof -
  let ?ss = "(demo_session [])\<lparr>incoming := ''ab'' @ [nl] @ ''rest''\<rparr>"
  have len: "length (incoming ?ss) < 2 ^ 63" by simp
  have "getline (''ab'' @ nl # [], False) [] = (True, ''ab'', ([], False))"
    by (rule getline_line) simp
  then show ?thesis
    using read_rest_amount [OF _ _ len, of 3] read_rest_amount [OF _ _ len, of "- 1"]
    by (simp add: demo_session_def start_def Session_init_def Let_def eval_nat_numeral)
qed

section \<open>The two ends of the wire\<close>

text \<open>C28: What the replication manager queues and echoes arrives as it was: a request with
  data of two characters or more runs on the backup with the same method, numbers and data.
  Data of one character, a file name as much as a write, is left out by the echo, and the
  backup refuses what arrives.\<close>

theorem echo_roundtrip:
  assumes "text_ok E" and "tokens E h = a # b # c # ds" and "plain a" and "plain b" and "plain c"
    and "carries_data (meth a)" and "nl \<notin> set x" and "length x < 2147483647"
    and "8 \<le> length (header_line a b c ''0'')" and "genEcho E h x = Ok pkt" and "buf_b ss = pkt"
  shows "read_packet k E N n ss =
    (if 2 \<le> length x then act k E N (header_line a b c (lex_str E (int (length x) + 1))) x n (ss\<lparr>buf_b := []\<rparr>)
     else reject E (header_line a b c ''0'') ''Method requires data.'' n (ss\<lparr>buf_b := []\<rparr>))"
proof (cases "2 \<le> length x")
  case True
  have n: "in_int32 (int (length x) + 1)" using assms(8) by (simp add: in_int32_def)
  note len = header_line_len [OF assms(1) n assms(9)]
  have "buf_b ss = pkt @ []" using assms(11) by simp
  from echo_arrives [OF assms(1-7) True assms(8) len assms(10) this] True show ?thesis by simp
next
  case False
  then have short: "length x < 2" by simp
  have "buf_b ss = pkt @ []" using assms(11) by simp
  from echo_empty [OF assms(1-5,9) short assms(10) this] assms(6) False show ?thesis by simp
qed

lemma echo_roundtrip_witness:
  "\<exists>pkt. genEcho ref_env ''WRITE 7 3 2'' ''x'' = Ok pkt \<and>
     (\<forall>k n. read_packet k ref_env dead_net n (demo_session pkt) =
       reject ref_env ''WRITE 7 3 0'' ''Method requires data.'' n (demo_session []))"
proof -
  have t: "tokens ref_env ''WRITE 7 3 2'' = ''WRITE'' # ''7'' # ''3'' # [''2'']" by code_simp
  obtain pkt where g: "genEcho ref_env ''WRITE 7 3 2'' ''x'' = Ok pkt"
    using genEcho_shape [OF t] by blast
  have "carries_data (meth ''WRITE'')" by (simp add: meth_def method_map_def carries_data_def)
  from echo_roundtrip [OF ref_text_ok t _ _ _ this _ _ _ g, of "demo_session pkt" _ dead_net] g
  show ?thesis
    by (simp add: plain_def header_line_def demo_session_def start_def Session_init_def)
qed

text \<open>C29: An answer reaches the replication manager as it was: what \<open>sendReceive\<close> returns of a
  reply that the network delivers whole splits at blanks into the answer's kind, its two
  numbers and its code, which is all that \<open>commit\<close> looks at, whatever text the answer carries.\<close>

theorem answer_roundtrip:
  assumes "text_ok E" and "tokens E h = a # b # c # ds"
    and "plain mt" and "plain b" and "plain c" and "plain code" and "length e < 2147483647"
    and "genAnswerStr E mt h code e = Ok ans"
    and "net_write N s w = (True, w1)" and "net_read_until N (crlf @ crlf) [] w1 = (Some ans, w2)"
    and "\<And>u. net_read_until N crlf (u @ crlf) w2 = (Some (u @ crlf), w2)"
  shows "\<exists>result. sendReceive E N s w = Ok (Some result, w2)
    \<and> take 4 (split_any E '' '' result) = [mt, b, c, code]"
  by (rule answer_received [OF assms])

text \<open>A network that delivers one reply and then has no more, and needs none.\<close>

definition reply_net :: "string net" where
  "reply_net = \<lparr>net_connect = (\<lambda>ip port w. (Some True, w)), net_write = (\<lambda>s w. (True, w)),
     net_read_until = (\<lambda>d b w. (Some (b @ w), [])), net_close = (\<lambda>w. w)\<rparr>"

lemma answer_roundtrip_witness:
  "\<exists>result ans. genAnswerStr ref_env ''ERROR'' ''COMMIT 7 2 0'' ''201'' ''Transaction ID not found'' = Ok ans \<and>
     sendReceive ref_env reply_net ''x'' ans = Ok (Some result, []) \<and>
     take 4 (split_any ref_env '' '' result) = [''ERROR'', ''7'', ''2'', ''201'']"
proof -
  have t: "tokens ref_env ''COMMIT 7 2 0'' = ''COMMIT'' # ''7'' # ''2'' # [''0'']" by code_simp
  obtain ans where a: "genAnswerStr ref_env ''ERROR'' ''COMMIT 7 2 0'' ''201'' ''Transaction ID not found'' = Ok ans"
    using genAnswerStr_shape [OF t] by blast
  have "net_write reply_net ''x'' ans = (True, ans)"
    "net_read_until reply_net (crlf @ crlf) [] ans = (Some ans, [])"
    "\<And>u. net_read_until reply_net crlf (u @ crlf) [] = (Some (u @ crlf), [])"
    by (simp_all add: reply_net_def)
  from answer_roundtrip [OF ref_text_ok t _ _ _ _ _ a this] a show ?thesis
    by (auto simp: plain_def)
qed

section \<open>Committed data\<close>

text \<open>C19: What was committed is what is read: after a commit that reports success on a backup,
  \<open>READ\<close> of the transaction's file returns the text the file had, followed by every write up to
  the committed number in order, each ended by a line break. A last line that was not ended is
  continued by the first write.\<close>

theorem commit_then_read:
  assumes "text_ok E" and "files_ok E" and "wf_log (log_trans s)" and "\<not> server_key (getTsn E h)"
    and "abs_log (log_trans s) (getTsn E h) = Some a" and "target a \<noteq> fileName"
    and "getRole (log_trans s) = Ok role" and "role \<noteq> ''primary''"
    and "commit E h s = Ok (r, ''committed'', s')" and "os_read E (files s') (target a)"
  shows "readFile E (target a) s' = (True, file_text (files s) (target a) @ txn_text a (getSeq E h))"
proof -
  have f: "file_text (files s') (target a) = file_text (files s) (target a) @ txn_text a (getSeq E h)"
    using commit_files [OF assms(1-9)] by blast
  obtain v io where v: "spec_commit (is_primary (log_trans s)) io (getTsn E h) (getSeq E h) (abs_log (log_trans s))
      = (v, abs_log (log_trans s'))" "says E h v r ''committed''"
    using commit_sim [OF assms(1,3,4,9)] by blast
  have "v = Commit_now"
    using v(2) by (rule says_now) (use v(1) spec_commit_methods in blast)
  with v(1) obtain a1 a2 where "commit_txn (is_primary (log_trans s)) io (getSeq E h) a1 = (Commit_now, a2)"
    unfolding spec_commit_def using on_txn_now by blast
  from try_commit_now [OF commit_txn_now [OF this]] have "1 \<le> getSeq E h" by simp
  from txn_text_closed [OF this, of a] readFile_text [where E = E and s = s' and p = "target a", OF assms(10)] f
  show ?thesis by (simp add: closed_def)
qed

lemma commit_then_read_witness:
  "\<exists>r s'. commit ref_env ''COMMIT 7 2 0'' (demo ''backup'' ''ACTIVE'' ''0'') = Ok (r, ''committed'', s') \<and>
     readFile ref_env ''notes'' s' = (True, ''old'' @ [nl] @ ''ab'' @ [nl] @ ''cd'' @ [nl])"
proof -
  let ?s = "demo ''backup'' ''ACTIVE'' ''0''" and ?h = "''COMMIT 7 2 0''" and ?a = "abs_txn (demo_txn ''ACTIVE'' ''0'')"
  have g: "getTsn ref_env ?h = 7" "getSeq ref_env ?h = 2" "getRole (log_trans ?s) = Ok ''backup''" by code_simp+
  have t: "om_find (log_trans ?s) 7 = Some (demo_txn ''ACTIVE'' ''0'')" by code_simp
  have a: "abs_log (log_trans ?s) (getTsn ref_env ?h) = Some ?a" "target ?a = ''notes''"
    using t by (simp_all add: abs_log_def server_key_def g(1)) (simp add: abs_txn_def demo_txn_def)
  have "case commit ref_env ?h ?s of Ok (r, c, s') \<Rightarrow> c = ''committed'' \<and> os_read ref_env (files s') ''notes'' | Stop e \<Rightarrow> False"
    by code_simp
  then obtain r s' where run: "commit ref_env ?h ?s = Ok (r, ''committed'', s')" "os_read ref_env (files s') ''notes''"
    by (auto split: res.splits)
  have "target ?a \<noteq> fileName" by (simp add: a(2) fileName_def)
  from commit_then_read [OF ref_text_ok ref_files_ok demo_wf(2) demo_keys(1) a(1) this g(3) _ run(1)] run a(2)
  have "readFile ref_env ''notes'' s' = (True, file_text (files ?s) ''notes'' @ txn_text ?a 2)"
    by (simp add: g(2))
  moreover have "[1..2 :: int] = [1, 2]" by code_simp
  ultimately show ?thesis
    using run(1) by (auto simp: txn_text_def abs_txn_def demo_txn_def demo_def demo_disk_def file_text_def)
qed

end
