(* ===== verification/Server_Properties.thy ===== *)
theory Server_Properties
  imports Role_Properties Session_Properties Session_Safety
begin

text \<open>
  The properties of a server from its start to any of its states: the start from a command
  line and from a log on disk, accepting connections, and the transaction manager's timer.
\<close>

section \<open>The transaction manager\<close>

fun tm_rounds :: "nat \<Rightarrow> env \<Rightarrow> tmstate \<Rightarrow> lstate \<Rightarrow> (tmstate \<times> lstate) res" where
  "tm_rounds 0 E t s = Ok (t, s)"
| "tm_rounds (Suc j) E t s = bnd (tm_rounds j E t s) (\<lambda>(t1, s1). tm_check E t1 s1)"

lemma tm_rounds_quiet:
  assumes "timer_since t = 0" "j < 30" "tm_rounds j E t s = Ok (t', s')"
  shows "timer_since t' = int j \<and> log_trans s' = log_trans s"
  using assms
proof (induction j arbitrary: t' s')
  case (Suc j)
  then obtain t1 s1 where r: "tm_rounds j E t s = Ok (t1, s1)" "tm_check E t1 s1 = Ok (t', s')" by auto
  with Suc have "timer_since t1 = int j" "log_trans s1 = log_trans s" by auto
  with r(2) Suc.prems(2) show ?case by (auto simp: tm_check_def Let_def dest!: save_log)
qed simp

text \<open>The timer's handler looks for timeouts every thirtieth time and only then: from a
  counter at zero twenty-nine rounds change no transaction, and the next one ages the log by one
  step of \<open>timeouts\<close> and starts the count again. Every round saves the log.\<close>

lemma timeouts_every_thirtieth:
  assumes "timer_since t = 0" and "tm_rounds 29 E t s = Ok (t1, s1)" and "tm_check E t1 s1 = Ok (t2, s2)"
  shows "log_trans s1 = log_trans s \<and> timer_since t2 = 0
    \<and> (\<exists>s3. timeouts E s1 = Ok s3 \<and> save E s3 = Ok s2 \<and> log_trans s2 = log_trans s3)"
proof -
  have "timer_since t1 = 29" "log_trans s1 = log_trans s"
    using tm_rounds_quiet [OF assms(1) _ assms(2)] by simp_all
  with assms(3) show ?thesis by (auto simp: tm_check_def Let_def dest: save_log)
qed

lemma timeouts_every_thirtieth_witness:
  "\<exists>t1 s1 t2 s2. tm_rounds 29 ref_env TransactionManager_init (demo ''primary'' ''ACTIVE'' ''0'') = Ok (t1, s1) \<and>
     tm_check ref_env t1 s1 = Ok (t2, s2) \<and> timer_since t2 = 0"
proof -
  let ?s = "demo ''primary'' ''ACTIVE'' ''0''"
  have "case tm_rounds 29 ref_env TransactionManager_init ?s of
      Ok (t1, s1) \<Rightarrow> is_ok (tm_check ref_env t1 s1) | Stop e \<Rightarrow> False" by code_simp
  then obtain t1 s1 t2 s2 where r: "tm_rounds 29 ref_env TransactionManager_init ?s = Ok (t1, s1)"
    "tm_check ref_env t1 s1 = Ok (t2, s2)"
    by (auto simp: is_ok_ex split: res.splits)
  from timeouts_every_thirtieth [OF _ r] r show ?thesis by (simp add: TransactionManager_init_def)
qed

section \<open>Accepting\<close>

lemma closed_step:
  assumes "accepting s = None" "server_step k E N e s = Ok s'"
  shows "accepting s' = None \<and> length (live s') \<le> length (live s)"
proof (cases e)
  case (Arrived i error u tail up)
  with assms show ?thesis by (auto split: if_splits option.splits)
qed (use assms in \<open>auto simp: handle_accept_def\<close>)

lemma closed_run:
  "accepting s = None \<Longrightarrow> run_server k E N es s = Ok s' \<Longrightarrow> accepting s' = None \<and> length (live s') \<le> length (live s)"
proof (induction es arbitrary: s)
  case (Cons e es)
  then obtain s1 where s1: "server_step k E N e s = Ok s1" "run_server k E N es s1 = Ok s'" by auto
  from closed_step [OF Cons.prems(1) s1(1)] Cons.IH [OF _ s1(2)] show ?case by auto
qed simp

text \<open>One failed accept ends the service for everyone to come: the handler deletes the
  waiting session and starts no other accept, so that whatever events follow, no session is
  ever added.\<close>

lemma accept_error_is_final:
  assumes "run_server k E N (Accepted True ip port # es) s = Ok s'"
  shows "accepting s' = None \<and> length (live s') \<le> length (live s)"
proof -
  have "accepting (handle_accept True ip port s) = None" "live (handle_accept True ip port s) = live s"
    by (auto simp: handle_accept_def split: option.split)
  with assms closed_run [of "handle_accept True ip port s"] show ?thesis by auto
qed

definition demo_server :: "'w node \<Rightarrow> session list \<Rightarrow> 'w server" where
  "demo_server n ls = \<lparr>node = n, tm = TransactionManager_init, accepting = Some (Session_init [] 0), live = ls\<rparr>"

lemma accept_error_is_final_witness:
  "\<exists>s'. run_server 5 ref_env dead_net [Accepted True ''10.0.0.9'' 1, Accepted False ''10.0.0.8'' 2, Rep_timer]
       (demo_server (demo_node False [] () (demo ''primary'' ''ACTIVE'' ''0'')) []) = Ok s' \<and> live s' = []"
proof -
  let ?s = "demo_server (demo_node False [] () (demo ''primary'' ''ACTIVE'' ''0'')) []"
  have "is_ok (run_server 5 ref_env dead_net [Accepted True ''10.0.0.9'' 1, Accepted False ''10.0.0.8'' 2, Rep_timer] ?s)"
    by code_simp
  then obtain s' where run: "run_server 5 ref_env dead_net
      [Accepted True ''10.0.0.9'' 1, Accepted False ''10.0.0.8'' 2, Rep_timer] ?s = Ok s'"
    by (auto simp: is_ok_ex)
  from accept_error_is_final [OF run] run show ?thesis by (auto simp: demo_server_def)
qed

section \<open>The port\<close>

lemma endpoint_port_mod: "endpoint_port i = i mod 65536"
  by (simp add: endpoint_port_def uint_word_of_int)

lemma short_of_int_high:
  assumes "32768 \<le> p" "p < 65536" shows "short_of_int p = p - 65536"
proof -
  have "short_of_int p = (p + 32768) mod 65536 - 32768"
    by (simp add: short_of_int_def int_word_sint)
  also have "p + 32768 = p - 32768 + 65536" by simp
  also have "(p - 32768 + 65536) mod 65536 = (p - 32768) mod 65536" by (rule mod_add_self2)
  also have "\<dots> = p - 32768" using assms by (intro mod_pos_pos_trivial) simp_all
  finally show ?thesis by simp
qed

text \<open>C39: A port above 32767 works for listening but not for being found: \<open>main\<close> keeps it in a
  \<open>short\<close>, the endpoint takes that back as \<open>unsigned short\<close> and listens where it was told, but
  the log, from which \<open>PING\<close> and \<open>primary.txt\<close> take the address, holds the negative number.\<close>

theorem high_port_advertised_negative:
  assumes "text_ok E" and "32768 \<le> p" and "p < 65536"
    and "read_options [(CHR ''p'', decimal p)] default_settings = Ok o1"
    and "Server_init E ip (opt_port o1) role dir d k w = Ok s"
    and "LogHandler_init E d k = Ok s0" and "om_ok (log_trans s0)"
  shows "acceptor E ip p \<and> getPortThis (server_log s) = Ok (decimal (p - 65536))"
proof -
  have "atoi (decimal p) = Ok p" using assms(2,3) by (simp add: in_int32_def)
  then have o1: "opt_port o1 = short_of_int p" using assms(4) by auto
  have port: "short_of_int p = p - 65536" by (rule short_of_int_high [OF assms(2,3)])
  have "endpoint_port (opt_port o1) = (p - 65536 + 65536) mod 65536"
    unfolding o1 port endpoint_port_mod by (rule mod_add_self2 [symmetric])
  also have "\<dots> = p" using assms(2,3) by simp
  finally have "endpoint_port (opt_port o1) = p" .
  moreover have "lex_str E (p - 65536) = decimal (p - 65536)"
    using assms(1-3) unfolding text_ok_def by (intro text_lib.lstr_decimal) (simp_all add: in_int32_def)
  ultimately show ?thesis
    using assms(5) Server_init_log(1) [OF assms(5,6)] assms(7) o1 port
    by (auto simp: Server_init_def split: if_splits)
qed

lemma high_port_advertised_negative_witness:
  "\<exists>s. Server_init ref_env ''10.0.0.1'' (short_of_int 40000) ''primary'' ''/net'' demo_disk 0 () = Ok s \<and>
     getPortThis (server_log s) = Ok (decimal (- 25536))"
proof -
  have a: "atoi (decimal 40000) = Ok 40000" by (simp add: in_int32_def)
  have r: "read_options [(CHR ''p'', decimal 40000)] default_settings =
      Ok (default_settings\<lparr>opt_port := short_of_int 40000\<rparr>)" using a by simp
  have port: "short_of_int 40000 = - 25536" using short_of_int_high [of 40000] by simp
  have "is_ok (LogHandler_init ref_env demo_disk 0)" by code_simp
  then obtain s0 where s0: "LogHandler_init ref_env demo_disk 0 = Ok s0" by (auto simp: is_ok_ex)
  have "demo_disk fileName = None" by (simp add: demo_disk_def fileName_def)
  note fresh = fresh_start [OF ref_files_ok this s0]
  let ?s1 = "s0\<lparr>log_trans := serverData ''10.0.0.1'' (decimal (- 25536)) ''primary'' ''/net'' (log_trans s0)\<rparr>"
  have f: "files ?s1 (primary_file ''/net'') = Some (File (primary_line ''127.0.0.1'' ''8080''))"
    using fresh by (simp add: demo_disk_def primary_file_def fileName_def)
  have "loadPrimary ref_env ?s1 = Ok (''127.0.0.1'', ''8080'')"
    by (rule loadPrimary_line [OF ref_text_ok _ f]) (use fresh f in simp_all)
  then obtain s where s: "Server_init ref_env ''10.0.0.1'' (short_of_int 40000) ''primary'' ''/net'' demo_disk 0 () = Ok s"
    by (simp add: Server_init_def port endpoint_port_mod s0 ReplicationManager_init_def)
  have "om_ok (log_trans s0)" using fresh by simp
  from high_port_advertised_negative [OF ref_text_ok _ _ r _ s0 this, of "''10.0.0.1''" "''primary''" "''/net''" "()" s] s
  show ?thesis by simp
qed

section \<open>The start\<close>

text \<open>C16: A restart loses nothing: a server that starts on a directory where a well-formed log
  was saved has every transaction of that log, in a well-formed log of its own, the role, the
  ip and the port it was started with, no connection and an empty queue.\<close>

theorem restart_keeps_transactions:
  assumes "archive_ok E" and "files_ok E" and "wf_log (log_trans s0)" and "save E s0 = Ok s1"
    and "os_read E (files s1) fileName" and "role = ''primary'' \<or> role = ''backup''"
    and "Server_init E ip port role dir (files s1) k w = Ok s"
  shows "abs_log (server_log s) = abs_log (log_trans s0) \<and> wf_log (server_log s)
    \<and> getRole (server_log s) = Ok role \<and> getIpThis (server_log s) = Ok ip
    \<and> getPortThis (server_log s) = Ok (lex_str E port)
    \<and> \<not> alive (rm (node s)) \<and> syncQueue (rm (node s)) = [] \<and> live s = []"
proof -
  note load = save_then_load [OF assms(1,2,4,5), of k]
  have wf: "wf_txns (log_trans s0)" by (rule wf_txns_log [OF assms(3)])
  have l: "server_log s = serverData ip (lex_str E port) role dir (log_trans s0)"
    using Server_init_log(1) [OF assms(7) load] by simp
  have "\<not> alive (rm (node s))" "syncQueue (rm (node s)) = []" "live s = []"
    using assms(7) by (auto simp: Server_init_def ReplicationManager_init_def Let_def split: if_splits)
  moreover have "om_ok (log_trans s0)" by (rule wf_log_ok [OF assms(3)])
  ultimately show ?thesis
    using Server_init_wf [OF assms(7) load _ assms(6)] wf l by simp
qed

lemma restart_keeps_transactions_witness:
  "\<exists>s1 s. save ref_env (demo ''primary'' ''COMMITTED'' ''2'') = Ok s1 \<and>
     Server_init ref_env ''127.0.0.1'' 80 ''backup'' ''/net'' (files s1) 0 () = Ok s \<and>
     abs_log (server_log s) = abs_log (log_trans (demo ''primary'' ''COMMITTED'' ''2''))"
proof -
  let ?s = "demo ''primary'' ''COMMITTED'' ''2''"
  have "case save ref_env ?s of Ok s1 \<Rightarrow>
      is_ok (Server_init ref_env ''127.0.0.1'' 80 ''backup'' ''/net'' (files s1) 0 ()) | Stop e \<Rightarrow> False"
    by code_simp
  then obtain s1 s where r: "save ref_env ?s = Ok s1"
    "Server_init ref_env ''127.0.0.1'' 80 ''backup'' ''/net'' (files s1) 0 () = Ok s"
    by (auto simp: is_ok_ex split: res.splits)
  have "os_read ref_env (files s1) fileName" using save_files [OF ref_files_ok r(1)] by simp
  from restart_keeps_transactions [OF ref_archive_ok ref_files_ok demo_wf(5) r(1) this _ r(2)] r show ?thesis by blast
qed

section \<open>The command line\<close>

lemma init_frame:
  assumes "files_ok E" "LogHandler_init E d k = Ok s" "p \<noteq> fileName" "p \<noteq> fileNameRecover"
  shows "files s p = d p"
  using assms(2-4) save_files [OF assms(1), of "\<lparr>log_trans = [], files = d, rng = k\<rparr>" s]
  by (auto simp: LogHandler_init_def Let_def split: if_splits prod.splits)

definition absolute :: "string \<Rightarrow> bool" where
  "absolute p \<longleftrightarrow> p \<noteq> [] \<and> hd p = CHR ''/''"

lemma resolve_absolute [simp]: "absolute p \<Longrightarrow> resolve cwd p = p"
  by (simp add: resolve_def absolute_def)

lemma primary_file_absolute: "absolute p \<Longrightarrow> absolute (primary_file p) \<and> primary_file p \<noteq> fileName \<and> primary_file p \<noteq> fileNameRecover"
  by (cases p) (auto simp: absolute_def primary_file_def fileName_def fileNameRecover_def)

text \<open>C32: A primary started with absolute directories finds itself: the line \<open>main\<close> leaves in
  \<open>primary.txt\<close> of the network directory is the one its replication manager reads there when
  it is constructed, with the defaults in place of what the command line leaves open.\<close>

theorem primary_finds_itself:
  assumes "text_ok E" and "files_ok E"
    and "\<And>D q. D q = Some Dir \<Longrightarrow> \<not> os_open E D q" and "\<And>D q u. D q = Some (File u) \<Longrightarrow> os_read E D q"
    and "read_options opts default_settings = Ok o1" and "opt_primary o1"
    and "opt_dir o1 = Some dir" and "absolute dir" and "opt_net o1 = Some net" and "absolute net"
    and "set (opt_ip (with_defaults o1)) \<inter> {CHR ''|'', nl} = {}"
    and "start_server E opts cwd d k w = Ok (cwd', s)"
  shows "prim_ip (rm (node s)) = opt_ip (with_defaults o1)
    \<and> prim_port (rm (node s)) = decimal (opt_port (with_defaults o1)) \<and> is_primary (server_log s)"
proof -
  let ?o = "with_defaults o1"
  have prim: "opt_primary ?o" using assms(6) by (simp add: with_defaults_def Let_def)
  from assms(5,12) obtain dir' net' cwd1 d1 cwd2 d2 where c: "check_dirs E o1 cwd d = Ok (dir', net', cwd1, d1)"
    and a: "announce E ?o net' cwd1 d1 = Ok (cwd2, d2)"
    and i: "Server_init E (opt_ip ?o) (opt_port ?o) ''primary'' net' (view (chdir d2 dir' cwd2) d2) k w = Ok s"
    using prim by (auto simp: start_server_def Let_def)
  let ?f = "dir @ ''/'' @ probe" and ?g = "primary_file net"
  have ck: "dir' = dir" "net' = net" "d net = Some Dir" "d dir = Some Dir" "cwd1 = dir" "os_open E d ?f"
    "d1 = (let d' = d(?f \<mapsto> File (''I can write!'' @ [nl])) in if os_remove E d' ?f then d'(?f := None) else d')"
    using c assms(7-10)
    by (auto simp: check_dirs_def view_def chdir_def Let_def resolve_def absolute_def probe_def split: if_splits)
  have "net \<noteq> ?f" using ck(3,6) assms(3) by blast
  then have "d1 net = Some Dir" using ck(3,7) by (simp add: Let_def)
  then have an: "d2 = d1(?g \<mapsto> File (primary_line (opt_ip ?o) (decimal (opt_port ?o))))"
    using a prim assms(10) ck(2,5)
    by (auto simp: announce_def chdir_def Let_def resolve_def absolute_def primary_file_def split: if_splits)
  note g = primary_file_absolute [OF assms(10)]
  let ?D = "view (chdir d2 dir' cwd2) d2"
  have D: "?D ?g = Some (File (primary_line (opt_ip ?o) (decimal (opt_port ?o))))"
    using g an by (simp add: view_def)
  from i ck(2) obtain s0 where s0: "LogHandler_init E ?D k = Ok s0"
    and s1: "lh (node s) = s0\<lparr>log_trans := serverData (opt_ip ?o) (lex_str E (opt_port ?o)) ''primary'' net (log_trans s0)\<rparr>"
    and r: "ReplicationManager_init E (lh (node s)) = Ok (rm (node s))"
    by (auto simp: Server_init_def Let_def split: if_splits)
  have f: "files (lh (node s)) ?g = Some (File (primary_line (opt_ip ?o) (decimal (opt_port ?o))))"
    using init_frame [OF assms(2) s0] g D s1 by simp
  have ok0: "om_find (server_log s) 0 = Some (own_entry (opt_ip ?o) (lex_str E (opt_port ?o)) ''primary'' net)"
    using s1 by (simp add: serverData_def Let_def own_entry_def om_simps)
  then have dir: "getNetDir (server_log s) = Ok net" and role: "is_primary (server_log s)"
    by (simp_all add: getNetDir_def getRole_def entry_def own_entry_def)
  have "set (decimal (opt_port ?o)) \<inter> {CHR ''|'', nl} = {}" using decimal_no_delim by blast
  moreover have "os_read E (files (lh (node s))) ?g"
    using assms(4) [of "files (lh (node s))" ?g] f by simp
  ultimately have "loadPrimary E (lh (node s)) = Ok (opt_ip ?o, decimal (opt_port ?o))"
    using loadPrimary_line [OF assms(1) dir f _ assms(11)] by blast
  with r role show ?thesis
    by (auto simp: ReplicationManager_init_def dest!: sym [of _ "rm (node s)"])
qed

lemma primary_finds_itself_witness:
  "\<exists>cwd' s. start_server ref_env [(CHR ''m'', []), (CHR ''p'', ''80''), (CHR ''d'', ''/srv''), (CHR ''n'', ''/net'')]
       ''/home'' [''/srv'' \<mapsto> Dir, ''/net'' \<mapsto> Dir] 0 () = Ok (cwd', s) \<and>
     prim_ip (rm (node s)) = ''127.0.0.1'' \<and> prim_port (rm (node s)) = decimal 80"
proof -
  let ?opts = "[(CHR ''m'', []), (CHR ''p'', ''80''), (CHR ''d'', ''/srv''), (CHR ''n'', ''/net'')]"
  let ?run = "start_server ref_env ?opts ''/home'' [''/srv'' \<mapsto> Dir, ''/net'' \<mapsto> Dir] 0 ()"
  have "is_ok ?run" by code_simp
  then obtain cwd' s where run: "?run = Ok (cwd', s)" by (auto simp: is_ok_ex)
  have "atoi ''80'' = Ok 80" by code_simp
  then have opts: "read_options ?opts default_settings =
      Ok \<lparr>opt_ip = ''NULL'', opt_port = 80, opt_primary = True, opt_dir = Some ''/srv'', opt_net = Some ''/net''\<rparr>"
    by (simp add: default_settings_def short_of_int_def)
  from primary_finds_itself [OF ref_text_ok ref_files_ok _ _ opts _ _ _ _ _ _ run] run show ?thesis
    by (simp add: with_defaults_def absolute_def)
qed

text \<open>C38: A primary started with relative directories, where the working directory has no
  directories of those names in it, never starts: \<open>main\<close> looks for the network directory in the
  data directory it has just changed to, leaves \<open>primary.txt\<close> in the data directory without
  noticing, and the replication manager then does not find it.\<close>

theorem relative_directories_fail:
  assumes "files_ok E" and "\<And>D q. D q = None \<Longrightarrow> \<not> os_read E D q"
    and "read_options opts default_settings = Ok o1" and "opt_primary o1"
    and "opt_dir o1 = Some dir" and "\<not> absolute dir" and "opt_net o1 = Some net" and "\<not> absolute net" and "net \<noteq> []"
    and "d (resolve (resolve cwd dir) dir) \<noteq> Some Dir" and "d (resolve (resolve cwd dir) net) \<noteq> Some Dir"
    and "d (resolve (resolve cwd dir) (primary_file net)) = None"
  shows "start_server E opts cwd d k w \<noteq> Ok (cwd', s)"
proof
  assume run: "start_server E opts cwd d k w = Ok (cwd', s)"
  let ?o = "with_defaults o1" and ?W = "resolve cwd dir"
  have prim: "opt_primary ?o" using assms(4) by (simp add: with_defaults_def Let_def)
  from assms(3) run obtain dir' net' cwd1 d1 cwd2 d2 where c: "check_dirs E o1 cwd d = Ok (dir', net', cwd1, d1)"
    and a: "announce E ?o net' cwd1 d1 = Ok (cwd2, d2)"
    and i: "Server_init E (opt_ip ?o) (opt_port ?o) ''primary'' net' (view (chdir d2 dir' cwd2) d2) k w = Ok s"
    using prim by (auto simp: start_server_def Let_def)
  have rel: "resolve v p = v @ ''/'' @ p" if "\<not> absolute p" for v p
    using that by (simp add: resolve_def absolute_def)
  let ?f = "?W @ ''/'' @ probe" and ?g = "?W @ ''/'' @ ''primary.txt''"
  have ck: "dir' = dir" "net' = net" "cwd1 = ?W" "\<And>p. p \<noteq> ?f \<Longrightarrow> d1 p = d p" "d1 ?f \<noteq> Some Dir"
    using c assms(5,7)
    by (auto simp: check_dirs_def view_def chdir_def Let_def resolve_def probe_def split: if_splits)
  have same: "d1 p \<noteq> Some Dir" if "d p \<noteq> Some Dir" for p
    using ck(4) [of p] ck(5) that by (cases "p = ?f") auto
  have "chdir d1 net cwd1 = ?W"
    using same [OF assms(11)] by (simp add: chdir_def ck(3))
  with a prim ck(2) have an: "cwd2 = ?W" "\<And>p. p \<noteq> ?g \<Longrightarrow> d2 p = d1 p" "d2 ?g \<noteq> Some Dir"
    by (auto simp: announce_def Let_def resolve_def split: if_splits)
  have "d2 (resolve ?W dir) \<noteq> Some Dir"
    using an(2) [of "resolve ?W dir"] an(3) same [OF assms(10)] by (cases "resolve ?W dir = ?g") auto
  then have cwd3: "chdir d2 dir' cwd2 = ?W" by (simp add: chdir_def ck(1) an(1))
  have rg: "resolve ?W (primary_file net) = ?W @ ''/'' @ net @ ''/primary.txt''"
    using assms(8,9) by (simp add: resolve_def primary_file_def absolute_def hd_append)
  have "resolve ?W (primary_file net) \<noteq> ?g" using assms(9) unfolding rg by auto
  moreover have "resolve ?W (primary_file net) \<noteq> ?f"
  proof
    assume "resolve ?W (primary_file net) = ?f"
    then have "net @ ''/primary.txt'' = probe" unfolding rg by simp
    then have "CHR ''/'' \<in> set probe" by (metis in_set_conv_decomp append_Cons)
    then show False by (simp add: probe_def)
  qed
  ultimately have none: "view ?W d2 (primary_file net) = None"
    using an(2) ck(4) assms(12) by (simp add: view_def)
  from i ck(2) cwd3 obtain s0 where s0: "LogHandler_init E (view ?W d2) k = Ok s0"
    and s1: "lh (node s) = s0\<lparr>log_trans := serverData (opt_ip ?o) (lex_str E (opt_port ?o)) ''primary'' net (log_trans s0)\<rparr>"
    and r: "ReplicationManager_init E (lh (node s)) = Ok (rm (node s))"
    by (auto simp: Server_init_def Let_def split: if_splits)
  have "CHR ''/'' \<in> set (primary_file net)" by (simp add: primary_file_def)
  then have "primary_file net \<noteq> fileName" "primary_file net \<noteq> fileNameRecover"
    by (auto simp: fileName_def fileNameRecover_def)
  then have "files (lh (node s)) (primary_file net) = None"
    using init_frame [OF assms(1) s0] none s1 by simp
  moreover have "getNetDir (server_log s) = Ok net"
    using s1 by (simp add: serverData_def Let_def getNetDir_def entry_def om_simps)
  ultimately show False
    using r assms(2) by (simp add: ReplicationManager_init_def loadPrimary_def)
qed

lemma relative_directories_fail_witness:
  "\<forall>cwd' s. start_server ref_env [(CHR ''m'', []), (CHR ''d'', ''srv''), (CHR ''n'', ''net'')]
     ''/home'' [''/home/srv'' \<mapsto> Dir, ''/home/net'' \<mapsto> Dir] 0 () \<noteq> Ok (cwd', s)"
proof -
  let ?opts = "[(CHR ''m'', []), (CHR ''d'', ''srv''), (CHR ''n'', ''net'')]"
  have opts: "read_options ?opts default_settings =
      Ok \<lparr>opt_ip = ''NULL'', opt_port = 8080, opt_primary = True, opt_dir = Some ''srv'', opt_net = Some ''net''\<rparr>"
    by (simp add: default_settings_def)
  show ?thesis
    by (intro allI relative_directories_fail [OF ref_files_ok _ opts, where dir = "''srv''" and net = "''net''"])
      (simp_all add: absolute_def resolve_def primary_file_def)
qed

section \<open>A client that is gone\<close>

lemma run_server_append:
  "run_server k E N (as @ bs) s = bnd (run_server k E N as s) (run_server k E N bs)"
proof (induction as arbitrary: s)
  case (Cons a as)
  then show ?case by (cases "server_step k E N a s") simp_all
qed simp

text \<open>C37: One client can end the server for all of them: \<open>sendACK\<close> does not catch what the write
  throws, nor does any handler, so that a client that sends a line that is no header and is
  gone, or takes no answers, when it is refused takes the whole program down, with exit code
  zero, whatever was still to come.\<close>

theorem gone_client_ends_server:
  assumes "text_ok E" and "up \<noteq> There" and "start_server E opts cwd d k w = Ok (dir, s0)"
    and "run_server fuel E N es s0 = Ok s" and "i < length (live s)" and "listening (live s ! i)"
    and "\<And>h. packet_header E (buf_b (live s ! i) @ u) = Some h \<Longrightarrow> \<not> validHeader E h"
  shows "main_program E N fuel opts cwd d k w (es @ Arrived i False u tail up # es') = Stop (Exited 0)"
proof -
  let ?ss = "(live s ! i)\<lparr>buf_b := buf_b (live s ! i) @ u, incoming := tail, writable := up = There, known := up \<noteq> Gone, listening := False\<rparr>"
  obtain g line st where g: "getline (buf_b ?ss, False) [] = (g, line, st)" by (metis prod_cases3)
  have gone: "reject E h t n ss1 = Stop Thrown" if "3 \<le> length (tokens E h)" "\<not> writable ss1" for h t n ss1
    using that genAnswerStr_defined [of E "''ERROR''" h "''204''" t] by (auto simp: reject_def answer_def sendACK_def)
  have deaf: "\<not> writable ?ss" using assms(2) by simp
  have "read_packet fuel E N (node s) ?ss = Stop Thrown"
  proof (cases "skip_short (strip_cr line) st")
    case None
    with g deaf show ?thesis by (simp add: read_packet_def gone fixed_headers [OF assms(1)])
  next
    case (Some hs)
    obtain h st1 where hs: "hs = (h, st1)" by (metis surj_pair)
    have "packet_header E (buf_b (live s ! i) @ u) = Some h" using g Some hs by (simp add: packet_header_def)
    from assms(7) [OF this] g Some hs deaf show ?thesis
      by (simp add: read_packet_def handle_packet_def gone fixed_headers [OF assms(1)])
  qed
  then have "run_server fuel E N (Arrived i False u tail up # es') s = Stop Thrown"
    using assms(5,6) by (simp add: handle_read_def)
  with run_server_append [of fuel E N es _ s0] assms(3,4) show ?thesis by (simp add: main_program_def)
qed

lemma gone_client_ends_server_witness:
  "main_program ref_env dead_net 5 [(CHR ''m'', []), (CHR ''p'', ''80''), (CHR ''d'', ''/srv''), (CHR ''n'', ''/net'')]
     ''/home'' [''/srv'' \<mapsto> Dir, ''/net'' \<mapsto> Dir] 0 ()
     ([Accepted False ''10.0.0.8'' 4000] @ Arrived 0 False (''good morning'' @ [nl]) [] Deaf # [Txn_timer]) = Stop (Exited 0)"
proof -
  let ?run = "start_server ref_env [(CHR ''m'', []), (CHR ''p'', ''80''), (CHR ''d'', ''/srv''), (CHR ''n'', ''/net'')]
     ''/home'' [''/srv'' \<mapsto> Dir, ''/net'' \<mapsto> Dir] 0 ()"
  have "case ?run of Ok (dir, s0) \<Rightarrow>
      (case run_server 5 ref_env dead_net [Accepted False ''10.0.0.8'' 4000] s0 of
         Ok s \<Rightarrow> length (live s) = 1 \<and> listening (live s ! 0) \<and>
           packet_header ref_env (buf_b (live s ! 0) @ ''good morning'' @ [nl]) = Some ''good morning'' | Stop e \<Rightarrow> False)
    | Stop e \<Rightarrow> False"
    by code_simp
  then obtain dir s0 s where run: "?run = Ok (dir, s0)"
    "run_server 5 ref_env dead_net [Accepted False ''10.0.0.8'' 4000] s0 = Ok s"
    "length (live s) = 1" "listening (live s ! 0)"
    "packet_header ref_env (buf_b (live s ! 0) @ ''good morning'' @ [nl]) = Some ''good morning''"
    by (auto split: res.splits)
  have "\<not> validHeader ref_env ''good morning''" by code_simp
  then show ?thesis
    using run by (intro gone_client_ends_server [OF ref_text_ok _ run(1,2)]) simp_all
qed

end
