(* ===== verification/Wire_Properties.thy ===== *)
theory Wire_Properties
  imports Session_Safety Server_Properties
begin

text \<open>
  The properties of the wire: what a server stores, queues and sends has its form in every
  state it comes to, and what becomes of a packet.
\<close>

section \<open>Types\<close>

text \<open>C12: Everything a server keeps or sends has its type, on whatever network and in every state of a run
  whose packets do not name the server's own entries and can be counted by an \<open>int\<close>: the writes it stores are packets a backup reads as those writes, with numbers that
  are an \<open>int\<close>; what it has queued for the backup arrives as one packet each; and every text
  it ever sent to a peer is an answer of the protocol, a line of five fields of which the
  first is a kind of answer, a blank line and a line of text.\<close>

theorem run_typed:
  assumes "libs_ok E" and "wf_log (server_log s)"
    and "wire_log E (server_log s)" and "list_all (fits E) (syncQueue (rm (node s)))" and "sent_answers E s"
    and "fair_run k E N es s" and "run_server k E N es s = Ok s'"
  shows "wire_log E (server_log s') \<and> list_all (fits E) (syncQueue (rm (node s'))) \<and> sent_answers E s'"
proof -
  have "srv_wire E s \<and> sent_answers E s" using assms(1-5) by (simp add: srv_wire_def srv_ok_def node_wire_def)
  from talk.steps_ok [OF fair_run_steps [OF assms(7,6)] this] show ?thesis
    by (simp add: srv_wire_def node_wire_def)
qed

lemma run_typed_witness:
  "\<exists>s'. run_server 5 ref_env dead_net
       [Accepted False ''10.0.0.8'' 4000, Arrived 0 False (packet ''COMMIT 7 3 0'') [] There, Txn_timer, Rep_timer]
       (demo_server (demo_node False [] () (demo ''primary'' ''ACTIVE'' ''0'')) []) = Ok s' \<and>
     wire_log ref_env (server_log s') \<and> sent_answers ref_env s'"
proof -
  let ?s = "demo_server (demo_node False [] () (demo ''primary'' ''ACTIVE'' ''0'')) []"
  let ?es = "[Accepted False ''10.0.0.8'' 4000, Arrived 0 False (packet ''COMMIT 7 3 0'') [] There, Txn_timer, Rep_timer]"
  have f: "fair_run 5 ref_env dead_net ?es ?s" by code_simp
  have "is_ok (run_server 5 ref_env dead_net ?es ?s)" by code_simp
  then obtain s' where run: "run_server 5 ref_env dead_net ?es ?s = Ok s'" by (auto simp: is_ok_ex)
  have i: "wf_log (server_log ?s)" "wire_log ref_env (server_log ?s)" "list_all (fits ref_env) (syncQueue (rm (node ?s)))"
    "sent_answers ref_env ?s" by code_simp+
  from run_typed [OF ref_libs_ok i f run] run show ?thesis by blast
qed

section \<open>Answers\<close>

text \<open>C13: What becomes of a packet: where the handler returns, what it adds to the packets the session
  has sent are answers of the protocol; there is one at least, unless the method is \<open>AUTH\<close> or
  \<open>KILL\<close> or the peer closed in the middle of the data, after which the session reads no more;
  and where there are more than one, each of them asks for a missing write. Where it does not
  return nothing of this is promised; on a backup, and for a packet in the range of
  \<open>backup_handles_safely\<close>, it has then thrown an exception or hangs, and has neither ended the
  program with \<open>exit\<close> nor run into undefined behaviour. This is for packets that do not name
  the server's own entries and that an \<open>int\<close> can count.\<close>

theorem packet_outcome:
  assumes "libs_ok E" and "wf_log (node_log n)"
    and "wire_log E (node_log n)" and "list_all (fits E) (syncQueue (rm n))"
    and "proper_packet E (buf_b ss)" and "sized ss"
  shows "case handle_read k E N False n ss of
      Ok (n', so) \<Rightarrow> \<exists>ss' as. so = Some ss' \<and> sent ss' = sent ss @ as \<and> list_all (answer_form E) as
        \<and> (as = [] \<longrightarrow> unanswered E (buf_b ss) \<or> incoming ss' = [] \<and> \<not> listening ss')
        \<and> (2 \<le> length as \<longrightarrow> list_all (asks E) as)
    | Stop e \<Rightarrow>
        getRole (node_log n) = Ok ''backup''
          \<and> (\<forall>h i. packet_header E (buf_b ss) = Some h \<and> validHeader E h \<and> parse E h = Ok i \<longrightarrow> ranged E i h (node_log n))
        \<longrightarrow> e = Thrown \<or> e = Diverged"
proof -
  let ?ss = "ss\<lparr>listening := False\<rparr>"
  have E: "text_ok E" "random_ok E" "files_ok E" and w: "node_wire E n" using assms(1,3,4) by (simp_all add: libs_ok_def node_wire_def)
  have p: "proper_packet E (buf_b ?ss)" "sized ?ss" "\<not> listening ?ss" using assms(5,6) by (simp_all add: sized_def)
  show ?thesis
  proof (cases "read_packet k E N n ?ss")
    case (Ok r)
    obtain n' ss' where r: "r = (n', ss')" by (metis surj_pair)
    with Ok read_packet_answered [OF E assms(2) w p, of k N n' ss'] show ?thesis
      by (simp add: handle_read_def answered_def)
  next
    case (Stop e)
    have "tame (read_packet k E N n ?ss)" if "getRole (node_log n) = Ok ''backup''"
      "\<forall>h i. packet_header E (buf_b ss) = Some h \<and> validHeader E h \<and> parse E h = Ok i \<longrightarrow> ranged E i h (node_log n)"
      using that by (intro read_packet_tame [OF E assms(2)]) auto
    with Stop show ?thesis by (simp add: handle_read_def)
  qed
qed

lemma packet_outcome_witness:
  "\<exists>n' ss' a b. handle_read 5 ref_env dead_net False (demo_node False [] () (demo ''primary'' ''ACTIVE'' ''0''))
       (demo_session (packet ''COMMIT 7 4 0'')) = Ok (n', Some ss') \<and>
     sent ss' = [a, b] \<and> answer_form ref_env a \<and> asks ref_env a \<and> asks ref_env b"
proof -
  let ?n = "demo_node False [] () (demo ''primary'' ''ACTIVE'' ''0'')" and ?ss = "demo_session (packet ''COMMIT 7 4 0'')"
  have i: "wf_log (node_log ?n)" "wire_log ref_env (node_log ?n)" "list_all (fits ref_env) (syncQueue (rm ?n))"
    "proper_packet ref_env (buf_b ?ss)" "sized ?ss" by code_simp+
  have "case handle_read 5 ref_env dead_net False ?n ?ss of
      Ok (n', Some ss') \<Rightarrow> length (sent ss') = 2 | _ \<Rightarrow> False" by code_simp
  then obtain n' ss' where run: "handle_read 5 ref_env dead_net False ?n ?ss = Ok (n', Some ss')" and l: "length (sent ss') = 2"
    by (auto split: res.splits option.splits prod.splits)
  have "sent ?ss = []" by (simp add: demo_session_def start_def Session_init_def)
  with packet_outcome [OF ref_libs_ok i, of 5 dead_net] run l have a: "list_all (answer_form ref_env) (sent ss')" "list_all (asks ref_env) (sent ss')"
    by auto
  obtain a b where "sent ss' = [a, b]" using l by (auto simp: length_Suc_conv numeral_2_eq_2)
  with a run show ?thesis by auto
qed

section \<open>Nothing a client sends is undefined\<close>

text \<open>C24: On a backup whatever a client sends is handled: the handler returns, throws where the
  log cannot be saved or the client is gone, or searches for a free number without end. It
  never runs into undefined behaviour and never calls \<open>exit\<close>. This is for packets whose
  numbers are in range, that name no entry of the server's own, and for \<open>PING\<close> where a backup
  is registered already; what the others can do is what \<open>abort_zero_breaks\<close> shows.\<close>

theorem backup_handles_safely:
  assumes "libs_ok E" and "wf_log (node_log n)" and "getRole (node_log n) = Ok ''backup''"
    and "\<And>h i. packet_header E (buf_b ss) = Some h \<Longrightarrow> validHeader E h \<Longrightarrow> parse E h = Ok i \<Longrightarrow>
      ranged E i h (node_log n)"
  shows "is_ok (read_packet k E N n ss) \<or> read_packet k E N n ss = Stop Thrown \<or> read_packet k E N n ss = Stop Diverged"
  using read_packet_tame [OF _ _ _ assms(2-4)] assms(1) by (simp add: libs_ok_def tame_def)

lemma backup_handles_safely_witness:
  "let m = read_packet 5 ref_env dead_net (demo_node False [] () (demo ''backup'' ''WAITING'' ''3''))
       (demo_session (packet ''COMMIT 7 3 0''))
   in is_ok m \<or> m = Stop Thrown \<or> m = Stop Diverged"
proof -
  let ?n = "demo_node False [] () (demo ''backup'' ''WAITING'' ''3'')" and ?ss = "demo_session (packet ''COMMIT 7 3 0'')"
  have wf: "wf_log (node_log ?n)" and r: "getRole (node_log ?n) = Ok ''backup''"
    and h: "packet_header ref_env (buf_b ?ss) = Some ''COMMIT 7 3 0''" "parse ref_env ''COMMIT 7 3 0'' = Ok 3"
      "is_ok (getBytes ref_env ''COMMIT 7 3 0'')" "proper ref_env 3 ''COMMIT 7 3 0''" "getSeq ref_env ''COMMIT 7 3 0'' = 3"
    by code_simp+
  show ?thesis
    unfolding Let_def using h by (intro backup_handles_safely [OF ref_libs_ok wf r]) (auto simp: ranged_def)
qed

section \<open>From the start\<close>

lemma serverData_wire: "om_ok l \<Longrightarrow> wire_log E l \<Longrightarrow> wire_log E (serverData ip port role dir l)"
  by (rule narrows_wire [OF serverData_narrows])

text \<open>C6: A server that starts without a log, on whatever network: in every state it comes to by
  packets that do not name its own entries \<open>0\<close> and \<open>-1\<close> and that an \<open>int\<close> can count, its log
  is well formed and can be sent to a backup write by write, its queue holds packets only, and
  it has sent nothing but answers. No invariant is assumed: this is what the program's own
  start and handlers establish. A packet that names entry \<open>0\<close> can break it
  (\<open>abort_zero_breaks\<close>).\<close>

theorem fresh_server_in_order:
  assumes "libs_ok E" and "d fileName = None" and "role = ''primary'' \<or> role = ''backup''"
    and "Server_init E ip port role dir d r w = Ok s"
    and "fair_run k E N es s" and "run_server k E N es s = Ok s'"
  shows "wf_log (server_log s') \<and> wire_log E (server_log s') \<and> list_all (fits E) (syncQueue (rm (node s')))
    \<and> sent_answers E s'"
proof -
  have F: "files_ok E" using assms(1) by (simp add: libs_ok_def)
  from assms(4) obtain s0 where s0: "LogHandler_init E d r = Ok s0"
    by (auto simp: Server_init_def split: if_splits)
  note fresh = fresh_start [OF F assms(2) s0]
  have l: "server_log s = serverData ip (lex_str E port) role dir []"
    using Server_init_log(1) [OF assms(4) s0] fresh by simp
  have wf: "wf_log (server_log s)" using Server_init_wf [OF assms(4) s0 _ assms(3)] fresh by simp
  have w: "wire_log E (server_log s)" unfolding l by (rule serverData_wire) (simp_all add: wire_log_def)
  have q: "syncQueue (rm (node s)) = []" "sent_answers E s"
    using assms(4) by (auto simp: Server_init_def ReplicationManager_init_def sent_answers_def Session_init_def Let_def split: if_splits)
  from q(1) have qf: "list_all (fits E) (syncQueue (rm (node s)))" by simp
  have "srv_wire E s \<and> sent_answers E s" using assms(1) wf w qf q(2) by (simp add: srv_wire_def srv_ok_def node_wire_def)
  from talk.steps_ok [OF fair_run_steps [OF assms(6,5)] this] show ?thesis
    by (simp add: srv_wire_def srv_ok_def node_wire_def)
qed

lemma fresh_server_in_order_witness:
  "\<exists>s s'. Server_init ref_env ''127.0.0.1'' 80 ''primary'' ''/net'' demo_disk 0 () = Ok s \<and>
     run_server 5 ref_env dead_net [Accepted False ''10.0.0.8'' 4000,
       Arrived 0 False (''NEW_TXN 0 0 6'' @ crlf @ crlf @ ''notes'' @ [nl]) [] There, Rep_timer] s = Ok s' \<and>
     wire_log ref_env (server_log s') \<and> length (syncQueue (rm (node s'))) = 1"
proof -
  let ?i = "Server_init ref_env ''127.0.0.1'' 80 ''primary'' ''/net'' demo_disk 0 ()"
  let ?es = "[Accepted False ''10.0.0.8'' 4000,
       Arrived 0 False (''NEW_TXN 0 0 6'' @ crlf @ crlf @ ''notes'' @ [nl]) [] There, Rep_timer]"
  have "case ?i of Stop e \<Rightarrow> False | Ok s \<Rightarrow> fair_run 5 ref_env dead_net ?es s \<and>
      (case run_server 5 ref_env dead_net ?es s of Ok s' \<Rightarrow> length (syncQueue (rm (node s'))) = 1 | Stop e \<Rightarrow> False)"
    by code_simp
  then obtain s s' where r: "?i = Ok s" "fair_run 5 ref_env dead_net ?es s" "run_server 5 ref_env dead_net ?es s = Ok s'"
    "length (syncQueue (rm (node s'))) = 1"
    by (auto split: res.splits)
  have d: "demo_disk fileName = None" by (simp add: demo_disk_def fileName_def)
  from fresh_server_in_order [OF ref_libs_ok d _ r(1-3)] r show ?thesis by blast
qed

end
