(* ===== verification/Spec2Isabelle.thy ===== *)
theory Spec2Isabelle
  imports Lifecycle_Properties Resync_Properties Wire_Properties
begin

text \<open>
  A model of the transactional file server in \<open>src/cvg_a3\<close>: a primary that takes
  transactions on files from clients over TCP, and a backup that it keeps in step and that
  takes over when it is gone.

  \<^bold>\<open>The program and its theories.\<close>
  \<^item> \<open>ServerTools\<close>, the header grammar and the answers: \<open>Server_Tools\<close>.
  \<^item> \<open>LogHandler\<close>, the map from transaction numbers to transactions with its requests
    (\<open>newTxn\<close>, \<open>makeTxn\<close>, \<open>addLogEntry\<close>, \<open>commit\<close>, \<open>abort\<close>), timeouts, files and the archive on
    disk: \<open>Log_Handler\<close>. A transaction is itself a map: entry \<open>-1\<close> holds its status and the
    number of its commit, entry \<open>0\<close> a mark and the target file, entry \<open>q\<close> the header and the
    data of write \<open>q\<close>. Entry \<open>0\<close> of the log is the server itself (role, network directory,
    address), entry \<open>-1\<close> the registered backup. \<open>boost\<close>'s and the standard library's ordered
    map is an association list in ascending order, \<open>Ordered_Map\<close>.
  \<^item> \<open>Client\<close>, packets to the other server and the exchange of a request for a reply:
    \<open>Client_Side\<close>. The network is a record of four socket operations over a world of any type.
  \<^item> \<open>ReplicationManager\<close>, the queue for the backup, the commit that waits for it, the
    integrity check and the change of roles: \<open>Replication\<close>. Its state and the log handler's
    form a \<open>node\<close>.
  \<^item> \<open>Session\<close>, one connection, from the packet in its buffer to the answers it sends:
    \<open>Session_Handler\<close>.
  \<^item> \<open>TransactionManager\<close>, the timer that saves and ages the log: \<open>Txn_Manager\<close>.
  \<^item> \<open>Server\<close> and \<open>main\<close>, accepting connections, the events of the \<open>io_service\<close>, the command
    line and the start: \<open>Server_Main\<close>.

  Each operation is one function of the state it reads and changes. What can end it early is
  a value of type \<open>res\<close> (\<open>Prelude\<close>): \<open>Thrown\<close> for an exception that leaves the handler,
  \<open>Exited\<close> for a call of \<open>exit\<close>, \<open>Undefined\<close> for undefined behaviour of C++ (an iterator at
  the end, an index out of range, \<open>atoi\<close> out of range, an erased iterator that is
  incremented), \<open>Diverged\<close> for a call that does not return. An \<open>int\<close> is an integer with the
  range \<open>in_int32\<close> checked where it is read, a \<open>short\<close> and a \<open>size_t\<close> are words.

  \<^bold>\<open>The libraries.\<close> Boost, the C++ library's file operations and the operating system are a
  record \<open>env\<close> of functions (\<open>Library_Env\<close>). What the program relies on is stated as the
  locales \<open>text_lib\<close> and \<open>file_lib\<close> and the definitions \<open>archive_ok\<close>, \<open>random_ok\<close> and
  \<open>names_ok\<close>, all of them satisfied by the executable instance \<open>ref_env\<close>.

  \<^bold>\<open>The lemmas.\<close>
  \<^item> \<open>Log_Facts\<close>, \<open>Txn_Spec\<close>, \<open>Log_Refinement\<close>, \<open>Log_Lifecycle\<close>: the well-formed log, the
    abstract transaction (phase, age, target, writes) and its operations, and the simulation
    of every operation of \<open>LogHandler\<close>.
  \<^item> \<open>Log_Content\<close>, \<open>Log_Safety\<close>: what reaches the files, and that no request on a
    transaction of its own runs into undefined behaviour.
  \<^item> \<open>Store\<close>: the abstract specification of a server: a store of abstract transactions and the
    texts of the clients' files, the steps (\<open>serve\<close>) it may take, what any sequence of steps
    keeps and adds, and that the operations of \<open>LogHandler\<close> are such steps. \<open>Session_Facts\<close> and
    \<open>Server_Facts\<close> carry this up to the commands and the events (\<open>kept\<close>).
  \<^item> \<open>Request_Order\<close>: the requests on one transaction in any order, on a backup.
  \<^item> \<open>Replication_Facts\<close>, \<open>Role_Facts\<close>: the manager's frame, its queue, more fuel, the outcome
    of a commit, the change of roles.
  \<^item> \<open>Packets\<close>, \<open>Session_Facts\<close>, \<open>Backup_Facts\<close>: what a packet becomes in the session that
    reads it, what every command keeps, what a backup does with the primary's packets.
  \<^item> \<open>Server_Facts\<close>: the server as a transition system; the locale \<open>step_system\<close> carries an
    invariant and a preserved relation over runs.
  \<^item> \<open>Replica\<close>, \<open>Cluster\<close>: the interface \<open>replica\<close>, what the manager needs of the server behind
    its connection, and its interpretation by a network whose other end is a session of a
    backup.
  \<^item> \<open>Backup_Progress\<close>, \<open>Resync\<close>: that a backup whose files can be written gets on with every
    packet it is sent, and the exchanges that bring a backup that lags behind up to the
    primary, or never end.
  \<^item> \<open>Wire\<close>, \<open>Wire_Runs\<close>: what a server stores and queues is well formed on the wire, kept by
    every operation and every event on any network; \<open>Answers\<close>: what a session sends.
  \<^item> \<open>Session_Safety\<close>: no packet in range brings a backup into undefined behaviour.
  \<^item> \<open>Demo\<close>: concrete servers on which the properties are evaluated. The properties are in
    \<open>Log_Properties\<close>, \<open>Lifecycle_Properties\<close>, \<open>Replication_Properties\<close>, \<open>Resync_Properties\<close>,
    \<open>Role_Properties\<close>, \<open>Session_Properties\<close>, \<open>Server_Properties\<close>, \<open>Wire_Properties\<close> and below.

  \<^bold>\<open>Fuel.\<close> \<open>ReplicationManager::commit\<close>, \<open>primaryOps\<close> and \<open>integrityCheck\<close> call each other
  without a bound, and they do not always return. They take fuel, and \<open>Diverged\<close> means that
  it ran out. More fuel never changes a result (\<open>fuel_irrelevant\<close>); a primary without a
  backup needs two units (\<open>rm_commit_alone\<close>), one whose backup answers with anything but a
  request for writes one round (\<open>rm_commit_round\<close>), one whose backup lags behind and can be
  brought up over a network that leaves no answer behind, four (\<open>resync_completes\<close>), and the integrity check one for every commit and six
  more (\<open>check_restores_backup\<close>). With a write that is never sent no fuel is enough
  (\<open>short_data_hangs\<close>). The search for a free number in \<open>newTxn\<close>
  is a partial function, \<open>None\<close> where it does not end. Every other loop ends by its measure.

  \<^bold>\<open>Requests that name the server's own entries.\<close> The numbers \<open>0\<close> and \<open>-1\<close> are entries of the
  log that belong to the server, and the code does not keep clients away from them. The
  invariants are for requests that do not (\<open>proper\<close>); \<open>abort_zero_breaks\<close> and
  \<open>own_entry_commits\<close> show what happens otherwise.

  \<^bold>\<open>The network of the pair.\<close> The manager's theorems hold of any network. Those about two
  servers are for \<open>link_net\<close> (\<open>Cluster\<close>): what is written arrives in order and whole, the
  backup handles a packet when it arrives, and a read of the primary takes the answers it
  needs and as many more as the parameter \<open>C\<close> says for that read, anything from none to all.
  What it does not take stays in the socket, and since the program does not match answers to
  requests the next read takes it for its own: \<open>late_answer_decides\<close>. \<open>commit_replicated\<close>
  therefore speaks of a connection on which no read has left an answer behind (\<open>p_late\<close> is
  false), and the resynchronisation theorems assume that one read takes all the requests for
  missing writes (\<open>gathers\<close>), which every network does where at most one is missing.

  \<^bold>\<open>Not modelled.\<close> The mutexes: one \<open>io_service\<close> thread runs every handler, so that handlers
  do not overlap. Output for people: \<open>print_usage\<close>, the info text, all messages, and when the
  listing of \<open>printsentries\<close> (itself modelled) appears. Two paths that name one file: once the
  server runs a path is a name of its own, so that a transaction opened for the file
  \<open>primary.txt\<close> by another path than the network directory's is not covered. The parsing inside \<open>getopt_long\<close>: its result is a parameter. Files that are
  neither regular nor directories read as empty. The test client, which is only there as a
  compiled class file, and the build. What a network that delivers an answer in pieces can do
  to the exchange is not covered by the theorems about the pair. Running out of memory, as
  \<open>canCommit\<close> may for a commit with a number in the hundreds of millions, whose missing numbers
  it collects. A disk that fills up: \<open>files_ok\<close> assumes that a file that opens takes the text,
  while the program reports success either way (\<open>short_write_commits\<close>).
\<close>

section \<open>All components together\<close>

lemma run_kept:
  assumes "libs_ok E" "wf_log (server_log s)" "proper_run k E N es s" "run_server k E N es s = Ok s'"
  shows "kept (lh (node s)) (lh (node s'))"
  using srv.steps_keep [OF run_server_steps [OF assms(4,3)]] assms(1,2) by (simp add: srv_ok_def srv_keep_def)

text \<open>C1: A server implements the service of \<open>Store\<close>: whatever order connections, packets that do
  not name its own entries, and timers come in, on whatever network, its log stays well formed
  and the transactions and files it holds change only by the steps of the service (a
  transaction is created, written to, committed with its text going to its file, aborted, or
  aged).\<close>

theorem server_refines_service:
  assumes "libs_ok E" and "wf_log (server_log s)" and "proper_run k E N es s"
    and "run_server k E N es s = Ok s'"
  shows "wf_log (server_log s') \<and> serve\<^sup>*\<^sup>* (service_of (lh (node s))) (service_of (lh (node s')))"
  using run_kept [OF assms] by (simp add: kept_def)

lemma demo_started:
  "wf_log (server_log (demo_server (demo_node False [] () (demo ''primary'' ''ACTIVE'' ''0'')) []))"
  "proper_run 5 ref_env dead_net demo_events (demo_server (demo_node False [] () (demo ''primary'' ''ACTIVE'' ''0'')) [])"
  by code_simp+

lemma demo_committed:
  "\<exists>s'. run_server 5 ref_env dead_net demo_events
       (demo_server (demo_node False [] () (demo ''primary'' ''ACTIVE'' ''0'')) []) = Ok s' \<and>
     om_find (server_log s') 7 = Some (demo_txn ''COMMITTED'' ''2'')"
proof -
  have "case run_server 5 ref_env dead_net demo_events
       (demo_server (demo_node False [] () (demo ''primary'' ''ACTIVE'' ''0'')) []) of
     Ok s' \<Rightarrow> om_find (server_log s') 7 = Some (demo_txn ''COMMITTED'' ''2'') | Stop e \<Rightarrow> False"
    by code_simp
  then show ?thesis by (auto split: res.splits)
qed

lemma server_refines_service_witness:
  "\<exists>s'. run_server 5 ref_env dead_net demo_events
       (demo_server (demo_node False [] () (demo ''primary'' ''ACTIVE'' ''0'')) []) = Ok s' \<and>
     serve\<^sup>*\<^sup>* (service_of (demo ''primary'' ''ACTIVE'' ''0'')) (service_of (lh (node s')))"
proof -
  obtain s' where "run_server 5 ref_env dead_net demo_events
       (demo_server (demo_node False [] () (demo ''primary'' ''ACTIVE'' ''0'')) []) = Ok s'"
    using demo_committed by blast
  with server_refines_service [OF ref_libs_ok demo_started this] show ?thesis
    by (simp add: demo_server_def demo_node_def)
qed

text \<open>C2: The files hold committed data and nothing else, exactly once: over any run whose packets
  do not name the server's own entries \<open>0\<close> and \<open>-1\<close>, the transactions that were committed in
  it can be put in an order, each once, so that every file of the clients has gained exactly
  the writes of those of them that were opened for it, in that order. A transaction that was
  committed before keeps its number and its data. Packets that name entry \<open>0\<close> break this
  (\<open>own_entry_commits\<close>).\<close>

theorem files_gain_commits:
  assumes "libs_ok E" and "wf_log (server_log s)" and "proper_run k E N es s"
    and "run_server k E N es s = Ok s'"
  shows "\<exists>ks. distinct ks
    \<and> set ks = {t. settled (abs_log (server_log s')) t \<and> \<not> settled (abs_log (server_log s)) t}
    \<and> (\<forall>p. \<not> own_file p \<longrightarrow> file_text (files (lh (node s'))) p =
         file_text (files (lh (node s))) p @ concat (map (lands (abs_log (server_log s')) p) ks))
    \<and> final_kept (abs_log (server_log s)) (abs_log (server_log s'))"
proof -
  obtain ks where "adds ks (service_of (lh (node s))) (service_of (lh (node s')))"
    using serves_adds run_kept [OF assms] unfolding kept_def by blast
  then have "final_kept (abs_log (server_log s)) (abs_log (server_log s'))" "distinct ks"
    "set ks = {t. settled (abs_log (server_log s')) t \<and> \<not> settled (abs_log (server_log s)) t}"
    and v: "visible (files (lh (node s'))) p =
      visible (files (lh (node s))) p @ concat (map (lands (abs_log (server_log s')) p) ks)" for p
    by (simp_all add: adds_def)
  moreover have "file_text (files (lh (node s'))) p =
      file_text (files (lh (node s))) p @ concat (map (lands (abs_log (server_log s')) p) ks)" if "\<not> own_file p" for p
    using v [of p] that by (simp add: visible_def)
  ultimately show ?thesis by blast
qed

lemma files_gain_commits_witness:
  "\<exists>s' ks. run_server 5 ref_env dead_net demo_events
       (demo_server (demo_node False [] () (demo ''primary'' ''ACTIVE'' ''0'')) []) = Ok s' \<and> 7 \<in> set ks \<and>
     file_text (files (lh (node s'))) ''notes'' =
       ''old'' @ [nl] @ concat (map (lands (abs_log (server_log s')) ''notes'') ks)"
proof -
  let ?s = "demo_server (demo_node False [] () (demo ''primary'' ''ACTIVE'' ''0'')) []"
  obtain s' where run: "run_server 5 ref_env dead_net demo_events ?s = Ok s'"
    and t: "om_find (server_log s') 7 = Some (demo_txn ''COMMITTED'' ''2'')"
    using demo_committed by blast
  have "settled (abs_log (server_log s')) 7"
    using t by (simp add: settled_def abs_log_find demo_keys) (simp add: abs_txn_def demo_txn_def)
  moreover have "om_find (server_log ?s) 7 = Some (demo_txn ''ACTIVE'' ''0'')" by code_simp
  then have "\<not> settled (abs_log (server_log ?s)) 7"
    by (simp add: settled_def abs_log_find demo_keys) (simp add: abs_txn_def demo_txn_def)
  moreover have "\<not> own_file ''notes''" by code_simp
  moreover have "file_text (files (lh (node ?s))) ''notes'' = ''old'' @ [nl]" by code_simp
  ultimately show ?thesis
    using files_gain_commits [OF ref_libs_ok demo_started run] run by force
qed

text \<open>What packets that name the server's own entry do: its address takes a write and a commit, and
  a file with the name of its port gains the data, with no transaction committed.\<close>

lemma own_entry_commits:
  "case run_server 5 ref_env dead_net
     [Accepted False ''10.0.0.8'' 4000, Arrived 0 False (genRequest1 ref_env ''AUTH'') [] There,
      Arrived 0 False (''WRITE 0 1 5'' @ crlf @ crlf @ ''text'' @ [nl]) [] There,
      Arrived 0 False (packet ''COMMIT 0 1 0'') [] There]
     (demo_server (demo_node False [] () (demo ''primary'' ''ACTIVE'' ''0'')) []) of
     Ok s' \<Rightarrow> file_text (files (lh (node s'))) ''8080'' = ''text'' @ [nl] \<and> om_keys (server_log s') = [0, 7]
       \<and> om_find (server_log s') 7 = Some (demo_txn ''ACTIVE'' ''0'') \<and> getRole (server_log s') = Ok ''COMMITTED''
   | Stop e \<Rightarrow> False"
  by code_simp

text \<open>In short, what is committed stays committed.\<close>

lemma committed_survives:
  assumes "libs_ok E" and "wf_log (server_log s)" and "proper_run k E N es s"
    and "run_server k E N es s = Ok s'"
  shows "wf_log (server_log s')
    \<and> (\<forall>t a q. abs_log (server_log s) t = Some a \<and> phase a = Committed q \<longrightarrow> abs_log (server_log s') t = Some a)"
  using run_kept [OF assms] by (auto simp: kept_wf final_kept_def dest!: kept_final)

lemma committed_survives_witness:
  "\<exists>s'. run_server 5 ref_env dead_net
       [Accepted False ''10.0.0.8'' 4000, Arrived 0 False (packet ''ABORT 7 0 0'') [] There, Txn_timer, Rep_timer]
       (demo_server (demo_node False [] () (demo ''primary'' ''COMMITTED'' ''2'')) []) = Ok s' \<and>
     abs_log (server_log s') 7 = Some (abs_txn (demo_txn ''COMMITTED'' ''2''))"
proof -
  let ?s = "demo_server (demo_node False [] () (demo ''primary'' ''COMMITTED'' ''2'')) []"
  let ?es = "[Accepted False ''10.0.0.8'' 4000, Arrived 0 False (packet ''ABORT 7 0 0'') [] There, Txn_timer, Rep_timer]"
  have p: "proper_run 5 ref_env dead_net ?es ?s" by code_simp
  have "is_ok (run_server 5 ref_env dead_net ?es ?s)" by code_simp
  then obtain s' where run: "run_server 5 ref_env dead_net ?es ?s = Ok s'" by (auto simp: is_ok_ex)
  have l: "server_log ?s = log_trans (demo ''primary'' ''COMMITTED'' ''2'')"
    by (simp add: demo_server_def demo_node_def)
  have wf: "wf_log (server_log ?s)" using demo_wf(5) unfolding l .
  have t: "om_find (server_log ?s) 7 = Some (demo_txn ''COMMITTED'' ''2'')" by code_simp
  then have a: "abs_log (server_log ?s) 7 = Some (abs_txn (demo_txn ''COMMITTED'' ''2''))"
    by (simp add: abs_log_def server_key_def)
  have "phase (abs_txn (demo_txn ''COMMITTED'' ''2'')) = Committed (atoi_val ''2'')"
    by (simp add: abs_txn_def demo_txn_def)
  with committed_survives [OF ref_libs_ok wf p run] a run show ?thesis by blast
qed

end
